(* ===== verification/Prelude.thy ===== *)
theory Prelude
  imports Main "HOL-Library.Char_ord" "HOL-Library.List_Lexorder"
begin

text \<open>
  Shared vocabulary of the development: Go strings as byte strings, Go errors as values, decimal
  formatting, and the generic lemmas the components use.

  A Go \<^verbatim>\<open>string\<close> or \<^verbatim>\<open>[]byte\<close> is a list of bytes. HOL's \<^typ>\<open>char\<close> has
  exactly the 256 byte values, so both are modelled by \<^typ>\<open>string\<close>, and the order of
  \<open>List_Lexorder\<close> over \<open>Char_ord\<close> is Go's byte-wise string order.
\<close>

type_synonym bytes = string

named_theorems go_simps \<open>equations of the Go standard library functions the model uses\<close>
named_theorems codes \<open>definitions of the model that evaluation unfolds\<close>

section \<open>Errors\<close>

text \<open>
  A Go \<^verbatim>\<open>error\<close> value with its chain of wrapped errors. \<open>Leaf\<close> is
  \<^verbatim>\<open>errors.New\<close> (or an error of the operating system), \<open>Wrapf\<close> is
  \<^verbatim>\<open>fmt.Errorf("<prefix>: %w", err)\<close> with the \<^verbatim>\<open>": "\<close> left out of the prefix,
  \<open>Permanent\<close> is \<^verbatim>\<open>&permanentError{err}\<close> of internal/adapters/outbound.go and
  \<open>FieldError\<close> is \<^verbatim>\<open>&ValidationError{Field, Message}\<close> of
  internal/processor/anonymizer.go. \<open>ErrFull\<close> and \<open>ErrExist\<close> are the sentinel values
  \<^verbatim>\<open>spool.ErrFull\<close> and \<^verbatim>\<open>fs.ErrExist\<close>.
\<close>

datatype goerr =
    Leaf string
  | Wrapf string goerr
  | Permanent goerr
  | FieldError string string
  | ErrFull
  | ErrExist

fun error_text :: "goerr \<Rightarrow> string" where
  "error_text (Leaf m) = m"
| "error_text (Wrapf m e) = m @ '': '' @ error_text e"
| "error_text (Permanent e) = error_text e"
| "error_text (FieldError f m) = ''validation error: '' @ f @ '' - '' @ m"
| "error_text ErrFull = ''spool is full''"
| "error_text ErrExist = ''file already exists''"

text \<open>\<^verbatim>\<open>errors.Is(err, ErrFull)\<close> and \<^verbatim>\<open>errors.Is(err, fs.ErrExist)\<close> walk the chain.\<close>

fun errors_is_full :: "goerr \<Rightarrow> bool" where
  "errors_is_full ErrFull = True"
| "errors_is_full (Wrapf m e) = errors_is_full e"
| "errors_is_full (Permanent e) = errors_is_full e"
| "errors_is_full e = False"

fun errors_is_exist :: "goerr \<Rightarrow> bool" where
  "errors_is_exist ErrExist = True"
| "errors_is_exist (Wrapf m e) = errors_is_exist e"
| "errors_is_exist (Permanent e) = errors_is_exist e"
| "errors_is_exist e = False"

text \<open>A Go function that returns \<^verbatim>\<open>error\<close> alone returns \<open>None\<close> for \<^verbatim>\<open>nil\<close>.\<close>

type_synonym gores = "goerr option"

section \<open>Decimal formatting\<close>

definition digit_char :: "nat \<Rightarrow> char" where
  "digit_char d = char_of (48 + d)"

definition is_digit :: "char \<Rightarrow> bool" where
  "is_digit c \<longleftrightarrow> 48 \<le> (of_char c :: nat) \<and> (of_char c :: nat) \<le> 57"

definition digit_val :: "char \<Rightarrow> nat" where
  "digit_val c = of_char c - 48"

lemma of_char_digit_char [simp]: "d < 10 \<Longrightarrow> (of_char (digit_char d) :: nat) = 48 + d"
  by (simp add: digit_char_def)

lemma digit_val_digit_char [simp]: "d < 10 \<Longrightarrow> digit_val (digit_char d) = d"
  by (simp add: digit_val_def)

lemma is_digit_digit_char [simp]: "d < 10 \<Longrightarrow> is_digit (digit_char d)"
  by (simp add: is_digit_def)

lemma digit_char_digit_val [simp]: "is_digit c \<Longrightarrow> digit_char (digit_val c) = c"
  by (simp add: is_digit_def digit_char_def digit_val_def)

lemma digit_val_less [simp]: "is_digit c \<Longrightarrow> digit_val c < 10"
  unfolding is_digit_def digit_val_def by linarith

text \<open>The shortest decimal form (\<^verbatim>\<open>%d\<close> of a non-negative integer).\<close>

fun show_nat :: "nat \<Rightarrow> string" where
  "show_nat n = (if n < 10 then [digit_char n] else show_nat (n div 10) @ [digit_char (n mod 10)])"

declare show_nat.simps [simp del]

text \<open>Reading a digit string back, most significant digit first.\<close>

definition digits_val :: "string \<Rightarrow> nat" where
  "digits_val s = foldl (\<lambda>acc c. 10 * acc + digit_val c) 0 s"

lemma digits_val_Nil [simp]: "digits_val [] = 0"
  by (simp add: digits_val_def)

lemma digits_val_snoc [simp]: "digits_val (s @ [c]) = 10 * digits_val s + digit_val c"
  by (simp add: digits_val_def)

lemma digits_val_show_nat [simp]: "digits_val (show_nat n) = n"
proof (induction n rule: show_nat.induct)
  case (1 n)
  then show ?case
    by (cases "n < 10") (simp_all add: show_nat.simps [of n] digits_val_def)
qed

lemma show_nat_digits [simp]: "list_all is_digit (show_nat n)"
proof (induction n rule: show_nat.induct)
  case (1 n)
  then show ?case
    by (cases "n < 10") (simp_all add: show_nat.simps [of n])
qed

lemma show_nat_not_Nil [simp]: "show_nat n \<noteq> []"
  by (subst show_nat.simps) simp

lemma show_nat_inj [simp]: "show_nat m = show_nat n \<longleftrightarrow> m = n"
  using digits_val_show_nat by metis

lemma show_nat_length_le: "0 < k \<Longrightarrow> n < 10 ^ k \<Longrightarrow> length (show_nat n) \<le> k"
proof (induction k arbitrary: n)
  case 0
  then show ?case by simp
next
  case (Suc k)
  show ?case
  proof (cases "n < 10")
    case True
    then show ?thesis by (simp add: show_nat.simps [of n])
  next
    case False
    with Suc.prems have k: "0 < k" by (cases k) auto
    from Suc.prems have "n div 10 < 10 ^ k" by simp
    with Suc.IH [OF k] have "length (show_nat (n div 10)) \<le> k" by simp
    with False show ?thesis by (simp add: show_nat.simps [of n])
  qed
qed

text \<open>\<^verbatim>\<open>%0<w>d\<close> of a non-negative integer.\<close>

definition pad_left :: "nat \<Rightarrow> char \<Rightarrow> string \<Rightarrow> string" where
  "pad_left w c s = replicate (w - length s) c @ s"

lemma length_pad_left [simp]: "length (pad_left w c s) = max w (length s)"
  by (simp add: pad_left_def)

definition show_pad :: "nat \<Rightarrow> nat \<Rightarrow> string" where
  "show_pad w n = pad_left w (CHR ''0'') (show_nat n)"

lemma digits_val_replicate_zero [simp]: "digits_val (replicate k (CHR ''0'') @ s) = digits_val s"
proof (induction k)
  case (Suc k)
  have "digit_val (CHR ''0'') = 0" by (simp add: digit_val_def)
  with Suc show ?case by (simp add: digits_val_def)
qed simp

lemma digits_val_show_pad [simp]: "digits_val (show_pad w n) = n"
  by (simp add: show_pad_def pad_left_def)

lemma show_pad_digits [simp]: "list_all is_digit (show_pad w n)"
proof -
  have "is_digit (CHR ''0'')" by (simp add: is_digit_def)
  then have "list_all is_digit (replicate k (CHR ''0''))" for k
    by (induction k) auto
  then show ?thesis by (simp add: show_pad_def pad_left_def)
qed

lemma show_pad_not_Nil [simp]: "show_pad w n \<noteq> []"
  by (simp add: show_pad_def pad_left_def)

lemma show_pad_inj [simp]: "show_pad w m = show_pad w n \<longleftrightarrow> m = n"
  using digits_val_show_pad by metis

lemma length_show_pad: "0 < w \<Longrightarrow> n < 10 ^ w \<Longrightarrow> length (show_pad w n) = w"
  using show_nat_length_le [of w n] by (simp add: show_pad_def max_def)

text \<open>\<^verbatim>\<open>%d\<close> of any integer.\<close>

definition show_int :: "int \<Rightarrow> string" where
  "show_int i = (if i < 0 then CHR ''-'' # show_nat (nat (- i)) else show_nat (nat i))"

text \<open>\<^verbatim>\<open>%0<w>d\<close> of any integer: the sign counts towards the width.\<close>

definition show_int_pad :: "nat \<Rightarrow> int \<Rightarrow> string" where
  "show_int_pad w i =
     (if i < 0 then CHR ''-'' # show_pad (w - 1) (nat (- i)) else show_pad w (nat i))"

section \<open>Order of digit strings\<close>

text \<open>
  Strings of digits of the same length are ordered like the numbers they denote: the reason the
  spool can sort file names instead of parsing them.
\<close>

lemma char_less_iff: "c < d \<longleftrightarrow> (of_char c :: nat) < of_char d"
  by (simp add: less_char_def)

lemma digit_val_less_iff:
  "is_digit c \<Longrightarrow> is_digit d \<Longrightarrow> digit_val c < digit_val d \<longleftrightarrow> c < d"
  by (auto simp: char_less_iff is_digit_def digit_val_def)

lemma digit_val_eq_iff: "is_digit c \<Longrightarrow> is_digit d \<Longrightarrow> digit_val c = digit_val d \<longleftrightarrow> c = d"
  by (metis digit_char_digit_val)

lemma digits_val_Cons:
  "digits_val (c # s) = digit_val c * 10 ^ length s + digits_val s"
proof (induction s rule: rev_induct)
  case Nil
  then show ?case by (simp add: digits_val_def)
next
  case (snoc x xs)
  have "digits_val (c # xs @ [x]) = digits_val ((c # xs) @ [x])" by simp
  also have "\<dots> = 10 * digits_val (c # xs) + digit_val x" by (rule digits_val_snoc)
  finally show ?case using snoc by (simp add: algebra_simps)
qed

lemma digits_val_bound: "list_all is_digit s \<Longrightarrow> digits_val s < 10 ^ length s"
proof (induction s)
  case (Cons c s)
  from Cons.prems have "digit_val c < 10" by simp
  then have "digit_val c \<le> 9" by linarith
  moreover from Cons have "digits_val s < 10 ^ length s" by simp
  ultimately have "digit_val c * 10 ^ length s + digits_val s < 9 * 10 ^ length s + 10 ^ length s"
    by (intro add_le_less_mono mult_right_mono) auto
  then show ?case by (simp add: digits_val_Cons)
qed simp

lemma digits_less_iff:
  assumes "length s = length t" "list_all is_digit s" "list_all is_digit t"
  shows "s < t \<longleftrightarrow> digits_val s < digits_val t"
  using assms
proof (induction s t rule: list_induct2)
  case Nil
  then show ?case by simp
next
  case (Cons c s d t)
  then have dg: "is_digit c" "is_digit d" and IH: "s < t \<longleftrightarrow> digits_val s < digits_val t"
    and bs: "digits_val s < 10 ^ length t" and bt: "digits_val t < 10 ^ length t"
    using digits_val_bound [of s] digits_val_bound [of t] by auto
  have key: "digit_val x * 10 ^ length t + p < digit_val y * 10 ^ length t + q"
    if "digit_val x < digit_val y" "p < 10 ^ length t" for x y and p q :: nat
  proof -
    from that(1) have "Suc (digit_val x) * 10 ^ length t \<le> digit_val y * 10 ^ length t"
      by (intro mult_right_mono) auto
    with that(2) show ?thesis by simp
  qed
  consider "digit_val c < digit_val d" | "digit_val d < digit_val c" | "c = d"
    using digit_val_eq_iff [OF dg] by linarith
  then show ?case
  proof cases
    case 1
    then have "c < d" using digit_val_less_iff [OF dg] by simp
    with key [OF 1 bs] show ?thesis using Cons.hyps by (auto simp: digits_val_Cons)
  next
    case 2
    then have "\<not> c < d" "c \<noteq> d" using digit_val_less_iff [OF dg] by auto
    moreover from key [OF 2 bt] have "\<not> digits_val (c # s) < digits_val (d # t)"
      using Cons.hyps by (simp add: digits_val_Cons not_less less_imp_le)
    ultimately show ?thesis by simp
  next
    case 3
    with IH Cons.hyps show ?thesis by (simp add: digits_val_Cons)
  qed
qed

lemma append_less_iff:
  fixes s t :: string
  assumes "length s = length t"
  shows "s @ u < t @ v \<longleftrightarrow> s < t \<or> (s = t \<and> u < v)"
  using assms by (induction s t rule: list_induct2) auto

end
