(* ===== verification/FileSys.thy ===== *)
theory FileSys
  imports Prelude "HOL-Library.Sublist" "HOL-Library.AList"
begin

text \<open>
  The operating system under the spool and the audit logs, and internal/dirsync/dirsync.go on top of it.

  A path is a directory and a name. The directory entries and the contents the running process
  sees are kept apart from what has reached stable storage: \<open>fs_log\<close> lists the entry
  changes since the directory was last fsynced, \<open>fs_stable\<close> is the content of an inode at its
  last fsync. A crash (power loss) may leave every entry at any of its values since the last
  directory fsync, and keeps of every inode at least its stable content as long as the file has
  only been appended to. \<open>fs_faults\<close> gives the outcomes of the coming system calls, so that
  every error return of the code is reachable in the model.
\<close>

type_synonym inode = nat
type_synonym path = "bytes \<times> bytes"

datatype fault = NoFault | Fault string | ShortWrite nat string

record fs =
  fs_entries :: "(path \<times> inode) list"
  fs_synced :: "(path \<times> inode) list"
  fs_log :: "(path \<times> inode option) list"
  fs_data :: "inode \<Rightarrow> bytes"
  fs_stable :: "inode \<Rightarrow> bytes"
  fs_next :: inode
  fs_faults :: "fault list"

definition empty_fs :: "fault list \<Rightarrow> fs" where
  "empty_fs faults = \<lparr>fs_entries = [], fs_synced = [], fs_log = [], fs_data = (\<lambda>_. []),
     fs_stable = (\<lambda>_. []), fs_next = 0, fs_faults = faults\<rparr>"

definition lookup_path :: "fs \<Rightarrow> path \<Rightarrow> inode option" where
  "lookup_path s p = map_of (fs_entries s) p"

definition file_content :: "fs \<Rightarrow> path \<Rightarrow> bytes option" where
  "file_content s p = map_option (fs_data s) (lookup_path s p)"

definition set_entry :: "path \<Rightarrow> inode \<Rightarrow> fs \<Rightarrow> fs" where
  "set_entry p i s = s\<lparr>fs_entries := AList.update p i (fs_entries s), fs_log := (p, Some i) # fs_log s\<rparr>"

definition del_entry :: "path \<Rightarrow> fs \<Rightarrow> fs" where
  "del_entry p s = s\<lparr>fs_entries := AList.delete p (fs_entries s), fs_log := (p, None) # fs_log s\<rparr>"

text \<open>A new, empty file at \<open>p\<close>.\<close>

definition create_file :: "path \<Rightarrow> fs \<Rightarrow> inode \<times> fs" where
  "create_file p s =
     (let i = fs_next s
      in (i, set_entry p i (s\<lparr>fs_next := Suc i, fs_data := (fs_data s)(i := []), fs_stable := (fs_stable s)(i := [])\<rparr>)))"

section \<open>System calls\<close>

text \<open>
  Each call first takes its outcome from \<open>fs_faults\<close> (no list, no fault). A call that fails by
  itself (a missing file, an existing one under \<^verbatim>\<open>O_EXCL\<close>) returns its error under
  \<open>NoFault\<close>.
\<close>

type_synonym 'a io = "fs \<Rightarrow> (goerr + 'a) \<times> fs"

definition pop_fault :: "fs \<Rightarrow> fs" where
  "pop_fault s = s\<lparr>fs_faults := tl (fs_faults s)\<rparr>"

definition next_fault :: "fs \<Rightarrow> fault" where
  "next_fault s = (case fs_faults s of [] \<Rightarrow> NoFault | f # fs \<Rightarrow> f)"

definition syscall :: "'a io \<Rightarrow> 'a io" where
  "syscall act s =
     (case next_fault s of
        NoFault \<Rightarrow> act (pop_fault s)
      | Fault m \<Rightarrow> (Inl (Leaf m), pop_fault s)
      | ShortWrite n m \<Rightarrow> (Inl (Leaf m), pop_fault s))"

definition enoent :: goerr where "enoent = Leaf ''no such file or directory''"

definition os_open_excl :: "path \<Rightarrow> inode io" where
  "os_open_excl p = syscall (\<lambda>s.
     if lookup_path s p \<noteq> None then (Inl ErrExist, s)
     else case create_file p s of (i, s') \<Rightarrow> (Inr i, s'))"

definition os_open_append :: "path \<Rightarrow> inode io" where
  "os_open_append p = syscall (\<lambda>s.
     case lookup_path s p of None \<Rightarrow> (Inl enoent, s) | Some i \<Rightarrow> (Inr i, s))"

definition os_open_trunc :: "path \<Rightarrow> inode io" where
  "os_open_trunc p = syscall (\<lambda>s.
     case lookup_path s p of
       None \<Rightarrow> (case create_file p s of (i, s') \<Rightarrow> (Inr i, s'))
     | Some i \<Rightarrow> (Inr i, s\<lparr>fs_data := (fs_data s)(i := [])\<rparr>))"

definition append_data :: "inode \<Rightarrow> bytes \<Rightarrow> fs \<Rightarrow> fs" where
  "append_data i b s = s\<lparr>fs_data := (fs_data s)(i := fs_data s i @ b)\<rparr>"

text \<open>A failing write may have written a part.\<close>

definition os_write :: "inode \<Rightarrow> bytes \<Rightarrow> unit io" where
  "os_write i b s =
     (case next_fault s of
        NoFault \<Rightarrow> (Inr (), append_data i b (pop_fault s))
      | Fault m \<Rightarrow> (Inl (Leaf m), pop_fault s)
      | ShortWrite n m \<Rightarrow> (Inl (Leaf m), append_data i (take n b) (pop_fault s)))"

definition os_fsync :: "inode \<Rightarrow> unit io" where
  "os_fsync i = syscall (\<lambda>s. (Inr (), s\<lparr>fs_stable := (fs_stable s)(i := fs_data s i)\<rparr>))"

text \<open>Calls whose only effect in the model is their outcome (\<^verbatim>\<open>Close\<close>, opening a directory,
  \<^verbatim>\<open>MkdirAll\<close> of a directory that need not be durable).\<close>

definition os_plain :: "unit io" where
  "os_plain = syscall (\<lambda>s. (Inr (), s))"

definition os_rename :: "path \<Rightarrow> path \<Rightarrow> unit io" where
  "os_rename p q = syscall (\<lambda>s.
     case lookup_path s p of
       None \<Rightarrow> (Inl enoent, s)
     | Some i \<Rightarrow> (Inr (), if p = q then s else del_entry p (set_entry q i s)))"

definition os_remove :: "path \<Rightarrow> unit io" where
  "os_remove p = syscall (\<lambda>s.
     if lookup_path s p = None then (Inl enoent, s) else (Inr (), del_entry p s))"

definition sync_entries :: "bytes \<Rightarrow> fs \<Rightarrow> fs" where
  "sync_entries d s =
     s\<lparr>fs_synced := filter (\<lambda>e. fst (fst e) = d) (fs_entries s) @ filter (\<lambda>e. fst (fst e) \<noteq> d) (fs_synced s),
       fs_log := filter (\<lambda>e. fst (fst e) \<noteq> d) (fs_log s)\<rparr>"

definition os_fsync_dir :: "bytes \<Rightarrow> unit io" where
  "os_fsync_dir d = syscall (\<lambda>s. (Inr (), sync_entries d s))"

definition os_read_file :: "path \<Rightarrow> bytes io" where
  "os_read_file p = syscall (\<lambda>s. (case file_content s p of None \<Rightarrow> Inl enoent | Some b \<Rightarrow> Inr b, s))"

text \<open>The names of the regular files of a directory, in the order of the directory.\<close>

definition dir_names :: "bytes \<Rightarrow> fs \<Rightarrow> bytes list" where
  "dir_names d s = map (snd \<circ> fst) (filter (\<lambda>e. fst (fst e) = d) (fs_entries s))"

definition os_read_dir :: "bytes \<Rightarrow> bytes list io" where
  "os_read_dir d = syscall (\<lambda>s. (Inr (dir_names d s), s))"

section \<open>internal/dirsync\<close>

text \<open>The error of the deferred \<^verbatim>\<open>Close\<close> of \<^verbatim>\<open>Sync\<close> is not looked at by the code.\<close>

definition Sync :: "bytes \<Rightarrow> unit io" where
  "Sync dir s =
     (case os_plain s of
        (Inl e, s1) \<Rightarrow> (Inl e, s1)
      | (Inr _, s1) \<Rightarrow> (case os_fsync_dir dir s1 of (r, s2) \<Rightarrow> (r, snd (os_plain s2))))"

definition OpenAppendFile :: "path \<Rightarrow> (inode \<times> bool) io" where
  "OpenAppendFile path s =
     (case os_open_excl path s of
        (Inr i, s1) \<Rightarrow> (Inr (i, True), s1)
      | (Inl e, s1) \<Rightarrow>
          if \<not> errors_is_exist e then (Inl e, s1)
          else (case os_open_append path s1 of
                  (Inl e', s2) \<Rightarrow> (Inl e', s2)
                | (Inr i, s2) \<Rightarrow> (Inr (i, False), s2)))"

section \<open>Crashes\<close>

definition crash_content :: "bytes \<Rightarrow> bytes \<Rightarrow> bytes \<Rightarrow> bool" where
  "crash_content old cur c \<longleftrightarrow>
     (if old = cur then c = cur else prefix old cur \<longrightarrow> prefix old c)"

definition possible_entries :: "fs \<Rightarrow> path \<Rightarrow> inode option set" where
  "possible_entries s p = insert (map_of (fs_synced s) p) (snd ` {e \<in> set (fs_log s). fst e = p})"

text \<open>\<open>crash s s'\<close>: the machine loses power in \<open>s\<close> and finds \<open>s'\<close> when it is back.\<close>

definition crash :: "fs \<Rightarrow> fs \<Rightarrow> bool" where
  "crash s s' \<longleftrightarrow>
     (\<forall>p. lookup_path s' p \<in> possible_entries s p)
     \<and> (\<forall>i. crash_content (fs_stable s i) (fs_data s i) (fs_data s' i))"

text \<open>A file that survives every crash with its content, or with what precedes later appends.\<close>

definition durable_file :: "fs \<Rightarrow> path \<Rightarrow> inode \<Rightarrow> bool" where
  "durable_file s p i \<longleftrightarrow> possible_entries s p = {Some i}"

lemma durable_file_lookup:
  assumes "crash s s'" "durable_file s p i"
  shows "lookup_path s' p = Some i"
proof -
  from assms(1) have "lookup_path s' p \<in> possible_entries s p" unfolding crash_def by (rule conjunct1 [THEN spec])
  with assms(2) show ?thesis by (simp add: durable_file_def)
qed

lemma crash_data: "crash s s' \<Longrightarrow> crash_content (fs_stable s i) (fs_data s i) (fs_data s' i)"
  unfolding crash_def by (rule conjunct2 [THEN spec])

lemma durable_content:
  assumes "crash s s'" "durable_file s p i" "fs_stable s i = fs_data s i"
  shows "file_content s' p = Some (fs_data s i)"
  using durable_file_lookup [OF assms(1,2)] crash_data [OF assms(1), of i] assms(3)
  by (simp add: file_content_def crash_content_def)

lemma durable_prefix:
  assumes "crash s s'" "durable_file s p i" "prefix b (fs_stable s i)" "prefix (fs_stable s i) (fs_data s i)"
  shows "\<exists>c. file_content s' p = Some c \<and> prefix b c"
proof -
  have "prefix (fs_stable s i) (fs_data s' i)"
    using crash_data [OF assms(1), of i] assms(4) by (auto simp: crash_content_def split: if_splits)
  with assms(3) have "prefix b (fs_data s' i)" by (rule prefix_order.trans)
  then show ?thesis using durable_file_lookup [OF assms(1,2)] by (simp add: file_content_def)
qed

section \<open>Well-formed states\<close>

text \<open>
  Every path has one entry, no inode has two names, inodes are numbered below \<open>fs_next\<close>, and
  the present entry of a path is its last change, or what is on stable storage when there is none.
\<close>

definition logged_entry :: "fs \<Rightarrow> path \<Rightarrow> inode option" where
  "logged_entry s p = (case map_of (fs_log s) p of Some v \<Rightarrow> v | None \<Rightarrow> map_of (fs_synced s) p)"

lemma logged_entry_update [simp]:
  "logged_entry (s\<lparr>fs_data := d\<rparr>) = logged_entry s" "logged_entry (s\<lparr>fs_stable := d\<rparr>) = logged_entry s"
  "logged_entry (s\<lparr>fs_faults := f\<rparr>) = logged_entry s"
  by (simp_all add: logged_entry_def fun_eq_iff split: option.split)

definition wf_fs :: "fs \<Rightarrow> bool" where
  "wf_fs s \<longleftrightarrow>
     distinct (map fst (fs_entries s))
     \<and> (\<forall>p q i. lookup_path s p = Some i \<longrightarrow> lookup_path s q = Some i \<longrightarrow> p = q)
     \<and> (\<forall>p i. lookup_path s p = Some i \<longrightarrow> i < fs_next s)
     \<and> (\<forall>p. lookup_path s p = logged_entry s p)"

lemma wf_empty_fs [simp]: "wf_fs (empty_fs fl)"
  by (simp add: wf_fs_def empty_fs_def lookup_path_def logged_entry_def)

lemma wf_pop_fault [simp]: "wf_fs (pop_fault s) \<longleftrightarrow> wf_fs s"
  by (simp add: wf_fs_def pop_fault_def lookup_path_def)

lemma pop_fault_simps [simp]:
  "fs_entries (pop_fault s) = fs_entries s" "fs_data (pop_fault s) = fs_data s"
  "fs_stable (pop_fault s) = fs_stable s" "fs_next (pop_fault s) = fs_next s"
  "fs_log (pop_fault s) = fs_log s" "fs_synced (pop_fault s) = fs_synced s"
  "lookup_path (pop_fault s) = lookup_path s" "file_content (pop_fault s) = file_content s"
  "dir_names d (pop_fault s) = dir_names d s" "possible_entries (pop_fault s) = possible_entries s"
  by (simp_all add: pop_fault_def lookup_path_def file_content_def dir_names_def possible_entries_def fun_eq_iff)

lemma lookup_set_entry [simp]: "lookup_path (set_entry p i s) = (lookup_path s)(p \<mapsto> i)"
  by (simp add: set_entry_def lookup_path_def fun_eq_iff update_conv)

lemma lookup_del_entry [simp]: "lookup_path (del_entry p s) = (lookup_path s)(p := None)"
  by (simp add: del_entry_def lookup_path_def fun_eq_iff delete_conv')

lemma entry_data_simps [simp]:
  "fs_data (set_entry p i s) = fs_data s" "fs_data (del_entry p s) = fs_data s"
  "fs_stable (set_entry p i s) = fs_stable s" "fs_stable (del_entry p s) = fs_stable s"
  "fs_next (set_entry p i s) = fs_next s" "fs_next (del_entry p s) = fs_next s"
  "fs_log (set_entry p i s) = (p, Some i) # fs_log s" "fs_log (del_entry p s) = (p, None) # fs_log s"
  "fs_synced (set_entry p i s) = fs_synced s" "fs_synced (del_entry p s) = fs_synced s"
  by (simp_all add: set_entry_def del_entry_def)

lemma lookup_of_entries: "fs_entries s' = fs_entries s \<Longrightarrow> lookup_path s' = lookup_path s"
  by (simp add: lookup_path_def fun_eq_iff)

lemma lookup_data_update [simp]:
  "lookup_path (s\<lparr>fs_data := d\<rparr>) = lookup_path s" "lookup_path (s\<lparr>fs_stable := d\<rparr>) = lookup_path s"
  "lookup_path (s\<lparr>fs_next := n\<rparr>) = lookup_path s" "lookup_path (s\<lparr>fs_faults := f\<rparr>) = lookup_path s"
  by (simp_all add: lookup_path_def fun_eq_iff)

lemma wf_data_update [simp]:
  "wf_fs (s\<lparr>fs_data := d\<rparr>) = wf_fs s" "wf_fs (s\<lparr>fs_stable := d\<rparr>) = wf_fs s"
  "wf_fs (s\<lparr>fs_faults := f\<rparr>) = wf_fs s"
  by (simp_all add: wf_fs_def)

lemma wf_inj: "wf_fs s \<Longrightarrow> lookup_path s p = Some i \<Longrightarrow> lookup_path s q = Some i \<Longrightarrow> p = q"
  unfolding wf_fs_def by blast

lemma wf_less: "wf_fs s \<Longrightarrow> lookup_path s p = Some i \<Longrightarrow> i < fs_next s"
  unfolding wf_fs_def by blast

lemma wf_logged: "wf_fs s \<Longrightarrow> lookup_path s p = logged_entry s p"
  unfolding wf_fs_def by blast

lemma wf_keys: "wf_fs s \<Longrightarrow> distinct (map fst (fs_entries s))"
  unfolding wf_fs_def by blast

lemma wf_fsI:
  assumes "distinct (map fst (fs_entries s))"
    and "\<And>p q i. lookup_path s p = Some i \<Longrightarrow> lookup_path s q = Some i \<Longrightarrow> p = q"
    and "\<And>p i. lookup_path s p = Some i \<Longrightarrow> i < fs_next s"
    and "\<And>p. lookup_path s p = logged_entry s p"
  shows "wf_fs s"
  unfolding wf_fs_def using assms by blast

lemma wf_del_entry [simp]:
  assumes "wf_fs s"
  shows "wf_fs (del_entry p s)"
proof (rule wf_fsI)
  show "distinct (map fst (fs_entries (del_entry p s)))"
    using wf_keys [OF assms] by (simp add: del_entry_def distinct_delete)
next
  fix q
  show "lookup_path (del_entry p s) q = logged_entry (del_entry p s) q"
    using wf_logged [OF assms, of q] by (cases "q = p") (simp_all add: logged_entry_def split: option.split)
qed (use wf_inj [OF assms] wf_less [OF assms] in \<open>simp_all split: if_split_asm\<close>)

lemma wf_create_file:
  assumes "wf_fs s" "create_file p s = (i, s')"
  shows "wf_fs s'" "i = fs_next s" "lookup_path s' = (lookup_path s)(p \<mapsto> i)"
    "fs_data s' = (fs_data s)(i := [])" "fs_stable s' = (fs_stable s)(i := [])" "fs_next s' = Suc i"
    "fs_faults s' = fs_faults s" "fs_log s' = (p, Some i) # fs_log s" "fs_synced s' = fs_synced s"
proof -
  have s': "s' = set_entry p (fs_next s) (s\<lparr>fs_next := Suc (fs_next s), fs_data := (fs_data s)(fs_next s := []),
      fs_stable := (fs_stable s)(fs_next s := [])\<rparr>)" and i: "i = fs_next s"
    using assms(2) by (auto simp: create_file_def Let_def)
  show "i = fs_next s" by (rule i)
  show l: "lookup_path s' = (lookup_path s)(p \<mapsto> i)" by (simp add: s' i)
  show "fs_data s' = (fs_data s)(i := [])" "fs_stable s' = (fs_stable s)(i := [])" and n: "fs_next s' = Suc i"
    "fs_faults s' = fs_faults s" "fs_log s' = (p, Some i) # fs_log s" "fs_synced s' = fs_synced s"
    by (simp_all add: s' i set_entry_def)
  have "distinct (map fst (fs_entries s'))"
    using assms(1) by (simp add: s' set_entry_def wf_fs_def distinct_update)
  moreover have g: "fs_log s' = (p, Some i) # fs_log s" "fs_synced s' = fs_synced s" by (simp_all add: s' i set_entry_def)
  moreover have less: "j < fs_next s" if "lookup_path s q = Some j" for q j using wf_less [OF assms(1)] that .
  ultimately show "wf_fs s'"
  proof (intro wf_fsI)
    fix q r j
    assume "lookup_path s' q = Some j" "lookup_path s' r = Some j"
    then show "q = r" using wf_inj [OF assms(1), of q j r] less [of q j] less [of r j]
      by (cases "q = p"; cases "r = p") (simp_all add: l i)
  next
    fix q j
    assume "lookup_path s' q = Some j"
    then show "j < fs_next s'" using less [of q j] by (cases "q = p") (simp_all add: l n i)
  next
    fix q
    show "lookup_path s' q = logged_entry s' q"
      using wf_logged [OF assms(1), of q] by (cases "q = p") (simp_all add: logged_entry_def l g split: option.split)
  qed
qed

lemma wf_rename:
  assumes "wf_fs s" "lookup_path s p = Some i" "p \<noteq> q"
  shows "wf_fs (del_entry p (set_entry q i s))"
proof -
  have "distinct (map fst (fs_entries (del_entry p (set_entry q i s))))"
    using assms(1) by (simp add: del_entry_def set_entry_def wf_fs_def distinct_update distinct_delete)
  moreover have "fs_log (del_entry p (set_entry q i s)) = (p, None) # (q, Some i) # fs_log s"
    "fs_synced (del_entry p (set_entry q i s)) = fs_synced s" by (simp_all add: del_entry_def set_entry_def)
  ultimately show ?thesis
  proof (intro wf_fsI)
    fix r t j
    assume "lookup_path (del_entry p (set_entry q i s)) r = Some j" "lookup_path (del_entry p (set_entry q i s)) t = Some j"
    then have r: "r \<noteq> p \<and> (if r = q then j = i else lookup_path s r = Some j)"
      and t: "t \<noteq> p \<and> (if t = q then j = i else lookup_path s t = Some j)"
      by (simp_all split: if_split_asm)
    show "r = t"
    proof (rule ccontr)
      assume "r \<noteq> t"
      with r t wf_inj [OF assms(1), of r j t] wf_inj [OF assms(1) assms(2), of r] wf_inj [OF assms(1) assms(2), of t]
      show False by (cases "r = q"; cases "t = q") simp_all
    qed
  next
    fix r j
    assume "lookup_path (del_entry p (set_entry q i s)) r = Some j"
    then show "j < fs_next (del_entry p (set_entry q i s))" using wf_less [OF assms(1)] assms(2)
      by (cases "r = q") (auto split: if_split_asm)
  next
    fix r
    show "lookup_path (del_entry p (set_entry q i s)) r = logged_entry (del_entry p (set_entry q i s)) r"
      using wf_logged [OF assms(1), of r] assms(3)
      by (cases "r = p"; cases "r = q") (simp_all add: logged_entry_def split: option.split)
  qed
qed

lemma map_of_filter_dir:
  "map_of (filter (\<lambda>e. fst (fst e) = d) xs) p = (if fst p = d then map_of xs p else None)"
  "map_of (filter (\<lambda>e. fst (fst e) \<noteq> d) xs) p = (if fst p \<noteq> d then map_of xs p else None)"
  by (induction xs) auto

lemma lookup_sync_entries [simp]: "lookup_path (sync_entries d s) = lookup_path s"
  by (simp add: sync_entries_def lookup_path_def fun_eq_iff)

lemma sync_entries_simps [simp]:
  "fs_data (sync_entries d s) = fs_data s" "fs_stable (sync_entries d s) = fs_stable s"
  "fs_next (sync_entries d s) = fs_next s" "fs_entries (sync_entries d s) = fs_entries s"
  by (simp_all add: sync_entries_def)

lemma synced_sync_entries:
  "map_of (fs_synced (sync_entries d s)) p = (if fst p = d then lookup_path s p else map_of (fs_synced s) p)"
  by (simp add: sync_entries_def map_add_def map_of_filter_dir lookup_path_def split: option.split)

lemma wf_sync_entries [simp]:
  assumes "wf_fs s"
  shows "wf_fs (sync_entries d s)"
proof (rule wf_fsI)
  fix p
  have "map_of (fs_log (sync_entries d s)) p = (if fst p = d then None else map_of (fs_log s) p)"
    by (simp add: sync_entries_def map_of_filter_dir)
  then show "lookup_path (sync_entries d s) p = logged_entry (sync_entries d s) p"
    using wf_logged [OF assms, of p] by (simp add: logged_entry_def synced_sync_entries split: option.split)
qed (use wf_keys [OF assms] wf_inj [OF assms] wf_less [OF assms] in simp_all)

text \<open>After a directory fsync the present entry is the only one a crash can leave.\<close>

lemma sync_entries_durable:
  "lookup_path s (d, n) = Some i \<Longrightarrow> durable_file (sync_entries d s) (d, n) i"
  by (auto simp: durable_file_def possible_entries_def synced_sync_entries) (auto simp: sync_entries_def)

lemma current_possible:
  assumes "wf_fs s"
  shows "lookup_path s p \<in> possible_entries s p"
proof (cases "map_of (fs_log s) p")
  case None
  then show ?thesis by (simp add: wf_logged [OF assms] logged_entry_def possible_entries_def)
next
  case (Some v)
  then have "(p, v) \<in> {e \<in> set (fs_log s). fst e = p}" by (simp add: map_of_SomeD)
  then have "snd (p, v) \<in> snd ` {e \<in> set (fs_log s). fst e = p}" by (rule imageI)
  with Some show ?thesis by (simp add: wf_logged [OF assms] logged_entry_def possible_entries_def)
qed

lemma durable_current: "wf_fs s \<Longrightarrow> durable_file s p i \<Longrightarrow> lookup_path s p = Some i"
  using current_possible [of s p] by (simp add: durable_file_def)

section \<open>What the calls leave alone\<close>

text \<open>
  \<open>unaffected q s s'\<close>: from \<open>s\<close> to \<open>s'\<close> the file at \<open>q\<close> kept its entry and content and
  lost no durability (its stable content is as before or up to date). \<open>touches P\<close> holds of steps
  that keep the state well formed and affect paths of \<open>P\<close> only.
\<close>

definition unaffected :: "path \<Rightarrow> fs \<Rightarrow> fs \<Rightarrow> bool" where
  "unaffected q s s' \<longleftrightarrow>
     lookup_path s' q = lookup_path s q
     \<and> (\<forall>i. lookup_path s q = Some i \<longrightarrow>
           fs_data s' i = fs_data s i \<and> (fs_stable s' i = fs_stable s i \<or> fs_stable s' i = fs_data s i))
     \<and> (\<forall>i. durable_file s q i \<longrightarrow> durable_file s' q i)"

definition touches :: "path set \<Rightarrow> fs \<Rightarrow> fs \<Rightarrow> bool" where
  "touches P s s' \<longleftrightarrow> (wf_fs s \<longrightarrow> wf_fs s' \<and> (\<forall>q. q \<notin> P \<longrightarrow> unaffected q s s'))"

lemma unaffected_refl [simp]: "unaffected q s s"
  by (simp add: unaffected_def)

lemma unaffected_trans: "unaffected q s t \<Longrightarrow> unaffected q t u \<Longrightarrow> unaffected q s u"
  unfolding unaffected_def by metis

lemma unaffected_content: "unaffected q s s' \<Longrightarrow> file_content s' q = file_content s q"
  by (auto simp: unaffected_def file_content_def split: option.split) (cases "lookup_path s q"; simp)

lemma touches_refl [simp]: "touches P s s"
  by (simp add: touches_def)

lemma touches_trans: "touches P s t \<Longrightarrow> touches P t u \<Longrightarrow> touches P s u"
  unfolding touches_def using unaffected_trans by metis

lemma touches_mono: "touches P s t \<Longrightarrow> P \<subseteq> Q \<Longrightarrow> touches Q s t"
  unfolding touches_def by blast

lemma touches_wf: "touches P s t \<Longrightarrow> wf_fs s \<Longrightarrow> wf_fs t"
  unfolding touches_def by blast

lemma touches_unaffected: "touches P s t \<Longrightarrow> wf_fs s \<Longrightarrow> q \<notin> P \<Longrightarrow> unaffected q s t"
  unfolding touches_def by blast

lemma unaffected_pop_fault [simp]: "unaffected q s (pop_fault s)"
  by (simp add: unaffected_def durable_file_def)

lemma touches_pop_fault [simp]: "touches P s (pop_fault s)"
  by (simp add: touches_def)

lemma touches_syscall:
  assumes "\<And>s. touches P s (snd (act s))"
  shows "touches P s (snd (syscall act s))"
proof -
  have "touches P s (snd (act (pop_fault s)))"
    using touches_trans [OF touches_pop_fault assms] .
  then show ?thesis by (simp add: syscall_def split: fault.split)
qed

lemma possible_set_entry: "q \<noteq> p \<Longrightarrow> possible_entries (set_entry p i s) q = possible_entries s q"
  by (simp add: possible_entries_def) (metis (lifting) fst_conv)

lemma possible_del_entry: "q \<noteq> p \<Longrightarrow> possible_entries (del_entry p s) q = possible_entries s q"
  by (simp add: possible_entries_def) (metis (lifting) fst_conv)

lemma touches_create_file:
  assumes "create_file p s = (i, s')"
  shows "touches {p} s s'"
  unfolding touches_def
proof (intro impI conjI allI)
  assume wf: "wf_fs s"
  note c = wf_create_file [OF wf assms]
  show "wf_fs s'" by (rule c(1))
  fix q
  assume q: "q \<notin> {p}"
  have "possible_entries s' q = possible_entries s q"
    using q by (simp add: possible_entries_def c(8,9)) (metis (lifting) fst_conv)
  moreover have "j \<noteq> fs_next s" if "lookup_path s q = Some j" for j using wf_less [OF wf that] by simp
  ultimately show "unaffected q s s'"
    using q unfolding unaffected_def c(2-5) durable_file_def by simp
qed

lemma touches_del_entry: "touches {p} s (del_entry p s)"
  by (simp add: touches_def unaffected_def durable_file_def possible_del_entry)

lemma touches_rename:
  assumes "lookup_path s p = Some i" "p \<noteq> q"
  shows "touches {p, q} s (del_entry p (set_entry q i s))"
  using assms by (simp add: touches_def unaffected_def durable_file_def possible_del_entry possible_set_entry wf_rename)

lemma touches_data:
  assumes "lookup_path s p = Some i"
  shows "touches {p} s (s\<lparr>fs_data := (fs_data s)(i := b)\<rparr>)"
  unfolding touches_def
proof (intro impI conjI allI)
  assume wf: "wf_fs s"
  then show "wf_fs (s\<lparr>fs_data := (fs_data s)(i := b)\<rparr>)" by simp
  fix q
  assume "q \<notin> {p}"
  then have "j \<noteq> i" if "lookup_path s q = Some j" for j using wf_inj [OF wf assms, of q] that by auto
  moreover have "durable_file (s\<lparr>fs_data := (fs_data s)(i := b)\<rparr>) q = durable_file s q"
    by (simp add: durable_file_def possible_entries_def fun_eq_iff)
  ultimately show "unaffected q s (s\<lparr>fs_data := (fs_data s)(i := b)\<rparr>)" by (simp add: unaffected_def)
qed

lemma touches_append_data: "lookup_path s p = Some i \<Longrightarrow> touches {p} s (append_data i b s)"
  unfolding append_data_def by (rule touches_data)

lemma touches_stable: "touches P s (s\<lparr>fs_stable := (fs_stable s)(i := fs_data s i)\<rparr>)"
  by (auto simp: touches_def unaffected_def durable_file_def possible_entries_def)

lemma touches_sync_entries: "touches P s (sync_entries d s)"
  unfolding touches_def
proof (intro impI conjI allI)
  assume wf: "wf_fs s"
  then show "wf_fs (sync_entries d s)" by simp
  fix q
  have "durable_file (sync_entries d s) q i" if "durable_file s q i" for i
  proof (cases "fst q = d")
    case True
    then show ?thesis using sync_entries_durable [of s d "snd q" i] durable_current [OF wf that] by (metis prod.collapse)
  next
    case False
    then have "possible_entries (sync_entries d s) q = possible_entries s q"
      unfolding possible_entries_def synced_sync_entries by (auto simp: sync_entries_def)
    with that show ?thesis by (simp add: durable_file_def)
  qed
  then show "unaffected q s (sync_entries d s)" by (simp add: unaffected_def)
qed

lemma touches_calls [intro]:
  "touches {p} s (snd (os_open_excl p s))"
  "touches {} s (snd (os_open_append p s))"
  "touches {p} s (snd (os_open_trunc p s))"
  "touches {} s (snd (os_fsync i s))"
  "touches {} s (snd (os_plain s))"
  "touches {p, q} s (snd (os_rename p q s))"
  "touches {p} s (snd (os_remove p s))"
  "touches {} s (snd (os_fsync_dir d s))"
  "touches {} s (snd (os_read_file p s))"
  "touches {} s (snd (os_read_dir d s))"
  unfolding os_open_excl_def os_open_append_def os_open_trunc_def os_fsync_def os_plain_def os_rename_def
    os_remove_def os_fsync_dir_def os_read_file_def os_read_dir_def
  by (rule touches_syscall; auto split: prod.split option.split
      intro: touches_create_file touches_data touches_stable touches_rename touches_del_entry touches_sync_entries)+

lemma touches_write: "lookup_path s p = Some i \<Longrightarrow> touches {p} s (snd (os_write i b s))"
  unfolding os_write_def
  by (auto split: fault.split intro: touches_trans [OF touches_pop_fault touches_append_data])

lemma touches_snd: "m s = (r, s') \<Longrightarrow> touches P s (snd (m s)) \<Longrightarrow> touches P s s'"
  by simp

lemma touches_Sync: "touches {} s (snd (Sync d s))"
proof -
  obtain r1 s1 where 1: "os_plain s = (r1, s1)" by fastforce
  obtain r2 s2 where 2: "os_fsync_dir d s1 = (r2, s2)" by fastforce
  have t: "touches {} s s1" "touches {} s1 s2" "touches {} s2 (snd (os_plain s2))"
    using touches_calls(5) [of s] touches_calls(8) [of s1 d] touches_calls(5) [of s2] 1 2 by simp_all
  then have "touches {} s (snd (os_plain s2))" using touches_trans by blast
  with t(1) show ?thesis by (simp add: Sync_def 1 2 split: sum.split)
qed

text \<open>A directory fsync that reports success makes the entries of the directory durable.\<close>

lemma os_fsync_dir_ok: "os_fsync_dir d s = (Inr u, s') \<Longrightarrow> s' = sync_entries d (pop_fault s)"
  by (auto simp: os_fsync_dir_def syscall_def split: fault.splits)

lemma Sync_ok_durable:
  assumes "Sync d s = (Inr u, s')" "wf_fs s" "lookup_path s (d, n) = Some i"
  shows "durable_file s' (d, n) i"
proof -
  obtain r1 s1 where 1: "os_plain s = (r1, s1)" by fastforce
  obtain r2 s2 where 2: "os_fsync_dir d s1 = (r2, s2)" by fastforce
  from assms(1) have r2: "r2 = Inr u" "s' = snd (os_plain s2)" by (auto simp: Sync_def 1 2 split: sum.splits)
  have wf1: "wf_fs s1" and l1: "lookup_path s1 (d, n) = Some i"
    using touches_calls(5) [of s] 1 assms(2,3) by (auto simp: touches_def unaffected_def)
  have "durable_file s2 (d, n) i"
    using os_fsync_dir_ok [OF 2 [unfolded r2]] sync_entries_durable [of "pop_fault s1" d n i] l1 by simp
  moreover have "wf_fs s2" using touches_calls(8) [of s1 d] 2 wf1 by (simp add: touches_def)
  then have "unaffected (d, n) s2 s'"
    using touches_calls(5) [of s2] r2 by (simp add: touches_def)
  ultimately show ?thesis by (simp add: unaffected_def)
qed

section \<open>What a call did\<close>

lemma os_open_trunc_ok:
  assumes "os_open_trunc p s = (Inr i, s')" "wf_fs s"
  shows "lookup_path s' p = Some i" "fs_data s' i = []"
proof -
  from assms(1) have "(case lookup_path s p of
       None \<Rightarrow> (case create_file p (pop_fault s) of (i, s') \<Rightarrow> (Inr i, s'))
     | Some i \<Rightarrow> (Inr i, (pop_fault s)\<lparr>fs_data := (fs_data (pop_fault s))(i := [])\<rparr>)) = (Inr i :: goerr + inode, s')"
    by (auto simp: os_open_trunc_def syscall_def split: fault.splits)
  then have "lookup_path s' p = Some i \<and> fs_data s' i = []"
    using wf_create_file [of "pop_fault s" p i s'] assms(2)
    by (auto split: option.splits prod.splits)
  then show "lookup_path s' p = Some i" "fs_data s' i = []" by auto
qed

lemma os_write_ok: "os_write i b s = (Inr u, s') \<Longrightarrow> s' = append_data i b (pop_fault s)"
  by (auto simp: os_write_def split: fault.splits)

lemma os_fsync_ok:
  "os_fsync i s = (Inr u, s') \<Longrightarrow> s' = (pop_fault s)\<lparr>fs_stable := (fs_stable s)(i := fs_data s i)\<rparr>"
  by (auto simp: os_fsync_def syscall_def split: fault.splits)

lemma os_plain_ok: "os_plain s = (r, s') \<Longrightarrow> s' = pop_fault s"
  by (auto simp: os_plain_def syscall_def split: fault.splits)

lemma os_rename_ok:
  "os_rename p q s = (Inr u, s') \<Longrightarrow> p \<noteq> q \<Longrightarrow>
    \<exists>i. lookup_path s p = Some i \<and> s' = del_entry p (set_entry q i (pop_fault s))"
  by (auto simp: os_rename_def syscall_def split: fault.splits option.splits)

lemma os_rename_err: "os_rename p q s = (Inl e, s') \<Longrightarrow> s' = pop_fault s"
  by (auto simp: os_rename_def syscall_def split: fault.splits option.splits)

lemma os_remove_err: "os_remove p s = (Inl e, s') \<Longrightarrow> s' = pop_fault s"
  by (auto simp: os_remove_def syscall_def split: fault.splits if_splits)

lemma os_remove_ok: "os_remove p s = (Inr u, s') \<Longrightarrow> s' = del_entry p (pop_fault s)"
  by (auto simp: os_remove_def syscall_def split: fault.splits if_splits)

lemma os_read_file_result:
  "os_read_file p s = (r, s') \<Longrightarrow> s' = pop_fault s \<and> (\<forall>b. r = Inr b \<longrightarrow> file_content s p = Some b)"
  by (auto simp: os_read_file_def syscall_def split: fault.splits option.splits)

lemma os_read_dir_result:
  "os_read_dir d s = (r, s') \<Longrightarrow> s' = pop_fault s \<and> (\<forall>ns. r = Inr ns \<longrightarrow> ns = dir_names d s)"
  by (auto simp: os_read_dir_def syscall_def split: fault.splits)

end
