(* ===== verification/GoUnicode.thy ===== *)
theory GoUnicode
  imports Main Prelude
begin

text \<open>
  What the gateway uses of Go's \<^verbatim>\<open>unicode\<close>, \<^verbatim>\<open>unicode/utf8\<close> and
  \<^verbatim>\<open>strings\<close> packages: decoding and encoding of UTF-8 (with \<^verbatim>\<open>U+FFFD\<close> for an
  invalid byte), the simple case mappings and the white space of Unicode 15, and
  \<^verbatim>\<open>TrimSpace\<close>, \<^verbatim>\<open>Fields\<close>, \<^verbatim>\<open>Join\<close>, \<^verbatim>\<open>ToUpper\<close>,
  \<^verbatim>\<open>ToLower\<close>, \<^verbatim>\<open>TrimPrefix\<close> and \<^verbatim>\<open>HasSuffix\<close> over them. A rune is an
  \<^typ>\<open>int\<close> code point.
\<close>

type_synonym rune = int

section \<open>Case mappings and white space\<close>

text \<open>
  The non-ASCII part of the case tables, as ranges \<open>(first, last, stride, delta)\<close>: a rune of the
  range is moved by \<open>delta\<close>. The ranges are grouped into chunks with the bounds of each, so that
  a lookup reads one chunk.
\<close>

type_synonym case_range = "int \<times> int \<times> int \<times> int"
type_synonym case_table = "((int \<times> int) \<times> case_range list) list"

fun moves :: "case_range \<Rightarrow> rune \<Rightarrow> bool" where
  "moves (a, b, s, d) r \<longleftrightarrow> a \<le> r \<and> r \<le> b \<and> (r - a) mod s = 0"

fun delta :: "case_range \<Rightarrow> int" where
  "delta (a, b, s, d) = d"

fun case_lookup :: "case_range list \<Rightarrow> rune \<Rightarrow> rune" where
  "case_lookup [] r = r"
| "case_lookup (e # es) r = (if moves e r then r + delta e else case_lookup es r)"

fun table_lookup :: "case_table \<Rightarrow> rune \<Rightarrow> rune" where
  "table_lookup [] r = r"
| "table_lookup (((lo, hi), c) # cs) r =
     (if lo \<le> r \<and> r \<le> hi then case_lookup c r else table_lookup cs r)"

definition upper_table :: case_table where
  "upper_table = [
    ((181, 392), [
      (181, 181, 1, 743), (224, 246, 1, - 32), (248, 254, 1, - 32), (255, 255, 1, 121),
      (257, 303, 2, - 1), (305, 305, 1, - 232), (307, 311, 2, - 1), (314, 328, 2, - 1),
      (331, 375, 2, - 1), (378, 382, 2, - 1), (383, 383, 1, - 300), (384, 384, 1, 195),
      (387, 389, 2, - 1), (392, 392, 1, - 1)]),
    ((396, 447), [
      (396, 396, 1, - 1), (402, 402, 1, - 1), (405, 405, 1, 97), (409, 409, 1, - 1),
      (410, 410, 1, 163), (414, 414, 1, 130), (417, 421, 2, - 1), (424, 424, 1, - 1),
      (429, 429, 1, - 1), (432, 432, 1, - 1), (436, 438, 2, - 1), (441, 441, 1, - 1),
      (445, 445, 1, - 1), (447, 447, 1, 56)]),
    ((453, 563), [
      (453, 453, 1, - 1), (454, 454, 1, - 2), (456, 456, 1, - 1), (457, 457, 1, - 2),
      (459, 459, 1, - 1), (460, 460, 1, - 2), (462, 476, 2, - 1), (477, 477, 1, - 79),
      (479, 495, 2, - 1), (498, 498, 1, - 1), (499, 499, 1, - 2), (501, 501, 1, - 1),
      (505, 543, 2, - 1), (547, 563, 2, - 1)]),
    ((572, 608), [
      (572, 572, 1, - 1), (575, 576, 1, 10815), (578, 578, 1, - 1), (583, 591, 2, - 1),
      (592, 592, 1, 10783), (593, 593, 1, 10780), (594, 594, 1, 10782), (595, 595, 1, - 210),
      (596, 596, 1, - 206), (598, 599, 1, - 205), (601, 601, 1, - 202), (603, 603, 1, - 203),
      (604, 604, 1, 42319), (608, 608, 1, - 205)]),
    ((609, 637), [
      (609, 609, 1, 42315), (611, 611, 1, - 207), (613, 613, 1, 42280), (614, 614, 1, 42308),
      (616, 616, 1, - 209), (617, 617, 1, - 211), (618, 618, 1, 42308), (619, 619, 1, 10743),
      (620, 620, 1, 42305), (623, 623, 1, - 211), (625, 625, 1, 10749), (626, 626, 1, - 213),
      (629, 629, 1, - 214), (637, 637, 1, 10727)]),
    ((640, 887), [
      (640, 640, 1, - 218), (642, 642, 1, 42307), (643, 643, 1, - 218), (647, 647, 1, 42282),
      (648, 648, 1, - 218), (649, 649, 1, - 69), (650, 651, 1, - 217), (652, 652, 1, - 71),
      (658, 658, 1, - 219), (669, 669, 1, 42261), (670, 670, 1, 42258), (837, 837, 1, 84),
      (881, 883, 2, - 1), (887, 887, 1, - 1)]),
    ((891, 1007), [
      (891, 893, 1, 130), (940, 940, 1, - 38), (941, 943, 1, - 37), (945, 961, 1, - 32),
      (962, 962, 1, - 31), (963, 971, 1, - 32), (972, 972, 1, - 64), (973, 974, 1, - 63),
      (976, 976, 1, - 62), (977, 977, 1, - 57), (981, 981, 1, - 47), (982, 982, 1, - 54),
      (983, 983, 1, - 8), (985, 1007, 2, - 1)]),
    ((1008, 1327), [
      (1008, 1008, 1, - 86), (1009, 1009, 1, - 80), (1010, 1010, 1, 7), (1011, 1011, 1, - 116),
      (1013, 1013, 1, - 96), (1016, 1016, 1, - 1), (1019, 1019, 1, - 1), (1072, 1103, 1, - 32),
      (1104, 1119, 1, - 80), (1121, 1153, 2, - 1), (1163, 1215, 2, - 1), (1218, 1230, 2, - 1),
      (1231, 1231, 1, - 15), (1233, 1327, 2, - 1)]),
    ((1377, 7549), [
      (1377, 1414, 1, - 48), (4304, 4346, 1, 3008), (4349, 4351, 1, 3008), (5112, 5117, 1, - 8),
      (7296, 7296, 1, - 6254), (7297, 7297, 1, - 6253), (7298, 7298, 1, - 6244),
      (7299, 7300, 1, - 6242), (7301, 7301, 1, - 6243), (7302, 7302, 1, - 6236),
      (7303, 7303, 1, - 6181), (7304, 7304, 1, 35266), (7545, 7545, 1, 35332),
      (7549, 7549, 1, 3814)]),
    ((7566, 8055), [
      (7566, 7566, 1, 35384), (7681, 7829, 2, - 1), (7835, 7835, 1, - 59), (7841, 7935, 2, - 1),
      (7936, 7943, 1, 8), (7952, 7957, 1, 8), (7968, 7975, 1, 8), (7984, 7991, 1, 8),
      (8000, 8005, 1, 8), (8017, 8023, 2, 8), (8032, 8039, 1, 8), (8048, 8049, 1, 74),
      (8050, 8053, 1, 86), (8054, 8055, 1, 100)]),
    ((8056, 8179), [
      (8056, 8057, 1, 128), (8058, 8059, 1, 112), (8060, 8061, 1, 126), (8064, 8071, 1, 8),
      (8080, 8087, 1, 8), (8096, 8103, 1, 8), (8112, 8113, 1, 8), (8115, 8115, 1, 9),
      (8126, 8126, 1, - 7205), (8131, 8131, 1, 9), (8144, 8145, 1, 8), (8160, 8161, 1, 8),
      (8165, 8165, 1, 7), (8179, 8179, 1, 9)]),
    ((8526, 11507), [
      (8526, 8526, 1, - 28), (8560, 8575, 1, - 16), (8580, 8580, 1, - 1), (9424, 9449, 1, - 26),
      (11312, 11359, 1, - 48), (11361, 11361, 1, - 1), (11365, 11365, 1, - 10795),
      (11366, 11366, 1, - 10792), (11368, 11372, 2, - 1), (11379, 11379, 1, - 1),
      (11382, 11382, 1, - 1), (11393, 11491, 2, - 1), (11500, 11502, 2, - 1),
      (11507, 11507, 1, - 1)]),
    ((11520, 42947), [
      (11520, 11557, 1, - 7264), (11559, 11559, 1, - 7264), (11565, 11565, 1, - 7264),
      (42561, 42605, 2, - 1), (42625, 42651, 2, - 1), (42787, 42799, 2, - 1),
      (42803, 42863, 2, - 1), (42874, 42876, 2, - 1), (42879, 42887, 2, - 1),
      (42892, 42892, 1, - 1), (42897, 42899, 2, - 1), (42900, 42900, 1, 48),
      (42903, 42921, 2, - 1), (42933, 42947, 2, - 1)]),
    ((42952, 68850), [
      (42952, 42954, 2, - 1), (42961, 42961, 1, - 1), (42967, 42969, 2, - 1),
      (42998, 42998, 1, - 1), (43859, 43859, 1, - 928), (43888, 43967, 1, - 38864),
      (65345, 65370, 1, - 32), (66600, 66639, 1, - 40), (66776, 66811, 1, - 40),
      (66967, 66977, 1, - 39), (66979, 66993, 1, - 39), (66995, 67001, 1, - 39),
      (67003, 67004, 1, - 39), (68800, 68850, 1, - 64)]),
    ((71872, 125251), [
      (71872, 71903, 1, - 32), (93792, 93823, 1, - 32), (125218, 125251, 1, - 34)])]"

definition lower_table :: case_table where
  "lower_table = [
    ((192, 394), [
      (192, 214, 1, 32), (216, 222, 1, 32), (256, 302, 2, 1), (304, 304, 1, - 199),
      (306, 310, 2, 1), (313, 327, 2, 1), (330, 374, 2, 1), (376, 376, 1, - 121),
      (377, 381, 2, 1), (385, 385, 1, 210), (386, 388, 2, 1), (390, 390, 1, 206),
      (391, 391, 1, 1), (393, 394, 1, 205)]),
    ((395, 420), [
      (395, 395, 1, 1), (398, 398, 1, 79), (399, 399, 1, 202), (400, 400, 1, 203),
      (401, 401, 1, 1), (403, 403, 1, 205), (404, 404, 1, 207), (406, 406, 1, 211),
      (407, 407, 1, 209), (408, 408, 1, 1), (412, 412, 1, 211), (413, 413, 1, 213),
      (415, 415, 1, 214), (416, 420, 2, 1)]),
    ((422, 455), [
      (422, 422, 1, 218), (423, 423, 1, 1), (425, 425, 1, 218), (428, 428, 1, 1),
      (430, 430, 1, 218), (431, 431, 1, 1), (433, 434, 1, 217), (435, 437, 2, 1),
      (439, 439, 1, 219), (440, 440, 1, 1), (444, 444, 1, 1), (452, 452, 1, 2), (453, 453, 1, 1),
      (455, 455, 1, 2)]),
    ((456, 573), [
      (456, 456, 1, 1), (458, 458, 1, 2), (459, 475, 2, 1), (478, 494, 2, 1), (497, 497, 1, 2),
      (498, 500, 2, 1), (502, 502, 1, - 97), (503, 503, 1, - 56), (504, 542, 2, 1),
      (544, 544, 1, - 130), (546, 562, 2, 1), (570, 570, 1, 10795), (571, 571, 1, 1),
      (573, 573, 1, - 163)]),
    ((574, 929), [
      (574, 574, 1, 10792), (577, 577, 1, 1), (579, 579, 1, - 195), (580, 580, 1, 69),
      (581, 581, 1, 71), (582, 590, 2, 1), (880, 882, 2, 1), (886, 886, 1, 1), (895, 895, 1, 116),
      (902, 902, 1, 38), (904, 906, 1, 37), (908, 908, 1, 64), (910, 911, 1, 63),
      (913, 929, 1, 32)]),
    ((931, 1229), [
      (931, 939, 1, 32), (975, 975, 1, 8), (984, 1006, 2, 1), (1012, 1012, 1, - 60),
      (1015, 1015, 1, 1), (1017, 1017, 1, - 7), (1018, 1018, 1, 1), (1021, 1023, 1, - 130),
      (1024, 1039, 1, 80), (1040, 1071, 1, 32), (1120, 1152, 2, 1), (1162, 1214, 2, 1),
      (1216, 1216, 1, 15), (1217, 1229, 2, 1)]),
    ((1232, 7965), [
      (1232, 1326, 2, 1), (1329, 1366, 1, 48), (4256, 4293, 1, 7264), (4295, 4295, 1, 7264),
      (4301, 4301, 1, 7264), (5024, 5103, 1, 38864), (5104, 5109, 1, 8), (7312, 7354, 1, - 3008),
      (7357, 7359, 1, - 3008), (7680, 7828, 2, 1), (7838, 7838, 1, - 7615), (7840, 7934, 2, 1),
      (7944, 7951, 1, - 8), (7960, 7965, 1, - 8)]),
    ((7976, 8153), [
      (7976, 7983, 1, - 8), (7992, 7999, 1, - 8), (8008, 8013, 1, - 8), (8025, 8031, 2, - 8),
      (8040, 8047, 1, - 8), (8072, 8079, 1, - 8), (8088, 8095, 1, - 8), (8104, 8111, 1, - 8),
      (8120, 8121, 1, - 8), (8122, 8123, 1, - 74), (8124, 8124, 1, - 9), (8136, 8139, 1, - 86),
      (8140, 8140, 1, - 9), (8152, 8153, 1, - 8)]),
    ((8154, 9423), [
      (8154, 8155, 1, - 100), (8168, 8169, 1, - 8), (8170, 8171, 1, - 112), (8172, 8172, 1, - 7),
      (8184, 8185, 1, - 128), (8186, 8187, 1, - 126), (8188, 8188, 1, - 9),
      (8486, 8486, 1, - 7517), (8490, 8490, 1, - 8383), (8491, 8491, 1, - 8262),
      (8498, 8498, 1, 28), (8544, 8559, 1, 16), (8579, 8579, 1, 1), (9398, 9423, 1, 26)]),
    ((11264, 11490), [
      (11264, 11311, 1, 48), (11360, 11360, 1, 1), (11362, 11362, 1, - 10743),
      (11363, 11363, 1, - 3814), (11364, 11364, 1, - 10727), (11367, 11371, 2, 1),
      (11373, 11373, 1, - 10780), (11374, 11374, 1, - 10749), (11375, 11375, 1, - 10783),
      (11376, 11376, 1, - 10782), (11378, 11378, 1, 1), (11381, 11381, 1, 1),
      (11390, 11391, 1, - 10815), (11392, 11490, 2, 1)]),
    ((11499, 42922), [
      (11499, 11501, 2, 1), (11506, 11506, 1, 1), (42560, 42604, 2, 1), (42624, 42650, 2, 1),
      (42786, 42798, 2, 1), (42802, 42862, 2, 1), (42873, 42875, 2, 1),
      (42877, 42877, 1, - 35332), (42878, 42886, 2, 1), (42891, 42891, 1, 1),
      (42893, 42893, 1, - 42280), (42896, 42898, 2, 1), (42902, 42920, 2, 1),
      (42922, 42922, 1, - 42308)]),
    ((42923, 42960), [
      (42923, 42923, 1, - 42319), (42924, 42924, 1, - 42315), (42925, 42925, 1, - 42305),
      (42926, 42926, 1, - 42308), (42928, 42928, 1, - 42258), (42929, 42929, 1, - 42282),
      (42930, 42930, 1, - 42261), (42931, 42931, 1, 928), (42932, 42946, 2, 1),
      (42948, 42948, 1, - 48), (42949, 42949, 1, - 42307), (42950, 42950, 1, - 35384),
      (42951, 42953, 2, 1), (42960, 42960, 1, 1)]),
    ((42966, 125217), [
      (42966, 42968, 2, 1), (42997, 42997, 1, 1), (65313, 65338, 1, 32), (66560, 66599, 1, 40),
      (66736, 66771, 1, 40), (66928, 66938, 1, 39), (66940, 66954, 1, 39), (66956, 66962, 1, 39),
      (66964, 66965, 1, 39), (68736, 68786, 1, 64), (71840, 71871, 1, 32), (93760, 93791, 1, 32),
      (125184, 125217, 1, 34)])]"

definition to_upper_rune :: "rune \<Rightarrow> rune" where
  "to_upper_rune r =
     (if r < 128 then (if 97 \<le> r \<and> r \<le> 122 then r - 32 else r) else table_lookup upper_table r)"

definition to_lower_rune :: "rune \<Rightarrow> rune" where
  "to_lower_rune r =
     (if r < 128 then (if 65 \<le> r \<and> r \<le> 90 then r + 32 else r) else table_lookup lower_table r)"

definition space_ranges :: "(int \<times> int) list" where
  "space_ranges =
     [(9, 13), (32, 32), (133, 133), (160, 160), (5760, 5760), (8192, 8202), (8232, 8233),
      (8239, 8239), (8287, 8287), (12288, 12288)]"

definition in_ranges :: "(int \<times> int) list \<Rightarrow> rune \<Rightarrow> bool" where
  "in_ranges rs r \<longleftrightarrow> list_ex (\<lambda>(a, b). a \<le> r \<and> r \<le> b) rs"

definition is_space :: "rune \<Rightarrow> bool" where
  "is_space r \<longleftrightarrow> in_ranges space_ranges r"

definition valid_rune :: "rune \<Rightarrow> bool" where
  "valid_rune r \<longleftrightarrow> 0 \<le> r \<and> r < 1114112 \<and> \<not> (55296 \<le> r \<and> r < 57344)"

text \<open>
  Facts about the table are checked range by range. \<open>image_apart\<close>: the image of the first
  range holds no rune that the second one moves; so upper-casing twice is upper-casing once.
  \<open>image_clear\<close>: the image of a range meets none of the given intervals.
\<close>

fun image_apart :: "case_range \<Rightarrow> case_range \<Rightarrow> bool" where
  "image_apart (a, b, s, d) (a', b', s', d') \<longleftrightarrow>
     b + d < a' \<or> b' < a + d \<or> (s' = 2 \<and> (s = 2 \<or> a = b) \<and> (a + d - a') mod 2 = 1)"

fun table_apart :: "case_table \<Rightarrow> case_range \<Rightarrow> bool" where
  "table_apart T (a, b, s, d) \<longleftrightarrow>
     list_all (\<lambda>((lo, hi), c). b + d < lo \<or> hi < a + d \<or> list_all (image_apart (a, b, s, d)) c) T"

fun image_clear :: "(int \<times> int) list \<Rightarrow> case_range \<Rightarrow> bool" where
  "image_clear rs (a, b, s, d) \<longleftrightarrow> list_all (\<lambda>(x, y). b + d < x \<or> y < a + d) rs"

fun source_clear :: "(int \<times> int) list \<Rightarrow> case_range \<Rightarrow> bool" where
  "source_clear rs (a, b, s, d) \<longleftrightarrow> list_all (\<lambda>(x, y). b < x \<or> y < a) rs"

definition table_all :: "(case_range \<Rightarrow> bool) \<Rightarrow> case_table \<Rightarrow> bool" where
  "table_all P T \<longleftrightarrow> list_all (\<lambda>(_, c). list_all P c) T"

text \<open>What no upper-case rune is: white space, \<^verbatim>\<open>-\<close>, \<^verbatim>\<open>.\<close>, a lower-case
  ASCII letter, a surrogate or out of range.\<close>

definition avoided_ranges :: "(int \<times> int) list" where
  "avoided_ranges = [(45, 46), (97, 122), (55296, 57343)] @ space_ranges"

lemma upper_table_apart: "table_all (table_apart upper_table) upper_table"
  by code_simp

lemma upper_table_image_clear: "table_all (image_clear avoided_ranges) upper_table"
  by code_simp

lemma upper_table_source_clear: "table_all (source_clear avoided_ranges) upper_table"
  by code_simp

lemma upper_table_shape:
  "table_all (\<lambda>(a, b, s, d). 128 \<le> a \<and> 0 \<le> a + d \<and> b + d < 1114112 \<and> b < 1114112
     \<and> (s = 1 \<or> s = 2)) upper_table"
  by code_simp

lemma case_lookup_moves:
  "case_lookup c r = r \<or> (\<exists>e\<in>set c. moves e r \<and> case_lookup c r = r + delta e)"
  by (induction c r rule: case_lookup.induct) auto

lemma table_lookup_moves:
  "table_lookup T r = r \<or>
   (\<exists>(k, c)\<in>set T. \<exists>e\<in>set c. moves e r \<and> table_lookup T r = r + delta e)"
proof (induction T r rule: table_lookup.induct)
  case (2 lo hi c cs r)
  then show ?case using case_lookup_moves [of c r] by (cases "lo \<le> r \<and> r \<le> hi") (simp_all, blast+)
qed simp

lemma table_allD: "table_all P T \<Longrightarrow> (k, c) \<in> set T \<Longrightarrow> e \<in> set c \<Longrightarrow> P e"
  by (auto simp: table_all_def list_all_iff)

definition upper_entry :: "case_range \<Rightarrow> bool" where
  "upper_entry e \<longleftrightarrow> (\<exists>(k, c)\<in>set upper_table. e \<in> set c)"

lemma upper_entryD: "table_all P upper_table \<Longrightarrow> upper_entry e \<Longrightarrow> P e"
  by (auto simp: upper_entry_def dest: table_allD)

lemma to_upper_rune_cases:
  obtains (ascii) "97 \<le> r" "r \<le> 122" "to_upper_rune r = r - 32"
  | (same) "to_upper_rune r = r"
  | (moved) e where "upper_entry e" "128 \<le> r" "moves e r" "to_upper_rune r = r + delta e"
proof (cases "r < 128")
  case True
  then show ?thesis
    by (cases "97 \<le> r \<and> r \<le> 122") (auto intro: ascii same simp: to_upper_rune_def)
next
  case False
  then have eq: "to_upper_rune r = table_lookup upper_table r" by (simp add: to_upper_rune_def)
  consider "table_lookup upper_table r = r"
    | k c e where "(k, c) \<in> set upper_table" "e \<in> set c" "moves e r"
        "table_lookup upper_table r = r + delta e"
    using table_lookup_moves [of upper_table r] by blast
  then show ?thesis
  proof cases
    case 1
    with eq show ?thesis by (intro same) simp
  next
    case (2 k c e)
    then have "upper_entry e" unfolding upper_entry_def by blast
    then show ?thesis using 2 False eq by (intro moved [of e]) auto
  qed
qed

lemma image_apart_lookup:
  assumes "list_all (image_apart (a, b, s, d)) c" "moves (a, b, s, d) r" "s = 1 \<or> s = 2"
  shows "case_lookup c (r + d) = r + d"
  using assms(1)
proof (induction c)
  case Nil
  then show ?case by simp
next
  case (Cons e c)
  obtain a' b' s' d' where e: "e = (a', b', s', d')" by (cases e)
  have "\<not> moves e (r + d)"
  proof
    assume h: "moves e (r + d)"
    with Cons.prems assms(2) have p: "s' = 2" "s = 2 \<or> a = b" "(a + d - a') mod 2 = 1"
      by (auto simp: e)
    from p(2) assms(2) have "(r - a) mod 2 = 0" by auto
    with p h show False unfolding e moves.simps by presburger
  qed
  with Cons show ?case by simp
qed

lemma table_apart_lookup:
  assumes "table_apart T (a, b, s, d)" "moves (a, b, s, d) r" "s = 1 \<or> s = 2"
  shows "table_lookup T (r + d) = r + d"
  using assms(1)
proof (induction T)
  case (Cons x T)
  obtain lo hi c where x: "x = ((lo, hi), c)" by (metis surj_pair)
  have "lo \<le> r + d \<and> r + d \<le> hi \<Longrightarrow> list_all (image_apart (a, b, s, d)) c"
    using Cons.prems assms(2) by (auto simp: x)
  with Cons image_apart_lookup [OF _ assms(2,3), of c] show ?case by (auto simp: x)
qed simp

lemma upper_entry_shape:
  assumes "upper_entry (a, b, s, d)"
  shows "128 \<le> a" "0 \<le> a + d" "b + d < 1114112" "b < 1114112" "s = 1 \<or> s = 2"
  using upper_entryD [OF upper_table_shape assms] by auto

text \<open>Upper-casing twice is upper-casing once.\<close>

lemma to_upper_rune_idem [simp]: "to_upper_rune (to_upper_rune r) = to_upper_rune r"
proof (cases r rule: to_upper_rune_cases)
  case (moved e)
  obtain a b s d where e: "e = (a, b, s, d)" by (cases e)
  note en = moved(1) [unfolded e] and mv = moved(3) [unfolded e]
  have "table_lookup upper_table (r + d) = r + d"
    using table_apart_lookup [OF upper_entryD [OF upper_table_apart en] mv upper_entry_shape(5) [OF en]] .
  moreover have "\<not> (97 \<le> r + d \<and> r + d \<le> 122)"
    using upper_entryD [OF upper_table_image_clear en] mv by (auto simp: avoided_ranges_def)
  ultimately have "to_upper_rune (r + d) = r + d" by (simp add: to_upper_rune_def)
  then show ?thesis by (simp add: moved(4) e)
qed (auto simp: to_upper_rune_def)

text \<open>Upper-casing neither makes nor removes white space, \<^verbatim>\<open>-\<close> and \<^verbatim>\<open>.\<close>,
  and maps code points to code points.\<close>

lemma clear_not_in:
  assumes "list_all (\<lambda>(x, y). b < x \<or> y < a) rs" "a \<le> r" "r \<le> b"
  shows "\<not> in_ranges rs r"
  using assms by (auto simp: in_ranges_def list_all_iff list_ex_iff)

lemma to_upper_rune_avoided:
  assumes "set rs \<subseteq> set avoided_ranges" "list_all (\<lambda>(x, y). y < 65 \<or> 122 < x) rs"
  shows "in_ranges rs (to_upper_rune r) \<longleftrightarrow> in_ranges rs r"
proof (cases r rule: to_upper_rune_cases)
  case ascii
  have "\<not> in_ranges rs r" "\<not> in_ranges rs (r - 32)"
    using ascii(1,2) assms(2) by (auto simp: in_ranges_def list_ex_iff list_all_iff)
  with ascii show ?thesis by simp
next
  case (moved e)
  obtain a b s d where e: "e = (a, b, s, d)" by (cases e)
  have "image_clear avoided_ranges (a, b, s, d)" "source_clear avoided_ranges (a, b, s, d)"
    using upper_entryD [OF upper_table_image_clear moved(1)]
      upper_entryD [OF upper_table_source_clear moved(1)] by (simp_all add: e)
  with assms(1) have "list_all (\<lambda>(x, y). b + d < x \<or> y < a + d) rs" "list_all (\<lambda>(x, y). b < x \<or> y < a) rs"
    by (auto simp: list_all_iff)
  then have "\<not> in_ranges rs (r + d)" "\<not> in_ranges rs r"
    using moved(3) clear_not_in [of "b + d" "a + d" rs "r + d"] clear_not_in [of b a rs r]
    by (auto simp: e)
  with moved show ?thesis by (simp add: e)
qed simp

lemma is_space_to_upper [simp]: "is_space (to_upper_rune r) \<longleftrightarrow> is_space r"
  unfolding is_space_def
  by (rule to_upper_rune_avoided) (auto simp: avoided_ranges_def space_ranges_def)

lemma dash_to_upper [simp]: "to_upper_rune r = 45 \<or> to_upper_rune r = 46 \<longleftrightarrow> r = 45 \<or> r = 46"
proof -
  have "in_ranges [(45, 46)] x \<longleftrightarrow> x = 45 \<or> x = 46" for x by (auto simp: in_ranges_def)
  then show ?thesis
    using to_upper_rune_avoided [of "[(45, 46)]" r] by (simp add: avoided_ranges_def)
qed

lemma valid_to_upper [simp]:
  assumes "valid_rune r"
  shows "valid_rune (to_upper_rune r)"
proof (cases r rule: to_upper_rune_cases)
  case (moved e)
  obtain a b s d where e: "e = (a, b, s, d)" by (cases e)
  have "image_clear avoided_ranges (a, b, s, d)"
    using upper_entryD [OF upper_table_image_clear moved(1)] by (simp add: e)
  then have "b + d < 55296 \<or> 57343 < a + d" by (simp add: avoided_ranges_def)
  with upper_entry_shape [of a b s d] moved show ?thesis by (auto simp: valid_rune_def e)
qed (use assms in \<open>auto simp: valid_rune_def\<close>)

end
