(* ===== verification/GoStrings.thy ===== *)
theory GoStrings
  imports GoUnicode
begin

text \<open>
  UTF-8 and the functions of Go's \<^verbatim>\<open>strings\<close> package over byte strings. A byte string is
  read as a list of segments, each a rune with the bytes it was decoded from; an invalid byte is a
  segment of one byte with the rune \<^verbatim>\<open>U+FFFD\<close>.
\<close>

section \<open>UTF-8\<close>

definition rune_error :: rune where
  "rune_error = 65533"

definition byte_val :: "char \<Rightarrow> int" where
  "byte_val c = of_char c"

definition cont :: "int \<Rightarrow> bool" where
  "cont b \<longleftrightarrow> 128 \<le> b \<and> b \<le> 191"

text \<open>The well-formed sequences of two, three and four bytes, and the runes they denote.\<close>

definition seq2 :: "int \<Rightarrow> int \<Rightarrow> bool" where
  "seq2 a b \<longleftrightarrow> 194 \<le> a \<and> a \<le> 223 \<and> cont b"

definition seq3 :: "int \<Rightarrow> int \<Rightarrow> int \<Rightarrow> bool" where
  "seq3 a b c \<longleftrightarrow> 224 \<le> a \<and> a \<le> 239 \<and> (if a = 224 then 160 else 128) \<le> b \<and>
     b \<le> (if a = 237 then 159 else 191) \<and> cont c"

definition seq4 :: "int \<Rightarrow> int \<Rightarrow> int \<Rightarrow> int \<Rightarrow> bool" where
  "seq4 a b c d \<longleftrightarrow> 240 \<le> a \<and> a \<le> 244 \<and> (if a = 240 then 144 else 128) \<le> b \<and>
     b \<le> (if a = 244 then 143 else 191) \<and> cont c \<and> cont d"

definition rune2 :: "int \<Rightarrow> int \<Rightarrow> rune" where
  "rune2 a b = (a - 192) * 64 + (b - 128)"

definition rune3 :: "int \<Rightarrow> int \<Rightarrow> int \<Rightarrow> rune" where
  "rune3 a b c = (a - 224) * 4096 + (b - 128) * 64 + (c - 128)"

definition rune4 :: "int \<Rightarrow> int \<Rightarrow> int \<Rightarrow> int \<Rightarrow> rune" where
  "rune4 a b c d = (a - 240) * 262144 + (b - 128) * 4096 + (c - 128) * 64 + (d - 128)"

text \<open>\<^verbatim>\<open>utf8.DecodeRune\<close>: the first rune of a non-empty string and its width.\<close>

definition decode_rune :: "bytes \<Rightarrow> rune \<times> nat" where
  "decode_rune s =
     (case map byte_val (take 4 s) of
        [] \<Rightarrow> (rune_error, 0)
      | [a] \<Rightarrow> if a < 128 then (a, 1) else (rune_error, 1)
      | [a, b] \<Rightarrow> if a < 128 then (a, 1) else if seq2 a b then (rune2 a b, 2) else (rune_error, 1)
      | [a, b, c] \<Rightarrow>
          if a < 128 then (a, 1) else if seq2 a b then (rune2 a b, 2)
          else if seq3 a b c then (rune3 a b c, 3) else (rune_error, 1)
      | a # b # c # d # _ \<Rightarrow>
          if a < 128 then (a, 1) else if seq2 a b then (rune2 a b, 2)
          else if seq3 a b c then (rune3 a b c, 3)
          else if seq4 a b c d then (rune4 a b c d, 4) else (rune_error, 1))"

text \<open>\<^verbatim>\<open>utf8.AppendRune\<close>.\<close>

definition encode_rune :: "rune \<Rightarrow> bytes" where
  "encode_rune r0 =
     (let r = (if valid_rune r0 then r0 else rune_error)
      in map char_of
        (if r < 128 then [r]
         else if r < 2048 then [192 + r div 64, 128 + r mod 64]
         else if r < 65536 then [224 + r div 4096, 128 + (r div 64) mod 64, 128 + r mod 64]
         else [240 + r div 262144, 128 + (r div 4096) mod 64, 128 + (r div 64) mod 64, 128 + r mod 64]))"

lemma byte_val_bounds: "0 \<le> byte_val c \<and> byte_val c < 256"
proof -
  have "byte_val c = int (of_char c)" unfolding byte_val_def by (cases c) simp
  with nat_of_char_less_256 [of c] show ?thesis by linarith
qed

lemma decode_rune_width: "s \<noteq> [] \<Longrightarrow> 0 < snd (decode_rune s)"
  by (simp add: decode_rune_def split: list.split)

text \<open>The width never runs past the end of the string.\<close>

lemma decode_rune_width_le: "snd (decode_rune s) \<le> length s"
proof -
  consider "s = []" | a where "s = [a]" | a b where "s = [a, b]" | a b c where "s = [a, b, c]"
    | a b c d r where "s = a # b # c # d # r"
    by (metis list.exhaust)
  then show ?thesis by cases (simp_all add: decode_rune_def)
qed

text \<open>The segments of a string, and its runes (a \<^verbatim>\<open>for range\<close> loop over it).\<close>

function segs :: "bytes \<Rightarrow> (rune \<times> bytes) list" where
  "segs s =
     (if s = [] then []
      else case decode_rune s of (r, n) \<Rightarrow> (r, take n s) # segs (drop n s))"
  by pat_completeness auto
termination
proof (relation "measure length", goal_cases)
  case (2 s r n)
  with decode_rune_width [of s] have "0 < n" "0 < length s" by (simp_all, metis snd_conv)
  then show ?case by simp
qed simp

declare segs.simps [simp del]

definition utf8_decode :: "bytes \<Rightarrow> rune list" where
  "utf8_decode s = map fst (segs s)"

definition utf8_encode :: "rune list \<Rightarrow> bytes" where
  "utf8_encode rs = concat (map encode_rune rs)"

lemma segs_Nil [simp]: "segs [] = []"
  by (simp add: segs.simps)

lemma concat_segs [simp]: "concat (map snd (segs s)) = s"
proof (induction s rule: segs.induct)
  case (1 s)
  then show ?case
    by (cases "s = []"; cases "decode_rune s") (simp_all add: segs.simps [of s])
qed

lemma segs_ascii [simp]:
  assumes "byte_val c < 128"
  shows "segs (c # s) = (byte_val c, [c]) # segs s"
proof -
  have "decode_rune (c # s) = (byte_val c, 1)"
    using assms by (simp add: decode_rune_def split: list.split)
  then show ?thesis by (simp add: segs.simps [of "c # s"])
qed

lemma utf8_decode_Nil [simp]: "utf8_decode [] = []"
  by (simp add: utf8_decode_def)

lemma utf8_encode_Nil [simp]: "utf8_encode [] = []"
  by (simp add: utf8_encode_def)

lemma utf8_encode_Cons [simp]: "utf8_encode (r # rs) = encode_rune r @ utf8_encode rs"
  by (simp add: utf8_encode_def)

lemma utf8_encode_append [simp]: "utf8_encode (rs @ ts) = utf8_encode rs @ utf8_encode ts"
  by (simp add: utf8_encode_def)

subsection \<open>Round trip\<close>

lemma byte_val_char_of [simp]: "0 \<le> i \<Longrightarrow> i < 256 \<Longrightarrow> byte_val (char_of i) = i"
  by (simp add: byte_val_def)

lemma encode_rune_lt_128: "0 \<le> r \<Longrightarrow> r < 128 \<Longrightarrow> encode_rune r = [char_of r]"
  by (simp add: encode_rune_def valid_rune_def)

lemma base64_digits: "r = (r div 4096) * 4096 + ((r div 64) mod 64) * 64 + r mod (64::int)"
proof -
  have "r div 4096 = r div 64 div 64" using zdiv_zmult2_eq [of 64 r 64] by simp
  with div_mult_mod_eq [of r 64] div_mult_mod_eq [of "r div 64" 64] show ?thesis by linarith
qed

lemma decode_two:
  assumes "128 \<le> r" "r < 2048"
  shows "decode_rune (encode_rune r @ s) = (r, length (encode_rune r))"
proof -
  define a b where "a = 192 + r div 64" and "b = 128 + r mod 64"
  have ab: "194 \<le> a" "a \<le> 223" "128 \<le> b" "b \<le> 191" "rune2 a b = r"
    using assms by (auto simp: a_def b_def rune2_def)
  have e: "encode_rune r = [char_of a, char_of b]"
    using assms by (simp add: encode_rune_def valid_rune_def a_def b_def)
  from ab have "seq2 a b" by (simp add: seq2_def cont_def)
  with ab show ?thesis by (simp add: e decode_rune_def split: list.split)
qed

lemma decode_three:
  assumes "2048 \<le> r" "r < 65536" "valid_rune r"
  shows "decode_rune (encode_rune r @ s) = (r, length (encode_rune r))"
proof -
  define a b c where "a = 224 + r div 4096" and "b = 128 + (r div 64) mod 64" and "c = 128 + r mod 64"
  have abc: "224 \<le> a" "a \<le> 239" "128 \<le> b" "b \<le> 191" "128 \<le> c" "c \<le> 191"
    using assms by (auto simp: a_def b_def c_def)
  have r: "rune3 a b c = r"
    using base64_digits [of r] by (simp add: a_def b_def c_def rune3_def)
  with assms abc have "a = 224 \<Longrightarrow> 160 \<le> b" "a = 237 \<Longrightarrow> b \<le> 159"
    by (auto simp: valid_rune_def rune3_def)
  with abc have "seq3 a b c" "\<not> seq2 a b" by (auto simp: seq2_def seq3_def cont_def)
  moreover have e: "encode_rune r = [char_of a, char_of b, char_of c]"
    using assms by (simp add: encode_rune_def a_def b_def c_def)
  ultimately show ?thesis using abc r by (simp add: e decode_rune_def split: list.split)
qed

lemma decode_four:
  assumes "65536 \<le> r" "valid_rune r"
  shows "decode_rune (encode_rune r @ s) = (r, length (encode_rune r))"
proof -
  define a b c d where "a = 240 + r div 262144" and "b = 128 + (r div 4096) mod 64"
    and "c = 128 + (r div 64) mod 64" and "d = 128 + r mod 64"
  have lt: "r < 1114112" using assms(2) by (simp add: valid_rune_def)
  have abcd: "240 \<le> a" "a \<le> 244" "128 \<le> b" "b \<le> 191" "128 \<le> c" "c \<le> 191" "128 \<le> d" "d \<le> 191"
    using assms(1) lt by (auto simp: a_def b_def c_def d_def)
  have hi: "r div 4096 = (a - 240) * 64 + (b - 128)"
    using zdiv_zmult2_eq [of 64 r 4096] div_mult_mod_eq [of "r div 4096" 64] zdiv_zmult2_eq [of 64 r 4096]
    by (simp add: a_def b_def zdiv_zmult2_eq [of 64 r 4096, simplified])
  then have r: "rune4 a b c d = r"
    using base64_digits [of r] by (simp add: c_def d_def rune4_def)
  have "16 \<le> r div 4096" "r div 4096 < 272" using assms(1) lt by simp_all
  with hi abcd have "a = 240 \<Longrightarrow> 144 \<le> b" "a = 244 \<Longrightarrow> b \<le> 143" by simp_all
  with abcd have "seq4 a b c d" "\<not> seq2 a b" "\<not> seq3 a b c"
    unfolding seq2_def seq3_def seq4_def cont_def by simp_all
  moreover have e: "encode_rune r = [char_of a, char_of b, char_of c, char_of d]"
    using assms by (simp add: encode_rune_def a_def b_def c_def d_def)
  ultimately show ?thesis using abcd r by (simp add: e decode_rune_def)
qed

lemma decode_encode_rune:
  assumes "valid_rune r"
  shows "decode_rune (encode_rune r @ s) = (r, length (encode_rune r))"
proof -
  consider "0 \<le> r" "r < 128" | "128 \<le> r" "r < 2048" | "2048 \<le> r" "r < 65536" | "65536 \<le> r"
    using assms unfolding valid_rune_def by linarith
  then show ?thesis
  proof cases
    case 1
    then show ?thesis by (simp add: encode_rune_lt_128 decode_rune_def split: list.split)
  qed (use assms decode_two decode_three decode_four in blast)+
qed

lemma encode_rune_not_Nil [simp]: "encode_rune r \<noteq> []"
  by (simp add: encode_rune_def Let_def)

lemma segs_encode_Cons [simp]:
  "valid_rune r \<Longrightarrow> segs (encode_rune r @ s) = (r, encode_rune r) # segs s"
  by (subst segs.simps) (simp add: decode_encode_rune)

lemma segs_utf8_encode:
  "list_all valid_rune rs \<Longrightarrow> segs (utf8_encode rs) = map (\<lambda>r. (r, encode_rune r)) rs"
  by (induction rs) auto

text \<open>Every rune that decoding yields is a code point, and decoding undoes encoding.\<close>

lemma utf8_decode_encode [simp]: "list_all valid_rune rs \<Longrightarrow> utf8_decode (utf8_encode rs) = rs"
  by (simp add: utf8_decode_def segs_utf8_encode comp_def)

lemma valid_rune2: "seq2 a b \<Longrightarrow> valid_rune (rune2 a b)"
  by (simp add: valid_rune_def cont_def seq2_def rune2_def)

lemma valid_rune3:
  assumes "seq3 a b c"
  shows "valid_rune (rune3 a b c)"
proof -
  consider "a = 224" | "225 \<le> a" "a \<le> 236" | "a = 237" | "238 \<le> a"
    using assms by (force simp: seq3_def)
  then show ?thesis
    using assms by cases (simp_all add: valid_rune_def cont_def seq3_def rune3_def)
qed

lemma valid_rune4:
  assumes "seq4 a b c d"
  shows "valid_rune (rune4 a b c d)"
proof -
  consider "a = 240" | "241 \<le> a" "a \<le> 243" | "a = 244"
    using assms by (force simp: seq4_def)
  then show ?thesis
    using assms by cases (simp_all add: valid_rune_def cont_def seq4_def rune4_def)
qed

lemma valid_rune_error [simp]: "valid_rune rune_error"
  by (simp add: valid_rune_def rune_error_def)

lemma valid_rune_byte: "byte_val c < 128 \<Longrightarrow> valid_rune (byte_val c)"
  using byte_val_bounds [of c] by (simp add: valid_rune_def)

lemma valid_decode_rune: "valid_rune (fst (decode_rune s))"
proof -
  consider "s = []" | a where "s = [a]" | a b where "s = [a, b]" | a b c where "s = [a, b, c]"
    | a b c d r where "s = a # b # c # d # r"
    by (metis list.exhaust)
  then show ?thesis
    by cases (simp_all add: decode_rune_def valid_rune_byte valid_rune2 valid_rune3 valid_rune4)
qed

lemma valid_utf8_decode [simp]: "list_all valid_rune (utf8_decode s)"
proof (induction s rule: segs.induct)
  case (1 s)
  then show ?case
    using valid_decode_rune [of s]
    by (cases "s = []"; cases "decode_rune s") (simp_all add: segs.simps [of s] utf8_decode_def)
qed

section \<open>The strings package\<close>

definition str_to_upper :: "bytes \<Rightarrow> bytes" where
  "str_to_upper s = utf8_encode (map to_upper_rune (utf8_decode s))"

definition str_to_lower :: "bytes \<Rightarrow> bytes" where
  "str_to_lower s = utf8_encode (map to_lower_rune (utf8_decode s))"

definition trim_list :: "('a \<Rightarrow> bool) \<Rightarrow> 'a list \<Rightarrow> 'a list" where
  "trim_list P xs = rev (dropWhile P (rev (dropWhile P xs)))"

definition trim_space :: "bytes \<Rightarrow> bytes" where
  "trim_space s = concat (map snd (trim_list (is_space \<circ> fst) (segs s)))"

text \<open>The maximal runs of elements outside \<open>P\<close>.\<close>

fun split_fields :: "('a \<Rightarrow> bool) \<Rightarrow> 'a list \<Rightarrow> 'a list list" where
  "split_fields P [] = []"
| "split_fields P [x] = (if P x then [] else [[x]])"
| "split_fields P (x # y # xs) =
     (if P x then split_fields P (y # xs)
      else if P y then [x] # split_fields P (y # xs)
      else case split_fields P (y # xs) of [] \<Rightarrow> [[x]] | w # ws \<Rightarrow> (x # w) # ws)"

definition str_fields :: "bytes \<Rightarrow> bytes list" where
  "str_fields s = map (concat \<circ> map snd) (split_fields (is_space \<circ> fst) (segs s))"

fun str_join :: "'a list \<Rightarrow> 'a list list \<Rightarrow> 'a list" where
  "str_join sep [] = []"
| "str_join sep [w] = w"
| "str_join sep (w # ws) = w @ sep @ str_join sep ws"

definition has_prefix :: "bytes \<Rightarrow> bytes \<Rightarrow> bool" where
  "has_prefix s p \<longleftrightarrow> take (length p) s = p"

definition trim_prefix :: "bytes \<Rightarrow> bytes \<Rightarrow> bytes" where
  "trim_prefix s p = (if has_prefix s p then drop (length p) s else s)"

definition has_suffix :: "bytes \<Rightarrow> bytes \<Rightarrow> bool" where
  "has_suffix s p \<longleftrightarrow> length p \<le> length s \<and> drop (length s - length p) s = p"

text \<open>\<^verbatim>\<open>strings.IndexByte\<close>, with \<open>None\<close> for \<^verbatim>\<open>-1\<close>.\<close>

fun index_byte :: "bytes \<Rightarrow> char \<Rightarrow> nat option" where
  "index_byte [] c = None"
| "index_byte (x # xs) c = (if x = c then Some 0 else map_option Suc (index_byte xs c))"

lemma has_prefix_append [simp]: "has_prefix (p @ s) p"
  by (simp add: has_prefix_def)

lemma has_prefixE: "has_prefix s p \<Longrightarrow> (\<And>t. s = p @ t \<Longrightarrow> Q) \<Longrightarrow> Q"
  unfolding has_prefix_def by (metis append_take_drop_id)

lemma has_suffix_append [simp]: "has_suffix (s @ p) p"
  by (simp add: has_suffix_def)

lemma has_suffix_iff: "has_suffix s p \<longleftrightarrow> (\<exists>t. s = t @ p)"
proof
  assume "has_suffix s p"
  then show "\<exists>t. s = t @ p" unfolding has_suffix_def by (metis append_take_drop_id)
qed auto

lemma index_byte_append [simp]:
  "c \<notin> set s \<Longrightarrow> index_byte (s @ c # t) c = Some (length s)"
  by (induction s) auto

subsection \<open>Trimming\<close>

lemma trim_list_Nil [simp]: "trim_list P [] = []"
  by (simp add: trim_list_def)

lemma trim_list_eq_Nil: "trim_list P xs = [] \<longleftrightarrow> list_all P xs"
proof -
  have "trim_list P xs = [] \<longleftrightarrow> (\<forall>x\<in>set (dropWhile P xs). P x)"
    by (simp add: trim_list_def dropWhile_eq_Nil_conv)
  also have "\<dots> \<longleftrightarrow> dropWhile P xs = []"
    by (metis dropWhile_eq_Nil_conv dropWhile_idem)
  finally show ?thesis by (simp add: dropWhile_eq_Nil_conv list_all_iff)
qed

lemma segs_snd_not_Nil: "x \<in> set (segs s) \<Longrightarrow> snd x \<noteq> []"
proof (induction s rule: segs.induct)
  case (1 s)
  then show ?case
    using decode_rune_width [of s]
    by (cases "s = []"; cases "decode_rune s") (auto simp: segs.simps [of s])
qed

lemma set_trim_list: "set (trim_list P xs) \<subseteq> set xs"
  unfolding trim_list_def by (auto dest!: set_dropWhileD)

text \<open>A string trims to nothing exactly when every rune of it is white space.\<close>

lemma trim_space_eq_Nil: "trim_space s = [] \<longleftrightarrow> list_all is_space (utf8_decode s)"
proof -
  have "trim_space s = [] \<longleftrightarrow> trim_list (is_space \<circ> fst) (segs s) = []"
  proof
    assume "trim_space s = []"
    then have "\<forall>x\<in>set (trim_list (is_space \<circ> fst) (segs s)). snd x = []"
      by (auto simp: trim_space_def)
    then show "trim_list (is_space \<circ> fst) (segs s) = []"
      using segs_snd_not_Nil set_trim_list by (metis list.set_intros(1) neq_Nil_conv subsetD)
  qed (simp add: trim_space_def)
  then show ?thesis
    by (simp add: trim_list_eq_Nil utf8_decode_def list_all_iff)
qed

lemma trim_list_none: "list_all (Not \<circ> P) xs \<Longrightarrow> trim_list P xs = xs"
proof -
  have *: "list_all (Not \<circ> P) ys \<Longrightarrow> dropWhile P ys = ys" for ys by (cases ys) auto
  assume "list_all (Not \<circ> P) xs"
  moreover from this have "list_all (Not \<circ> P) (rev xs)" by (simp add: list_all_iff)
  ultimately show ?thesis by (simp add: trim_list_def *)
qed

text \<open>ASCII strings are their own runes.\<close>

definition ascii :: "bytes \<Rightarrow> bool" where
  "ascii s \<longleftrightarrow> list_all (\<lambda>c. byte_val c < 128) s"

lemma segs_ascii_string: "ascii s \<Longrightarrow> segs s = map (\<lambda>c. (byte_val c, [c])) s"
  by (induction s) (auto simp: ascii_def)

lemma utf8_decode_ascii: "ascii s \<Longrightarrow> utf8_decode s = map byte_val s"
  by (simp add: utf8_decode_def segs_ascii_string comp_def)

lemma trim_space_ascii_none:
  assumes "ascii s" "list_all (\<lambda>c. \<not> is_space (byte_val c)) s"
  shows "trim_space s = s"
proof -
  have "list_all (Not \<circ> (is_space \<circ> fst)) (segs s)"
    using assms by (simp add: segs_ascii_string list_all_iff)
  then show ?thesis by (simp add: trim_space_def trim_list_none)
qed

subsection \<open>Fields and join\<close>

lemma split_fields_run:
  assumes "P x"
  shows "w \<noteq> [] \<Longrightarrow> list_all (Not \<circ> P) w \<Longrightarrow>
    split_fields P (w @ x # xs) = w # split_fields P (x # xs)"
proof (induction w)
  case (Cons y w)
  with assms show ?case by (cases w) auto
qed simp

lemma split_fields_last:
  "w \<noteq> [] \<Longrightarrow> list_all (Not \<circ> P) w \<Longrightarrow> split_fields P w = [w]"
  by (induction P w rule: split_fields.induct) auto

lemma split_fields_skip: "P x \<Longrightarrow> split_fields P (x # xs) = split_fields P xs"
  by (cases xs) auto

lemma split_fields_words:
  "w \<in> set (split_fields P xs) \<Longrightarrow> w \<noteq> [] \<and> list_all (Not \<circ> P) w"
  by (induction P xs arbitrary: w rule: split_fields.induct) (auto split: if_splits list.splits)

lemma split_fields_elems: "w \<in> set (split_fields P xs) \<Longrightarrow> set w \<subseteq> set xs"
proof (induction P xs arbitrary: w rule: split_fields.induct)
  case (3 P x y xs)
  then show ?case
    by (cases "split_fields P (y # xs)") (auto split: if_splits, fastforce+)
qed (auto split: if_splits)

text \<open>Splitting undoes joining.\<close>

lemma split_fields_join:
  assumes "P sp" "\<forall>w\<in>set ws. w \<noteq> [] \<and> list_all (Not \<circ> P) w"
  shows "split_fields P (str_join [sp] ws) = ws"
  using assms(2)
proof (induction "[sp]" ws rule: str_join.induct)
  case (3 w v ws)
  then have "split_fields P (w @ sp # str_join [sp] (v # ws)) = w # split_fields P (sp # str_join [sp] (v # ws))"
    using assms(1) by (intro split_fields_run) auto
  with 3 assms(1) show ?case by (simp add: split_fields_skip)
qed (auto simp: split_fields_last)

lemma split_fields_map: "split_fields P (map f xs) = map (map f) (split_fields (P \<circ> f) xs)"
  by (induction "P \<circ> f" xs rule: split_fields.induct) (auto split: list.split)

lemma map_str_join: "map f (str_join sep ws) = str_join (map f sep) (map (map f) ws)"
  by (induction sep ws rule: str_join.induct) auto

lemma utf8_encode_join: "utf8_encode (str_join sep ws) = str_join (utf8_encode sep) (map utf8_encode ws)"
  by (induction sep ws rule: str_join.induct) auto

lemma set_str_join: "set (str_join sep ws) \<subseteq> set sep \<union> \<Union> (set ` set ws)"
  by (induction sep ws rule: str_join.induct) auto

lemma str_fields_encode:
  assumes "list_all valid_rune rs"
  shows "str_fields (utf8_encode rs) = map utf8_encode (split_fields is_space rs)"
  unfolding str_fields_def segs_utf8_encode [OF assms] split_fields_map
  by (simp add: comp_def utf8_encode_def)

end
