(* ===== verification/GoTime.thy ===== *)
theory GoTime
  imports GoStrings
begin

text \<open>
  What the gateway uses of Go's \<^verbatim>\<open>time\<close> package: instants, parsing with the layout
  \<^verbatim>\<open>RFC3339Nano\<close>, formatting in UTC with \<^verbatim>\<open>RFC3339\<close>, truncation and the day of
  an instant. An instant is the number of nanoseconds since 1970-01-01T00:00:00Z as an unbounded
  integer, so the years around 0 and 10000 that a zone offset can reach are instants too.
\<close>

type_synonym instant = int

definition nanosecond_second :: int where
  "nanosecond_second = 1000000000"

definition unix_sec :: "instant \<Rightarrow> int" where
  "unix_sec t = t div nanosecond_second"

section \<open>The proleptic Gregorian calendar\<close>

definition leap_year :: "int \<Rightarrow> bool" where
  "leap_year y \<longleftrightarrow> y mod 4 = 0 \<and> (y mod 100 \<noteq> 0 \<or> y mod 400 = 0)"

text \<open>Days from 0000-01-01 to the first day of a year.\<close>

definition days_before_year :: "int \<Rightarrow> int" where
  "days_before_year y = 365 * y + (y + 3) div 4 - (y + 99) div 100 + (y + 399) div 400"

text \<open>Days from the first day of a year to the first day of month \<open>m\<close> (1 to 13).\<close>

definition days_before_month :: "bool \<Rightarrow> int \<Rightarrow> int" where
  "days_before_month l m =
     [0, 31, 59, 90, 120, 151, 181, 212, 243, 273, 304, 334, 365] ! nat (m - 1)
       + (if l \<and> 2 < m then 1 else 0)"

definition days_in :: "int \<Rightarrow> int \<Rightarrow> int" where
  "days_in m y = days_before_month (leap_year y) (m + 1) - days_before_month (leap_year y) m"

definition epoch_days :: int where
  "epoch_days = 719528"

definition days_of_date :: "int \<Rightarrow> int \<Rightarrow> int \<Rightarrow> int" where
  "days_of_date y m d =
     days_before_year y + days_before_month (leap_year y) m + (d - 1) - epoch_days"

definition year_of_days :: "int \<Rightarrow> int" where
  "year_of_days n =
     (let y = (400 * n) div 146097
      in if n < days_before_year y then y - 1
         else if days_before_year (y + 1) \<le> n then y + 1 else y)"

definition month_of_day :: "bool \<Rightarrow> int \<Rightarrow> int" where
  "month_of_day l k = int (length (filter (\<lambda>m. days_before_month l m \<le> k) [1..12]))"

definition date_of_days :: "int \<Rightarrow> int \<times> int \<times> int" where
  "date_of_days n0 =
     (let n = n0 + epoch_days; y = year_of_days n; k = n - days_before_year y;
          m = month_of_day (leap_year y) k
      in (y, m, k - days_before_month (leap_year y) m + 1))"

lemma div_add_one:
  assumes "1 < (k :: int)"
  shows "(z + 1) div k = z div k + (if (z + 1) mod k = 0 then 1 else 0)"
proof (cases "z mod k = k - 1")
  case True
  then have "z + 1 = k * (z div k + 1) + 0"
    using mult_div_mod_eq [of k z] unfolding distrib_left by linarith
  then have "(z + 1) div k = z div k + 1" "(z + 1) mod k = 0"
    using assms int_div_pos_eq [of "z + 1" k "z div k + 1" 0] by auto
  then show ?thesis by simp
next
  case False
  then have r: "0 \<le> z mod k + 1" "z mod k + 1 < k"
    using assms pos_mod_bound [of k z] pos_mod_sign [of k z] by linarith+
  have "z + 1 = k * (z div k) + (z mod k + 1)" using mult_div_mod_eq [of k z] by simp
  then have "(z + 1) div k = z div k" "(z + 1) mod k = z mod k + 1"
    using int_div_pos_eq [OF _ r] int_mod_pos_eq [OF _ r] by blast+
  moreover have "z mod k + 1 \<noteq> 0" using assms pos_mod_sign [of k z] by linarith
  ultimately show ?thesis by simp
qed

lemma mod_add_self: "(y + k) mod k = y mod (k :: int)"
  by simp

lemma days_before_year_Suc:
  "days_before_year (y + 1) = days_before_year y + (if leap_year y then 366 else 365)"
proof -
  have 1: "(y + 1 + 3) div 4 = (y + 3) div 4 + (if y mod 4 = 0 then 1 else 0)"
    using div_add_one [of 4 "y + 3"] mod_add_self [of y 4] by (simp add: ac_simps)
  have 2: "(y + 1 + 99) div 100 = (y + 99) div 100 + (if y mod 100 = 0 then 1 else 0)"
    using div_add_one [of 100 "y + 99"] mod_add_self [of y 100] by (simp add: ac_simps)
  have 3: "(y + 1 + 399) div 400 = (y + 399) div 400 + (if y mod 400 = 0 then 1 else 0)"
    using div_add_one [of 400 "y + 399"] mod_add_self [of y 400] by (simp add: ac_simps)
  have "(4::int) dvd 100" "(100::int) dvd 400" by simp_all
  then have "y mod 100 = 0 \<Longrightarrow> y mod 4 = 0" "y mod 400 = 0 \<Longrightarrow> y mod 100 = 0"
    unfolding mod_eq_0_iff_dvd by (blast intro: dvd_trans)+
  moreover have "days_before_year (y + 1) = days_before_year y + 365 + (if y mod 4 = 0 then 1 else 0)
      - (if y mod 100 = 0 then 1 else 0) + (if y mod 400 = 0 then 1 else 0)"
  proof -
    have "365 * (y + 1) + (a + p) - (b + q) + (c + r) = 365 * y + a - b + c + 365 + p - q + r"
      for a b c p q r :: int by simp
    then show ?thesis unfolding days_before_year_def 1 2 3 .
  qed
  ultimately show ?thesis
    unfolding leap_year_def
    by (cases "y mod 4 = 0"; cases "y mod 100 = 0"; cases "y mod 400 = 0") (simp_all only: if_True if_False simp_thms)
qed

lemma days_before_year_less: "y < z \<Longrightarrow> days_before_year y < days_before_year z"
proof (induction z rule: int_gr_induct)
  case base
  then show ?case by (simp add: days_before_year_Suc)
next
  case (step z)
  then show ?case by (simp add: days_before_year_Suc)
qed

lemma days_before_year_le: "y \<le> z \<Longrightarrow> days_before_year y \<le> days_before_year z"
  using days_before_year_less [of y z] by (cases "y = z") auto

text \<open>The year of a day is the one whose days hold it.\<close>

lemma year_of_days_bounds:
  "days_before_year (year_of_days n) \<le> n \<and> n < days_before_year (year_of_days n + 1)"
proof -
  define y where "y = (400 * n) div 146097"
  have b: "146097 * y \<le> 400 * n" "400 * n < 146097 * y + 146097"
    unfolding y_def by simp_all
  have d: "x \<le> k * ((x + (k - 1)) div k) \<and> k * ((x + (k - 1)) div k) \<le> x + (k - 1)"
    if "0 < k" for x k :: int
    using that mult_div_mod_eq [of k "x + (k - 1)"] pos_mod_bound [of k "x + (k - 1)"]
      pos_mod_sign [of k "x + (k - 1)"] by linarith
  have bnd: "146097 * x - 400 \<le> 400 * days_before_year x \<and> 400 * days_before_year x \<le> 146097 * x + 700" for x
    using d [of 4 x] d [of 100 x] d [of 400 x] by (simp add: days_before_year_def)
  have "days_before_year (y - 1) \<le> n" "n < days_before_year (y + 2)"
    using bnd [of "y - 1"] bnd [of "y + 2"] b by (simp_all add: algebra_simps)
  moreover have "year_of_days n = (if n < days_before_year y then y - 1
      else if days_before_year (y + 1) \<le> n then y + 1 else y)"
    by (simp add: year_of_days_def y_def Let_def)
  ultimately show ?thesis by (auto simp: algebra_simps)
qed

lemma year_of_days_unique:
  assumes "days_before_year y \<le> n" "n < days_before_year (y + 1)"
  shows "year_of_days n = y"
proof (rule ccontr)
  assume "year_of_days n \<noteq> y"
  then consider "year_of_days n + 1 \<le> y" | "y + 1 \<le> year_of_days n" by linarith
  then show False
    using assms year_of_days_bounds [of n]
    by cases (metis days_before_year_le linorder_not_less order.trans)+
qed

lemma months_list: "[1..12] = [1, 2, 3, 4, 5, 6, 7, 8, 9, 10, 11, 12 :: int]"
  by (simp add: upto.simps)

lemma month_cases:
  assumes "1 \<le> (m :: int)" "m \<le> 12"
  shows "m \<in> {1, 2, 3, 4, 5, 6, 7, 8, 9, 10, 11, 12}"
  using assms unfolding insert_iff empty_iff by presburger

text \<open>A day of a month lies in that month.\<close>

lemma month_of_day_eq:
  assumes "1 \<le> m" "m \<le> 12" "days_before_month l m \<le> k" "k < days_before_month l (m + 1)"
  shows "month_of_day l k = m"
  using month_cases [OF assms(1,2)] assms(3,4)
  by (cases l) (auto simp: month_of_day_def months_list days_before_month_def)

lemma month_of_day_bounds:
  assumes "0 \<le> k" "k < (if l then 366 else 365)"
  defines "m \<equiv> month_of_day l k"
  shows "1 \<le> m \<and> m \<le> 12 \<and> days_before_month l m \<le> k \<and> k < days_before_month l (m + 1)"
proof -
  have ex: "\<exists>m\<in>{1, 2, 3, 4, 5, 6, 7, 8, 9, 10, 11, 12}. days_before_month l m \<le> k \<and> k < days_before_month l (m + 1)"
    using assms(1,2) by (cases l) (simp_all add: days_before_month_def, linarith+)
  then obtain m' where m': "m' \<in> {1, 2, 3, 4, 5, 6, 7, 8, 9, 10, 11, 12}"
    "days_before_month l m' \<le> k" "k < days_before_month l (m' + 1)" by blast
  then have "1 \<le> m'" "m' \<le> 12" by auto
  with m' month_of_day_eq [of m' l k] show ?thesis by (simp add: m_def)
qed

definition valid_date :: "int \<Rightarrow> int \<Rightarrow> int \<Rightarrow> bool" where
  "valid_date y m d \<longleftrightarrow> 1 \<le> m \<and> m \<le> 12 \<and> 1 \<le> d \<and> d \<le> days_in m y"

lemma days_before_month_range:
  assumes "1 \<le> m" "m \<le> 12"
  shows "0 \<le> days_before_month l m" "days_before_month l (m + 1) \<le> (if l then 366 else 365)"
  using month_cases [OF assms] by (cases l; auto simp: days_before_month_def)+

theorem date_of_days_of_date:
  assumes "valid_date y m d"
  shows "date_of_days (days_of_date y m d) = (y, m, d)"
proof -
  let ?l = "leap_year y" and ?n = "days_of_date y m d + epoch_days"
  have v: "1 \<le> m" "m \<le> 12" "1 \<le> d" "d \<le> days_in m y" using assms by (auto simp: valid_date_def)
  have n: "?n = days_before_year y + (days_before_month ?l m + (d - 1))"
    by (simp add: days_of_date_def)
  have k: "days_before_month ?l m \<le> days_before_month ?l m + (d - 1)"
    "days_before_month ?l m + (d - 1) < days_before_month ?l (m + 1)"
    using v by (simp_all add: days_in_def)
  have "year_of_days ?n = y"
    using n k days_before_month_range [OF v(1,2), of ?l]
    by (intro year_of_days_unique) (simp_all add: days_before_year_Suc)
  moreover have "month_of_day ?l (days_before_month ?l m + (d - 1)) = m"
    using month_of_day_eq [OF v(1,2) k] .
  ultimately show ?thesis by (simp add: date_of_days_def Let_def n)
qed

theorem days_of_date_of_days:
  assumes "date_of_days n = (y, m, d)"
  shows "days_of_date y m d = n \<and> valid_date y m d"
proof -
  let ?n = "n + epoch_days"
  let ?y = "year_of_days ?n"
  let ?k = "?n - days_before_year ?y" and ?l = "leap_year ?y"
  have "0 \<le> ?k" "?k < (if ?l then 366 else 365)"
    using year_of_days_bounds [of ?n] by (simp_all add: days_before_year_Suc split: if_splits)
  note mb = month_of_day_bounds [OF this]
  have e: "y = ?y" "m = month_of_day ?l ?k" "d = ?k - days_before_month ?l m + 1"
    using assms by (auto simp: date_of_days_def Let_def)
  with mb show ?thesis by (auto simp: days_of_date_def valid_date_def days_in_def)
qed

section \<open>Parsing RFC 3339\<close>

text \<open>
  \<^verbatim>\<open>time.Parse(time.RFC3339Nano, s)\<close>, the layout
  \<^verbatim>\<open>2006-01-02T15:04:05.999999999Z07:00\<close>, with the latitude of Go's parser: one digit
  is enough for the hour, a fraction follows \<^verbatim>\<open>.\<close> or \<^verbatim>\<open>,\<close> and keeps its first nine
  digits, an offset hour goes up to 24 and an offset minute up to 60. \<open>None\<close> is a parse error.
  \<open>get_num\<close> is \<^verbatim>\<open>getnum(s, fixed)\<close>.
\<close>

type_synonym 'a reader = "bytes \<Rightarrow> ('a \<times> bytes) option"

definition get_num :: "bool \<Rightarrow> int reader" where
  "get_num fixed s =
     (case s of
        [] \<Rightarrow> None
      | c # s' \<Rightarrow>
          if \<not> is_digit c then None
          else (case s' of
                  d # s'' \<Rightarrow>
                    if is_digit d then Some (int (10 * digit_val c + digit_val d), s'')
                    else if fixed then None else Some (int (digit_val c), s')
                | [] \<Rightarrow> if fixed then None else Some (int (digit_val c), s')))"

definition skip_char :: "char \<Rightarrow> unit reader" where
  "skip_char c s = (case s of [] \<Rightarrow> None | x # s' \<Rightarrow> if x = c then Some ((), s') else None)"

definition get_year :: "int reader" where
  "get_year s =
     (if 4 \<le> length s \<and> list_all is_digit (take 4 s)
      then Some (int (digits_val (take 4 s)), drop 4 s) else None)"

text \<open>The nanoseconds of an optional fraction.\<close>

definition get_fraction :: "bytes \<Rightarrow> int \<times> bytes" where
  "get_fraction s =
     (case s of
        p # c # _ \<Rightarrow>
          if (p = CHR ''.'' \<or> p = CHR '','') \<and> is_digit c
          then (let ds = take 9 (takeWhile is_digit (tl s))
                in (int (digits_val ds) * 10 ^ (9 - length ds), dropWhile is_digit (tl s)))
          else (0, s)
      | _ \<Rightarrow> (0, s))"

text \<open>The zone offset in seconds east of UTC.\<close>

definition get_zone :: "int reader" where
  "get_zone s =
     (case s of
        [] \<Rightarrow> None
      | c # s' \<Rightarrow>
          if c = CHR ''Z'' then Some (0, s')
          else if length s < 6 \<or> s ! 3 \<noteq> CHR '':'' then None
          else (case (get_num True (take 2 (drop 1 s)), get_num True (take 2 (drop 4 s))) of
                  (Some (hr, _), Some (mm, _)) \<Rightarrow>
                    if 24 < hr \<or> 60 < mm then None
                    else if c = CHR ''+'' then Some ((hr * 60 + mm) * 60, drop 6 s)
                    else if c = CHR ''-'' then Some (- ((hr * 60 + mm) * 60), drop 6 s)
                    else None
                | _ \<Rightarrow> None))"

definition guard :: "bool \<Rightarrow> unit option" where
  "guard b = (if b then Some () else None)"

definition instant_of :: "int \<Rightarrow> int \<Rightarrow> int \<Rightarrow> int \<Rightarrow> int \<Rightarrow> int \<Rightarrow> int \<Rightarrow> int \<Rightarrow> instant" where
  "instant_of y mo d h mi sec ns off =
     (days_of_date y mo d * 86400 + h * 3600 + mi * 60 + sec - off) * nanosecond_second + ns"

definition parse_date :: "(int \<times> int \<times> int) reader" where
  "parse_date s =
     Option.bind (get_year s) (\<lambda>(y, s).
     Option.bind (skip_char (CHR ''-'') s) (\<lambda>(_, s).
     Option.bind (get_num True s) (\<lambda>(mo, s).
     Option.bind (guard (1 \<le> mo \<and> mo \<le> 12)) (\<lambda>_.
     Option.bind (skip_char (CHR ''-'') s) (\<lambda>(_, s).
     Option.bind (get_num True s) (\<lambda>(d, s). Some ((y, mo, d), s)))))))"

definition parse_clock :: "(int \<times> int \<times> int) reader" where
  "parse_clock s =
     Option.bind (get_num False s) (\<lambda>(h, s).
     Option.bind (guard (h < 24)) (\<lambda>_.
     Option.bind (skip_char (CHR '':'') s) (\<lambda>(_, s).
     Option.bind (get_num True s) (\<lambda>(mi, s).
     Option.bind (guard (mi < 60)) (\<lambda>_.
     Option.bind (skip_char (CHR '':'') s) (\<lambda>(_, s).
     Option.bind (get_num True s) (\<lambda>(sec, s).
     Option.bind (guard (sec < 60)) (\<lambda>_. Some ((h, mi, sec), s)))))))))"

definition parse_rfc3339nano :: "bytes \<Rightarrow> instant option" where
  "parse_rfc3339nano s =
     Option.bind (parse_date s) (\<lambda>((y, mo, d), s).
     Option.bind (skip_char (CHR ''T'') s) (\<lambda>(_, s).
     Option.bind (parse_clock s) (\<lambda>((h, mi, sec), s).
     case get_fraction s of (ns, s) \<Rightarrow>
     Option.bind (get_zone s) (\<lambda>(off, s).
     Option.bind (guard (s = [] \<and> 1 \<le> d \<and> d \<le> days_in mo y)) (\<lambda>_.
       Some (instant_of y mo d h mi sec ns off))))))"

section \<open>Formatting and truncation\<close>

definition format_year :: "int \<Rightarrow> string" where
  "format_year y = (if y < 0 then CHR ''-'' # show_pad 4 (nat (- y)) else show_pad 4 (nat y))"

definition format_day :: "instant \<Rightarrow> string" where
  "format_day t =
     (case date_of_days (unix_sec t div 86400) of (y, m, d) \<Rightarrow>
        format_year y @ ''-'' @ show_pad 2 (nat m) @ ''-'' @ show_pad 2 (nat d))"

definition format_clock :: "instant \<Rightarrow> string" where
  "format_clock t =
     (let s = unix_sec t mod 86400
      in show_pad 2 (nat (s div 3600)) @ '':'' @ show_pad 2 (nat (s div 60 mod 60)) @ '':''
           @ show_pad 2 (nat (s mod 60)))"

text \<open>\<^verbatim>\<open>t.UTC().Format(time.RFC3339)\<close>; \<open>format_day\<close> alone is the layout
  \<^verbatim>\<open>2006-01-02\<close>.\<close>

definition format_rfc3339 :: "instant \<Rightarrow> string" where
  "format_rfc3339 t = format_day t @ ''T'' @ format_clock t @ ''Z''"

text \<open>
  \<^verbatim>\<open>t.Truncate(d)\<close> rounds down to a multiple of \<open>d\<close> since 0001-01-01, which is
  \<open>62135596800\<close> seconds before the Unix epoch.
\<close>

definition zero_time_sec :: int where
  "zero_time_sec = 62135596800"

definition truncate_to :: "int \<Rightarrow> instant \<Rightarrow> instant" where
  "truncate_to d t = t - (t + zero_time_sec * nanosecond_second) mod d"

section \<open>Round trip\<close>

lemma digit_char_0: "digit_char 0 = CHR ''0''"
  by code_simp

lemma show_pad_two:
  assumes "n < 100"
  shows "show_pad 2 n = [digit_char (n div 10), digit_char (n mod 10)]"
proof (cases "n < 10")
  case True
  then show ?thesis
    by (simp add: show_pad_def pad_left_def show_nat.simps [of n] digit_char_0)
next
  case False
  with assms have "n div 10 < 10" by simp
  with False show ?thesis
    by (simp add: show_pad_def pad_left_def show_nat.simps [of n] show_nat.simps [of "n div 10"])
qed

lemma get_num_show_pad [simp]:
  assumes "n < 100"
  shows "get_num b (show_pad 2 n @ s) = Some (int n, s)"
proof -
  have "10 * (n div 10) + n mod 10 = n" by simp
  moreover from assms have "n div 10 < 10" by simp
  ultimately show ?thesis using assms by (simp add: show_pad_two get_num_def)
qed

lemma get_year_format [simp]:
  assumes "0 \<le> y" "y \<le> 9999"
  shows "get_year (format_year y @ s) = Some (y, s)"
proof -
  have "length (show_pad 4 (nat y)) = 4" using assms by (intro length_show_pad) auto
  with assms show ?thesis by (simp add: get_year_def format_year_def)
qed

lemma skip_char_Cons [simp]: "skip_char c (c # s) = Some ((), s)"
  by (simp add: skip_char_def)

lemma guard_True [simp]: "guard True = Some ()"
  by (simp add: guard_def)

lemma bind_guard_iff: "Option.bind (guard b) f = (if b then f () else None)"
  by (simp add: guard_def)

lemma month_day_bounds:
  assumes "valid_date y m d"
  shows "1 \<le> m" "m \<le> 12" "1 \<le> d" "d \<le> 31"
proof -
  from assms show m: "1 \<le> m" "m \<le> 12" and "1 \<le> d" by (auto simp: valid_date_def)
  have "days_in m y \<le> 31"
    using month_cases [OF m] by (auto simp: days_in_def days_before_month_def)
  with assms show "d \<le> 31" by (simp add: valid_date_def)
qed

lemma parse_date_format:
  assumes "date_of_days n = (y, m, d)" "0 \<le> y" "y \<le> 9999"
  shows "parse_date (format_year y @ ''-'' @ show_pad 2 (nat m) @ ''-'' @ show_pad 2 (nat d) @ s)
    = Some ((y, m, d), s)"
proof -
  have v: "valid_date y m d" using days_of_date_of_days [OF assms(1)] by simp
  note b = month_day_bounds [OF v]
  then have "nat m < 100" "nat d < 100" by linarith+
  with b assms(2,3) show ?thesis by (simp add: parse_date_def bind_guard_iff)
qed

lemma parse_clock_format:
  "parse_clock (format_clock t @ s) =
     (let k = unix_sec t mod 86400 in Some ((k div 3600, k div 60 mod 60, k mod 60), s))"
proof -
  define k where "k = unix_sec t mod 86400"
  have k: "0 \<le> k" "k < 86400" by (simp_all add: k_def)
  then have "0 \<le> k div 3600" "k div 3600 < 24" by simp_all
  moreover have "0 \<le> k div 60 mod 60" "k div 60 mod 60 < 60" "0 \<le> k mod 60" "k mod 60 < 60" by simp_all
  ultimately show ?thesis
    by (simp add: parse_clock_def format_clock_def bind_guard_iff Let_def k_def [symmetric] nat_less_iff)
qed

text \<open>
  Formatting an instant of whole seconds in the years 0 to 9999 and parsing the result gives the
  instant back.
\<close>

definition four_digit_year :: "instant \<Rightarrow> bool" where
  "four_digit_year t \<longleftrightarrow>
     (case date_of_days (unix_sec t div 86400) of (y, m, d) \<Rightarrow> 0 \<le> y \<and> y \<le> 9999)"

theorem parse_format_rfc3339:
  assumes "t mod nanosecond_second = 0" "four_digit_year t"
  shows "parse_rfc3339nano (format_rfc3339 t) = Some t"
proof -
  define k where "k = unix_sec t mod 86400"
  obtain y m d where ymd: "date_of_days (unix_sec t div 86400) = (y, m, d)"
    by (metis prod_cases3)
  have dd: "days_of_date y m d = unix_sec t div 86400" and v: "valid_date y m d"
    using days_of_date_of_days [OF ymd] by auto
  have y: "0 \<le> y" "y \<le> 9999" using assms(2) ymd by (auto simp: four_digit_year_def)
  have fmt: "format_rfc3339 t =
      format_year y @ ''-'' @ show_pad 2 (nat m) @ ''-'' @ show_pad 2 (nat d) @ ''T'' @ format_clock t @ ''Z''"
    by (simp add: format_rfc3339_def format_day_def ymd)
  have "k div 60 div 60 = k div 3600" using zdiv_zmult2_eq [of 60 k 60] by simp
  then have "k div 3600 * 3600 + k div 60 mod 60 * 60 + k mod 60 = k"
    using div_mult_mod_eq [of k 60] div_mult_mod_eq [of "k div 60" 60] by linarith
  then have "instant_of y m d (k div 3600) (k div 60 mod 60) (k mod 60) 0 0 =
      (unix_sec t div 86400 * 86400 + k) * nanosecond_second"
    by (simp add: instant_of_def dd)
  also have "\<dots> = unix_sec t * nanosecond_second" by (simp add: k_def)
  also have "\<dots> = t" using assms(1) by (simp add: unix_sec_def mod_eq_0_iff_dvd)
  finally have inst: "instant_of y m d (k div 3600) (k div 60 mod 60) (k mod 60) 0 0 = t" .
  show ?thesis
    unfolding fmt parse_rfc3339nano_def parse_date_format [OF ymd y]
    using v inst
    by (simp add: parse_clock_format Let_def k_def [symmetric] get_fraction_def get_zone_def
        bind_guard_iff valid_date_def)
qed

end
