(* ===== verification/GoFloat.thy ===== *)
theory GoFloat
  imports Complex_Main Prelude
begin

text \<open>
  Go's \<^verbatim>\<open>float64\<close>: IEEE 754 binary64 with round-to-nearest-even. A finite value is
  the rational it denotes (the sign of zero is not kept: nothing in the program divides by a
  zero or prints a signed zero). Every arithmetic operation is the exact rational operation
  followed by \<open>fround\<close>, which rounds to 53 significant bits, with gradual underflow below
  \<^verbatim>\<open>2^-1022\<close> and overflow to an infinity from \<^verbatim>\<open>2^1024\<close>. The target of the
  Dockerfile (linux/amd64) does not fuse multiplications and additions.
\<close>

datatype f64 = NaN | PosInf | NegInf | Fin rat

section \<open>Rounding\<close>

definition two_pow :: "int \<Rightarrow> rat" where
  "two_pow e = (if 0 \<le> e then 2 ^ nat e else 1 / 2 ^ nat (- e))"

text \<open>The number of bits of a positive integer.\<close>

fun bit_count :: "int \<Rightarrow> int" where
  "bit_count n = (if n \<le> 0 then 0 else 1 + bit_count (n div 2))"

declare bit_count.simps [simp del]

text \<open>The exponent of the leading bit of a positive rational.\<close>

definition ilog2 :: "rat \<Rightarrow> int" where
  "ilog2 q =
     (case quotient_of q of (a, b) \<Rightarrow>
        (let e = bit_count a - bit_count b in if two_pow e \<le> q then e else e - 1))"

definition round_half_even :: "rat \<Rightarrow> int" where
  "round_half_even x =
     (let f = \<lfloor>x\<rfloor>; d = x - of_int f
      in if d < 1 / 2 then f else if 1 / 2 < d then f + 1 else if even f then f else f + 1)"

text \<open>\<^verbatim>\<open>2^1024\<close>: what rounds to it or above overflows.\<close>

definition f64_limit :: rat where
  "f64_limit = 179769313486231590772930519078902473361797697894230657273430081157732675805500963132708477322407536021120113879871393357658789768814416622492847430639474124377767893424865485276302219601246094119453082952085005768838150682342462881473913110540827237163350510684586298239947245938479716304835356329624224137216"

definition fround :: "rat \<Rightarrow> f64" where
  "fround q =
     (if q = 0 then Fin 0
      else let u = two_pow (max (ilog2 \<bar>q\<bar>) (- 1022) - 52);
               r = of_int (round_half_even (q / u)) * u
           in if f64_limit \<le> r then PosInf else if r \<le> - f64_limit then NegInf else Fin r)"

lemma two_pow_pos [simp]: "0 < two_pow e"
  by (simp add: two_pow_def)

lemma two_pow_nonzero [simp]: "two_pow e \<noteq> 0"
  using two_pow_pos [of e] by linarith

lemma two_pow_powi: "two_pow e = 2 powi e"
  by (simp add: two_pow_def power_int_def inverse_eq_divide power_one_over)

lemma two_pow_add: "two_pow (a + b) = two_pow a * two_pow b"
  by (simp add: two_pow_powi power_int_add)

lemma two_pow_divide: "two_pow a / two_pow b = two_pow (a - b)"
  using two_pow_add [of "a - b" b] by simp

lemma two_pow_neg: "two_pow (- int k) = 1 / 2 ^ k"
  by (simp add: two_pow_def)

lemma two_pow_mono: "a \<le> b \<Longrightarrow> two_pow a \<le> two_pow b"
  by (simp add: two_pow_powi power_int_increasing)

lemma two_pow_less_imp: "two_pow a < two_pow b \<Longrightarrow> a < b"
  using two_pow_mono [of b a] by linarith

lemma bit_count_nonneg: "0 \<le> bit_count n"
proof (induction n rule: bit_count.induct)
  case (1 n)
  then show ?case by (cases "n \<le> 0") (simp_all add: bit_count.simps [of n])
qed

lemma bit_count_bounds:
  "0 < n \<Longrightarrow> two_pow (bit_count n - 1) \<le> of_int n \<and> of_int n < two_pow (bit_count n)"
proof (induction n rule: bit_count.induct)
  case (1 n)
  have bc: "bit_count n = bit_count (n div 2) + 1"
    using 1 by (simp add: bit_count.simps [of n])
  have two: "two_pow (bit_count (n div 2) + 1) = 2 * two_pow (bit_count (n div 2))"
    by (simp add: two_pow_add) (simp add: two_pow_def)
  have half: "two_pow (bit_count (n div 2) - 1) * 2 = two_pow (bit_count (n div 2))"
    using two_pow_add [of "bit_count (n div 2) - 1" 1] by (simp add: two_pow_def)
  show ?case
  proof (cases "n = 1")
    case True
    then show ?thesis by (simp add: bit_count.simps [of 1] bit_count.simps [of 0] two_pow_def)
  next
    case False
    with 1 have h: "two_pow (bit_count (n div 2) - 1) \<le> of_int (n div 2)"
        "of_int (n div 2) < two_pow (bit_count (n div 2))" by auto
    have n: "2 * (n div 2) \<le> n" "n \<le> 2 * (n div 2) + 1" by simp_all
    have nn: "0 \<le> bit_count (n div 2)" by (rule bit_count_nonneg)
    have "of_int (n div 2) < (of_int (2 ^ nat (bit_count (n div 2))) :: rat)"
      using h(2) nn by (simp add: two_pow_def)
    then have "n div 2 + 1 \<le> 2 ^ nat (bit_count (n div 2))" by linarith
    then have "of_int (n div 2) + 1 \<le> (of_int (2 ^ nat (bit_count (n div 2))) :: rat)"
      by (metis of_int_1 of_int_add of_int_le_iff)
    then have up: "of_int (n div 2) + 1 \<le> two_pow (bit_count (n div 2))"
      using nn by (simp add: two_pow_def)
    have "of_int (2 * (n div 2)) \<le> (of_int n :: rat)" "(of_int n :: rat) \<le> of_int (2 * (n div 2) + 1)"
      using n by (simp_all only: of_int_le_iff)
    with h up half show ?thesis unfolding bc two by simp
  qed
qed

lemma ilog2_lower:
  assumes "0 < q"
  shows "two_pow (ilog2 q) \<le> q"
proof -
  obtain a b where ab: "quotient_of q = (a, b)" by (cases "quotient_of q")
  have b: "0 < b" using quotient_of_denom_pos [OF ab] .
  have q: "q = of_int a / of_int b" using quotient_of_div [OF ab] .
  with assms b have a: "0 < a" by (simp add: zero_less_divide_iff)
  let ?e = "bit_count a - bit_count b"
  have "two_pow (?e - 1) * of_int b \<le> two_pow (?e - 1) * two_pow (bit_count b)"
    using bit_count_bounds [OF b] less_imp_le [OF two_pow_pos] by (intro mult_left_mono) auto
  also have "\<dots> = two_pow (bit_count a - 1)"
    by (simp flip: two_pow_add)
  also have "\<dots> \<le> of_int a"
    using bit_count_bounds [OF a] by simp
  finally have "two_pow (?e - 1) \<le> q" using b by (simp add: q pos_le_divide_eq)
  then show ?thesis by (auto simp: ilog2_def ab Let_def)
qed

lemma round_half_even_of_int [simp]: "round_half_even (of_int n) = n"
  by (simp add: round_half_even_def Let_def)

text \<open>Rationals with at most 53 significant bits and a moderate exponent are not changed.\<close>

lemma fround_exact:
  assumes q: "q = of_int m / 2 ^ k" and m: "\<bar>m\<bar> < 2 ^ 53" and k: "k \<le> 1074"
  shows "fround q = Fin q"
proof (cases "q = 0")
  case False
  let ?e = "max (ilog2 \<bar>q\<bar>) (- 1022) - 52"
  have absq: "\<bar>q\<bar> = of_int \<bar>m\<bar> * two_pow (- int k)"
    by (simp add: q two_pow_def abs_divide)
  have "of_int \<bar>m\<bar> < (2 ^ 53 :: rat)"
    using m by (metis of_int_less_iff of_int_numeral of_int_power)
  then have "of_int \<bar>m\<bar> < two_pow 53" by (simp add: two_pow_def)
  then have "\<bar>q\<bar> < two_pow 53 * two_pow (- int k)"
    unfolding absq by (intro mult_strict_right_mono) auto
  then have lt: "\<bar>q\<bar> < two_pow (53 - int k)"
    by (simp flip: two_pow_add)
  with ilog2_lower [of "\<bar>q\<bar>"] False have "two_pow (ilog2 \<bar>q\<bar>) < two_pow (53 - int k)"
    by simp
  then have "ilog2 \<bar>q\<bar> < 53 - int k" by (rule two_pow_less_imp)
  with k have e: "?e \<le> - int k" by linarith
  have "q / two_pow ?e = of_int m * two_pow (- int k - ?e)"
    unfolding two_pow_divide [symmetric] by (simp add: q two_pow_neg)
  also have "\<dots> = of_int (m * 2 ^ nat (- int k - ?e))"
    using e by (simp add: two_pow_def)
  finally obtain n where n: "q / two_pow ?e = of_int n" by blast
  then have r: "of_int (round_half_even (q / two_pow ?e)) * two_pow ?e = q"
    by (metis nonzero_divide_eq_eq round_half_even_of_int two_pow_nonzero)
  have "two_pow (53 - int k) \<le> two_pow 53" by (rule two_pow_mono) simp
  also have "\<dots> < f64_limit" by (simp add: two_pow_def f64_limit_def)
  finally have "\<bar>q\<bar> < f64_limit" using lt by linarith
  then have "\<not> f64_limit \<le> q" and "\<not> q \<le> - f64_limit" by linarith+
  with False show ?thesis unfolding fround_def Let_def r by simp
qed (simp add: fround_def)

section \<open>Operations\<close>

fun fadd :: "f64 \<Rightarrow> f64 \<Rightarrow> f64" where
  "fadd (Fin a) (Fin b) = fround (a + b)"
| "fadd NaN b = NaN"
| "fadd a NaN = NaN"
| "fadd PosInf NegInf = NaN"
| "fadd NegInf PosInf = NaN"
| "fadd PosInf b = PosInf"
| "fadd NegInf b = NegInf"
| "fadd a PosInf = PosInf"
| "fadd a NegInf = NegInf"

definition fsign :: "f64 \<Rightarrow> int" where
  "fsign x = (case x of NaN \<Rightarrow> 0 | PosInf \<Rightarrow> 1 | NegInf \<Rightarrow> - 1 | Fin q \<Rightarrow> (if 0 < q then 1 else if q < 0 then - 1 else 0))"

definition finf :: "int \<Rightarrow> f64" where
  "finf s = (if s = 0 then NaN else if 0 < s then PosInf else NegInf)"

definition fmul :: "f64 \<Rightarrow> f64 \<Rightarrow> f64" where
  "fmul x y =
     (if x = NaN \<or> y = NaN then NaN
      else case (x, y) of
        (Fin a, Fin b) \<Rightarrow> fround (a * b)
      | _ \<Rightarrow> finf (fsign x * fsign y))"

text \<open>Division, for a non-zero finite divisor (the only one the program uses).\<close>

fun fdiv_fin :: "f64 \<Rightarrow> rat \<Rightarrow> f64" where
  "fdiv_fin NaN b = NaN"
| "fdiv_fin PosInf b = (if 0 < b then PosInf else NegInf)"
| "fdiv_fin NegInf b = (if 0 < b then NegInf else PosInf)"
| "fdiv_fin (Fin a) b = fround (a / b)"

text \<open>Comparisons: every one is false on a NaN.\<close>

fun fle :: "f64 \<Rightarrow> f64 \<Rightarrow> bool" where
  "fle (Fin a) (Fin b) \<longleftrightarrow> a \<le> b"
| "fle NaN b \<longleftrightarrow> False"
| "fle a NaN \<longleftrightarrow> False"
| "fle NegInf b \<longleftrightarrow> True"
| "fle a PosInf \<longleftrightarrow> True"
| "fle a b \<longleftrightarrow> False"

fun flt :: "f64 \<Rightarrow> f64 \<Rightarrow> bool" where
  "flt (Fin a) (Fin b) \<longleftrightarrow> a < b"
| "flt NaN b \<longleftrightarrow> False"
| "flt a NaN \<longleftrightarrow> False"
| "flt NegInf NegInf \<longleftrightarrow> False"
| "flt NegInf b \<longleftrightarrow> True"
| "flt PosInf b \<longleftrightarrow> False"
| "flt (Fin a) PosInf \<longleftrightarrow> True"
| "flt (Fin a) NegInf \<longleftrightarrow> False"

definition is_nan :: "f64 \<Rightarrow> bool" where
  "is_nan x \<longleftrightarrow> x = NaN"

definition is_inf :: "f64 \<Rightarrow> bool" where
  "is_inf x \<longleftrightarrow> x = PosInf \<or> x = NegInf"

text \<open>\<^verbatim>\<open>float64(n)\<close> for an integer, and a rational literal of the source.\<close>

definition f64_of_int :: "int \<Rightarrow> f64" where
  "f64_of_int n = fround (of_int n)"

definition f64_lit :: "rat \<Rightarrow> f64" where
  "f64_lit q = fround q"

lemma f64_of_int_exact [simp]: "\<bar>n\<bar> < 2 ^ 53 \<Longrightarrow> f64_of_int n = Fin (of_int n)"
  by (simp add: f64_of_int_def fround_exact [where m = n and k = 0])

lemma flt_fle_trans: "flt a b \<Longrightarrow> fle b c \<Longrightarrow> flt a c"
  by (cases a; cases b; cases c) auto

lemma fle_flt_trans: "fle a b \<Longrightarrow> flt b c \<Longrightarrow> flt a c"
  by (cases a; cases b; cases c) auto

lemma fle_trans: "fle a b \<Longrightarrow> fle b c \<Longrightarrow> fle a c"
  by (cases a; cases b; cases c) auto

lemma fle_refl_iff: "fle a a \<longleftrightarrow> a \<noteq> NaN"
  by (cases a) auto

lemma not_fle_flt: "a \<noteq> NaN \<Longrightarrow> b \<noteq> NaN \<Longrightarrow> \<not> fle a b \<longleftrightarrow> flt b a"
  by (cases a; cases b) auto

end
