(* ===== verification/GoJson.thy ===== *)
theory GoJson
  imports GoStrings GoFloat
begin

text \<open>
  What the gateway uses of Go's \<^verbatim>\<open>encoding/json\<close>: the string encoder of
  \<^verbatim>\<open>json.Marshal\<close> (with its HTML escaping), a parser for JSON texts with the limits of
  Go's scanner, and the conversion of parsed values into struct fields by name. The texts of the
  package's error messages are not modelled: a failure is \<open>None\<close> or \<open>json_error\<close>.
\<close>

definition json_error :: goerr where "json_error = Leaf ''json''"

section \<open>Encoding strings\<close>

definition hex4 :: "int \<Rightarrow> string" where
  "hex4 r = map (\<lambda>k. let d = r div 16 ^ k mod 16 in if d < 10 then char_of (48 + d) else char_of (87 + d)) [3, 2, 1, 0]"

definition unicode_escape :: "int \<Rightarrow> string" where
  "unicode_escape r = CHR 0x5C # CHR ''u'' # hex4 r"

text \<open>One segment of the string, given as its rune and the bytes it was read from.\<close>

definition escape_seg :: "rune \<times> bytes \<Rightarrow> string" where
  "escape_seg x =
     (let r = fst x in
      if r = 34 then [CHR 0x5C, CHR 0x22]
      else if r = 92 then [CHR 0x5C, CHR 0x5C]
      else if r = 8 then [CHR 0x5C, CHR ''b'']
      else if r = 12 then [CHR 0x5C, CHR ''f'']
      else if r = 10 then [CHR 0x5C, CHR ''n'']
      else if r = 13 then [CHR 0x5C, CHR ''r'']
      else if r = 9 then [CHR 0x5C, CHR ''t'']
      else if r < 32 \<or> r = 60 \<or> r = 62 \<or> r = 38 then unicode_escape r
      else if r = rune_error \<and> length (snd x) = 1 then unicode_escape rune_error
      else if r = 8232 \<or> r = 8233 then unicode_escape r
      else snd x)"

definition json_string :: "bytes \<Rightarrow> string" where
  "json_string s = CHR 0x22 # concat (map escape_seg (segs s)) @ [CHR 0x22]"

section \<open>Parsing\<close>

datatype json = JNull | JBool bool | JNum bytes | JStr bytes | JArr "json list" | JObj "(bytes \<times> json) list"

definition json_space :: "char \<Rightarrow> bool" where
  "json_space c \<longleftrightarrow> c = CHR '' '' \<or> c = CHR 0x09 \<or> c = CHR 0x0A \<or> c = CHR 0x0D"

definition skip_ws :: "bytes \<Rightarrow> bytes" where
  "skip_ws s = dropWhile json_space s"

definition hex_value :: "char \<Rightarrow> int option" where
  "hex_value c =
     (let v = of_char c :: int in
      if 48 \<le> v \<and> v \<le> 57 then Some (v - 48)
      else if 97 \<le> v \<and> v \<le> 102 then Some (v - 87)
      else if 65 \<le> v \<and> v \<le> 70 then Some (v - 55)
      else None)"

fun hex4_value :: "bytes \<Rightarrow> int option" where
  "hex4_value (a # b # c # d # s) =
     (case (hex_value a, hex_value b, hex_value c, hex_value d) of
        (Some w, Some x, Some y, Some z) \<Rightarrow> Some (((w * 16 + x) * 16 + y) * 16 + z)
      | _ \<Rightarrow> None)"
| "hex4_value s = None"

definition simple_escape :: "char \<Rightarrow> rune option" where
  "simple_escape c =
     (if c = CHR 0x22 then Some 34 else if c = CHR 0x5C then Some 92 else if c = CHR 0x2F then Some 47
      else if c = CHR ''b'' then Some 8 else if c = CHR ''f'' then Some 12 else if c = CHR ''n'' then Some 10
      else if c = CHR ''r'' then Some 13 else if c = CHR ''t'' then Some 9 else None)"

text \<open>
  A \<^verbatim>\<open>\uXXXX\<close> escape whose digits are at the head of \<open>s\<close>: a surrogate is joined with the
  escape that follows when the two form a pair, and is \<^verbatim>\<open>U+FFFD\<close> otherwise.
\<close>

definition surrogate :: "int \<Rightarrow> bool" where
  "surrogate r \<longleftrightarrow> 0xD800 \<le> r \<and> r < 0xE000"

definition read_unicode :: "bytes \<Rightarrow> (rune \<times> bytes) option" where
  "read_unicode s =
     (case hex4_value s of
        None \<Rightarrow> None
      | Some r \<Rightarrow>
          if \<not> surrogate r then Some (r, drop 4 s)
          else (case (take 2 (drop 4 s) = [CHR 0x5C, CHR ''u''], hex4_value (drop 6 s)) of
                  (True, Some r2) \<Rightarrow>
                    if r < 0xDC00 \<and> 0xDC00 \<le> r2 \<and> r2 < 0xE000
                    then Some ((r - 0xD800) * 1024 + (r2 - 0xDC00) + 0x10000, drop 10 s)
                    else Some (rune_error, drop 4 s)
                | _ \<Rightarrow> Some (rune_error, drop 4 s)))"

text \<open>The body of a string after its opening quote, and the text after the closing one.\<close>

fun read_string :: "nat \<Rightarrow> bytes \<Rightarrow> (bytes \<times> bytes) option" where
  "read_string 0 s = None"
| "read_string (Suc fuel) s =
     (case s of
        [] \<Rightarrow> None
      | c # s' \<Rightarrow>
          if c = CHR 0x22 then Some ([], s')
          else if (of_char c :: int) < 32 then None
          else if c = CHR 0x5C then
            (case s' of
               [] \<Rightarrow> None
             | e # s'' \<Rightarrow>
                 (case (if e = CHR ''u'' then read_unicode s'' else map_option (\<lambda>r. (r, s'')) (simple_escape e)) of
                    None \<Rightarrow> None
                  | Some (r, t) \<Rightarrow> map_option (apfst ((@) (encode_rune r))) (read_string fuel t)))
          else (case decode_rune s of
                  (r, w) \<Rightarrow> map_option (apfst ((@) (encode_rune r))) (read_string fuel (drop w s))))"

text \<open>The longest number at the head of the text.\<close>

definition read_digits :: "bytes \<Rightarrow> bytes \<times> bytes" where
  "read_digits s = (takeWhile is_digit s, dropWhile is_digit s)"

definition read_int_part :: "bytes \<Rightarrow> (bytes \<times> bytes) option" where
  "read_int_part s =
     (case read_digits s of
        ([], _) \<Rightarrow> None
      | (d # ds, t) \<Rightarrow> if d = CHR ''0'' then Some ([d], ds @ t) else Some (d # ds, t))"

definition read_frac_part :: "bytes \<Rightarrow> (bytes \<times> bytes) option" where
  "read_frac_part s =
     (case s of
        c # t \<Rightarrow> if c = CHR ''.''
                 then (case read_digits t of ([], _) \<Rightarrow> None | (ds, u) \<Rightarrow> Some (c # ds, u))
                 else Some ([], s)
      | [] \<Rightarrow> Some ([], []))"

definition read_exp_part :: "bytes \<Rightarrow> (bytes \<times> bytes) option" where
  "read_exp_part s =
     (case s of
        c # t \<Rightarrow>
          if c = CHR ''e'' \<or> c = CHR ''E'' then
            (case t of
               g # u \<Rightarrow>
                 (if g = CHR ''+'' \<or> g = CHR ''-''
                  then (case read_digits u of ([], _) \<Rightarrow> None | (ds, v) \<Rightarrow> Some (c # g # ds, v))
                  else (case read_digits t of ([], _) \<Rightarrow> None | (ds, v) \<Rightarrow> Some (c # ds, v)))
             | [] \<Rightarrow> None)
          else Some ([], s)
      | [] \<Rightarrow> Some ([], []))"

definition read_number :: "bytes \<Rightarrow> (bytes \<times> bytes) option" where
  "read_number s =
     (let (sign, s1) = (case s of c # t \<Rightarrow> if c = CHR ''-'' then ([c], t) else ([], s) | [] \<Rightarrow> ([], s))
      in Option.bind (read_int_part s1) (\<lambda>(i, s2).
         Option.bind (read_frac_part s2) (\<lambda>(f, s3).
         Option.bind (read_exp_part s3) (\<lambda>(e, s4). Some (sign @ i @ f @ e, s4)))))"

definition read_literal :: "bytes \<Rightarrow> 'a \<Rightarrow> bytes \<Rightarrow> ('a \<times> bytes) option" where
  "read_literal w v s = (if has_prefix s w then Some (v, drop (length w) s) else None)"

definition max_depth :: nat where "max_depth = 10000"

text \<open>
  A value, the rest of an array after its opening bracket or a comma, and the rest of an object.
  Every call uses up fuel, and every two of them a character, so the fuel \<open>2 * length s + 2\<close> of
  \<open>parse_json\<close> is never exhausted. \<open>d\<close> is the nesting depth.
\<close>

fun parse_value :: "nat \<Rightarrow> nat \<Rightarrow> bytes \<Rightarrow> (json \<times> bytes) option"
  and parse_elements :: "nat \<Rightarrow> nat \<Rightarrow> bytes \<Rightarrow> (json list \<times> bytes) option"
  and parse_members :: "nat \<Rightarrow> nat \<Rightarrow> bytes \<Rightarrow> ((bytes \<times> json) list \<times> bytes) option"
where
  "parse_value 0 d s = None"
| "parse_value (Suc fuel) d s =
     (case skip_ws s of
        [] \<Rightarrow> None
      | c # t \<Rightarrow>
          if c = CHR 0x22 then map_option (apfst JStr) (read_string (Suc (length t)) t)
          else if c = CHR ''['' then
            (if max_depth \<le> d then None
             else case skip_ws t of
               x # u \<Rightarrow> if x = CHR '']'' then Some (JArr [], u)
                        else map_option (apfst JArr) (parse_elements fuel (Suc d) t)
             | [] \<Rightarrow> None)
          else if c = CHR ''{'' then
            (if max_depth \<le> d then None
             else case skip_ws t of
               x # u \<Rightarrow> if x = CHR ''}'' then Some (JObj [], u)
                        else map_option (apfst JObj) (parse_members fuel (Suc d) t)
             | [] \<Rightarrow> None)
          else if c = CHR ''t'' then read_literal ''true'' (JBool True) (c # t)
          else if c = CHR ''f'' then read_literal ''false'' (JBool False) (c # t)
          else if c = CHR ''n'' then read_literal ''null'' JNull (c # t)
          else map_option (apfst JNum) (read_number (c # t)))"
| "parse_elements 0 d s = None"
| "parse_elements (Suc fuel) d s =
     (case parse_value fuel d s of
        None \<Rightarrow> None
      | Some (v, t) \<Rightarrow>
          (case skip_ws t of
             c # u \<Rightarrow> if c = CHR '']'' then Some ([v], u)
                      else if c = CHR '','' then map_option (apfst (Cons v)) (parse_elements fuel d u)
                      else None
           | [] \<Rightarrow> None))"
| "parse_members 0 d s = None"
| "parse_members (Suc fuel) d s =
     (case skip_ws s of
        q # s1 \<Rightarrow>
          if q \<noteq> CHR 0x22 then None
          else (case read_string (Suc (length s1)) s1 of
                  None \<Rightarrow> None
                | Some (k, s2) \<Rightarrow>
                    (case skip_ws s2 of
                       x # s3 \<Rightarrow>
                         if x \<noteq> CHR '':'' then None
                         else (case parse_value fuel d s3 of
                                 None \<Rightarrow> None
                               | Some (v, s4) \<Rightarrow>
                                   (case skip_ws s4 of
                                      c # u \<Rightarrow> if c = CHR ''}'' then Some ([(k, v)], u)
                                               else if c = CHR '','' then map_option (apfst (Cons (k, v))) (parse_members fuel d u)
                                               else None
                                    | [] \<Rightarrow> None))
                     | [] \<Rightarrow> None))
      | [] \<Rightarrow> None)"

text \<open>
  \<^verbatim>\<open>json.NewDecoder(r).Decode\<close> reads the first value and leaves the rest;
  \<^verbatim>\<open>json.Unmarshal\<close> requires that only white space follows.
\<close>

definition parse_first :: "bytes \<Rightarrow> (json \<times> bytes) option" where
  "parse_first s = parse_value (2 * length s + 2) 0 s"

definition parse_json :: "bytes \<Rightarrow> json option" where
  "parse_json s = (case parse_first s of Some (v, t) \<Rightarrow> if skip_ws t = [] then Some v else None | None \<Rightarrow> None)"

section \<open>Struct fields\<close>

text \<open>
  Go matches object keys to field names up to simple case folding. The orbits of ASCII letters hold
  two other characters: the long s and the Kelvin sign.
\<close>

definition fold_rune :: "rune \<Rightarrow> rune" where
  "fold_rune r =
     (if 97 \<le> r \<and> r \<le> 122 then r - 32 else if r = 0x17F then 83 else if r = 0x212A then 75 else r)"

definition key_matches :: "string \<Rightarrow> bytes \<Rightarrow> bool" where
  "key_matches name key \<longleftrightarrow>
     map fold_rune (utf8_decode key) = map fold_rune (utf8_decode name)"

text \<open>Assigning a value to a field of type \<^verbatim>\<open>string\<close>, \<^verbatim>\<open>int\<close>,
  \<^verbatim>\<open>float64\<close> or \<^verbatim>\<open>*float64\<close>; \<open>None\<close> is a type error.\<close>

definition set_string :: "json \<Rightarrow> bytes \<Rightarrow> bytes option" where
  "set_string v old = (case v of JStr s \<Rightarrow> Some s | JNull \<Rightarrow> Some old | _ \<Rightarrow> None)"

definition int_literal :: "bytes \<Rightarrow> int option" where
  "int_literal s =
     (let (neg, ds) = (case s of c # t \<Rightarrow> if c = CHR ''-'' then (True, t) else (False, s) | [] \<Rightarrow> (False, []))
      in if ds = [] \<or> \<not> list_all is_digit ds then None
         else (let v = (if neg then - int (digits_val ds) else int (digits_val ds))
               in if - (2 ^ 63) \<le> v \<and> v < 2 ^ 63 then Some v else None))"

definition set_int :: "json \<Rightarrow> int \<Rightarrow> int option" where
  "set_int v old = (case v of JNum s \<Rightarrow> int_literal s | JNull \<Rightarrow> Some old | _ \<Rightarrow> None)"

text \<open>The rational a number literal denotes, and \<^verbatim>\<open>strconv.ParseFloat\<close> of it.\<close>

definition rational_literal :: "bytes \<Rightarrow> rat" where
  "rational_literal s =
     (let (neg, s1) = (case s of c # t \<Rightarrow> if c = CHR ''-'' then (True, t) else (False, s) | [] \<Rightarrow> (False, []));
          ip = takeWhile is_digit s1; s2 = dropWhile is_digit s1;
          (fp, s3) = (case s2 of c # t \<Rightarrow> if c = CHR ''.'' then read_digits t else ([], s2) | [] \<Rightarrow> ([], []));
          e = (case s3 of
                 c # g # t \<Rightarrow> (if g = CHR ''-'' then - int (digits_val t)
                               else if g = CHR ''+'' then int (digits_val t) else int (digits_val (g # t)))
               | _ \<Rightarrow> 0) - int (length fp);
          m = of_nat (digits_val (ip @ fp)) :: rat;
          q = (if 0 \<le> e then m * 10 ^ nat e else m / 10 ^ nat (- e))
      in if neg then - q else q)"

definition float_literal :: "bytes \<Rightarrow> f64 option" where
  "float_literal s = (let x = fround (rational_literal s) in if is_inf x then None else Some x)"

definition set_float :: "json \<Rightarrow> f64 \<Rightarrow> f64 option" where
  "set_float v old = (case v of JNum s \<Rightarrow> float_literal s | JNull \<Rightarrow> Some old | _ \<Rightarrow> None)"

definition set_float_ptr :: "json \<Rightarrow> f64 option \<Rightarrow> f64 option option" where
  "set_float_ptr v old = (case v of JNum s \<Rightarrow> map_option Some (float_literal s) | JNull \<Rightarrow> Some None | _ \<Rightarrow> None)"

text \<open>
  A struct is decoded by the setters of its fields, tried in order for each member of the object; a
  member that matches no field is skipped, a type error fails the whole decoding. \<^verbatim>\<open>null\<close>
  leaves the struct as it is.
\<close>

type_synonym 'r setters = "(string \<times> (json \<Rightarrow> 'r \<Rightarrow> 'r option)) list"

definition set_member :: "'r setters \<Rightarrow> bytes \<times> json \<Rightarrow> 'r \<Rightarrow> 'r option" where
  "set_member fs m r =
     (case find (\<lambda>f. fst f = fst m) fs of
        Some f \<Rightarrow> snd f (snd m) r
      | None \<Rightarrow> (case find (\<lambda>f. key_matches (fst f) (fst m)) fs of
                   Some f \<Rightarrow> snd f (snd m) r
                 | None \<Rightarrow> Some r))"

fun set_members :: "'r setters \<Rightarrow> (bytes \<times> json) list \<Rightarrow> 'r \<Rightarrow> 'r option" where
  "set_members fs [] r = Some r"
| "set_members fs (m # ms) r = (case set_member fs m r of None \<Rightarrow> None | Some r1 \<Rightarrow> set_members fs ms r1)"

definition decode_struct :: "'r setters \<Rightarrow> json \<Rightarrow> 'r \<Rightarrow> 'r option" where
  "decode_struct fs v r =
     (case v of JObj ms \<Rightarrow> set_members fs ms r | JNull \<Rightarrow> Some r | _ \<Rightarrow> None)"

section \<open>Strings round trip\<close>

lemma char_of_byte_val [simp]: "char_of (byte_val c) = c"
  by (simp add: byte_val_def)

lemma base64_split:
  assumes "r = q * 64 + k" "0 \<le> k" "k < (64 :: int)"
  shows "r mod 64 = k" "r div 64 = q"
  using assms by simp_all

lemma encode_rune2: "seq2 (byte_val a) (byte_val b) \<Longrightarrow> encode_rune (rune2 (byte_val a) (byte_val b)) = [a, b]"
proof -
  define x y where "x = byte_val a" and "y = byte_val b"
  assume "seq2 (byte_val a) (byte_val b)"
  then have r: "194 \<le> x" "x \<le> 223" "128 \<le> y" "y \<le> 191" by (simp_all add: seq2_def cont_def x_def y_def)
  then have "rune2 x y div 64 = x - 192" "rune2 x y mod 64 = y - 128"
    using base64_split [of "rune2 x y" "x - 192" "y - 128"] by (simp_all add: rune2_def)
  moreover have "128 \<le> rune2 x y" "rune2 x y < 2048" using r by (simp_all add: rune2_def)
  ultimately have "encode_rune (rune2 x y) = map char_of [x, y]" by (simp add: encode_rune_def valid_rune_def)
  then show ?thesis by (simp add: x_def y_def)
qed

lemma encode_rune3:
  assumes "seq3 (byte_val a) (byte_val b) (byte_val c)"
  shows "encode_rune (rune3 (byte_val a) (byte_val b) (byte_val c)) = [a, b, c]"
proof -
  define x y z where "x = byte_val a" and "y = byte_val b" and "z = byte_val c"
  define r where "r = rune3 x y z"
  have v: "valid_rune r" using valid_rune3 [OF assms] by (simp add: r_def x_def y_def z_def)
  have b: "0 \<le> y - 128" "y - 128 < 64" "0 \<le> z - 128" "z - 128 < 64" "224 \<le> x" "x \<le> 239"
      and lo: "160 \<le> y \<or> 225 \<le> x"
    using assms by (auto simp: seq3_def cont_def x_def y_def z_def split: if_splits)
  have r: "r = ((x - 224) * 64 + (y - 128)) * 64 + (z - 128)" by (simp add: r_def rune3_def algebra_simps)
  note m = base64_split [OF r b(3,4)] and n = base64_split [OF base64_split(2) [OF r b(3,4)] b(1,2)]
  have d: "r div 4096 = r div 64 div 64" using zdiv_zmult2_eq [of 64 r 64] by simp
  have "2048 \<le> r" using lo b unfolding r_def rune3_def by auto
  moreover have "r < 65536" using b unfolding r_def rune3_def by auto
  ultimately have "encode_rune r = map char_of [224 + r div 4096, 128 + (r div 64) mod 64, 128 + r mod 64]"
    using v by (simp add: encode_rune_def)
  then show ?thesis unfolding d n m(1) by (simp add: r_def x_def y_def z_def)
qed

lemma encode_rune4:
  assumes "seq4 (byte_val a) (byte_val b) (byte_val c) (byte_val d)"
  shows "encode_rune (rune4 (byte_val a) (byte_val b) (byte_val c) (byte_val d)) = [a, b, c, d]"
proof -
  define w x y z where "w = byte_val a" and "x = byte_val b" and "y = byte_val c" and "z = byte_val d"
  define r where "r = rune4 w x y z"
  have v: "valid_rune r" using valid_rune4 [OF assms] by (simp add: r_def w_def x_def y_def z_def)
  have b: "0 \<le> x - 128" "x - 128 < 64" "0 \<le> y - 128" "y - 128 < 64" "0 \<le> z - 128" "z - 128 < 64" "240 \<le> w"
      and lo: "144 \<le> x \<or> 241 \<le> w"
    using assms by (auto simp: seq4_def cont_def w_def x_def y_def z_def split: if_splits)
  have r: "r = (((w - 240) * 64 + (x - 128)) * 64 + (y - 128)) * 64 + (z - 128)"
    by (simp add: r_def rune4_def algebra_simps)
  note m = base64_split [OF r b(5,6)]
  note n = base64_split [OF m(2) b(3,4)]
  note l = base64_split [OF n(2) b(1,2)]
  have d: "r div 4096 = r div 64 div 64" using zdiv_zmult2_eq [of 64 r 64] by simp
  have e: "r div 262144 = r div 64 div 64 div 64" using zdiv_zmult2_eq [of 64 r 4096] d by simp
  have "65536 \<le> r" using lo b unfolding r_def rune4_def by auto
  then have "encode_rune r =
      map char_of [240 + r div 262144, 128 + (r div 4096) mod 64, 128 + (r div 64) mod 64, 128 + r mod 64]"
    using v by (simp add: encode_rune_def)
  then show ?thesis unfolding e d l n(1) m(1) by (simp add: r_def w_def x_def y_def z_def)
qed

lemma encode_rune1: "byte_val a < 128 \<Longrightarrow> encode_rune (byte_val a) = [a]"
  using byte_val_bounds [of a] by (simp add: encode_rune_lt_128)

lemma encode_decode_rune:
  assumes "decode_rune s = (r, n)" "s \<noteq> []"
  shows "(r = rune_error \<and> n = 1) \<or> take n s = encode_rune r"
proof -
  consider a where "s = [a]" | a b where "s = [a, b]" | a b c where "s = [a, b, c]"
    | a b c d t where "s = a # b # c # d # t"
    using assms(2) by (metis list.exhaust)
  then show ?thesis
    using assms(1)
    by cases (auto simp: decode_rune_def encode_rune1 encode_rune2 encode_rune3 encode_rune4 split: if_splits)
qed

definition good_seg :: "rune \<times> bytes \<Rightarrow> bool" where
  "good_seg x \<longleftrightarrow> valid_rune (fst x) \<and> ((fst x = rune_error \<and> length (snd x) = 1) \<or> snd x = encode_rune (fst x))"

lemma good_segs: "list_all good_seg (segs s)"
proof (induction s rule: segs.induct)
  case (1 s)
  show ?case
  proof (cases "s = []")
    case False
    obtain r n where d: "decode_rune s = (r, n)" by fastforce
    have "n \<le> length s" "valid_rune r" using decode_rune_width_le [of s] valid_decode_rune [of s] d by simp_all
    then have "good_seg (r, take n s)" using encode_decode_rune [OF d False] by (auto simp: good_seg_def)
    with 1 [OF False d [symmetric]] False d show ?thesis by (simp add: segs.simps [of s])
  qed simp
qed

lemma hex_value_digit: "0 \<le> d \<Longrightarrow> d < 16 \<Longrightarrow>
    hex_value (if d < 10 then char_of (48 + d) else char_of (87 + d)) = Some (d :: int)"
  by (auto simp: hex_value_def Let_def)

lemma hex4_value_hex4:
  assumes "0 \<le> r" "r < 65536"
  shows "hex4_value (hex4 r @ s) = Some r"
proof -
  define h where "h k = (if r div 16 ^ k mod 16 < 10 then char_of (48 + r div 16 ^ k mod 16)
      else char_of (87 + r div 16 ^ k mod 16) :: char)" for k :: nat
  have d: "hex_value (h k) = Some (r div 16 ^ k mod 16)" for k
    unfolding h_def by (rule hex_value_digit) simp_all
  have h4: "hex4 r = [h 3, h 2, h 1, h 0]" by (simp add: hex4_def h_def Let_def)
  have q: "r div 4096 = r div 256 div 16" "r div 256 = r div 16 div 16"
    using zdiv_zmult2_eq [of 16 r 256] zdiv_zmult2_eq [of 16 r 16] by simp_all
  have "r div 4096 mod 16 = r div 4096" using assms by simp
  then have "((r div 4096 mod 16 * 16 + r div 256 mod 16) * 16 + r div 16 mod 16) * 16 + r mod 16 = r"
    unfolding q by (simp only: div_mult_mod_eq)
  moreover have "hex4_value (hex4 r @ s) =
      Some (((r div 4096 mod 16 * 16 + r div 256 mod 16) * 16 + r div 16 mod 16) * 16 + r mod 16)"
    by (simp add: h4 d)
  ultimately show ?thesis by (simp only:)
qed

lemma length_hex4 [simp]: "length (hex4 r) = 4"
  by (simp add: hex4_def)

lemma read_unicode_hex4:
  "0 \<le> r \<Longrightarrow> r < 65536 \<Longrightarrow> \<not> surrogate r \<Longrightarrow> read_unicode (hex4 r @ s) = Some (r, s)"
  by (simp add: read_unicode_def hex4_value_hex4)

text \<open>One escaped segment is read back as its rune.\<close>

lemma simple_escape_codes:
  "simple_escape (CHR 0x22) = Some 34" "simple_escape (CHR 0x5C) = Some 92" "simple_escape (CHR ''b'') = Some 8"
  "simple_escape (CHR ''f'') = Some 12" "simple_escape (CHR ''n'') = Some 10" "simple_escape (CHR ''r'') = Some 13"
  "simple_escape (CHR ''t'') = Some 9"
  by (simp_all add: simple_escape_def)

lemma read_simple:
  "e \<noteq> CHR ''u'' \<Longrightarrow> read_string (Suc n) (CHR 0x5C # e # s) =
    (case simple_escape e of None \<Rightarrow> None | Some r \<Rightarrow> map_option (apfst ((@) (encode_rune r))) (read_string n s))"
  by (simp split: option.split)

lemma read_escaped:
  "0 \<le> r \<Longrightarrow> r < 65536 \<Longrightarrow> \<not> surrogate r \<Longrightarrow>
    read_string (Suc n) (unicode_escape r @ s) = map_option (apfst ((@) (encode_rune r))) (read_string n s)"
  by (simp add: unicode_escape_def read_unicode_hex4)

lemma read_raw:
  assumes "decode_rune s = (r, w)" "s = c # t" "32 \<le> r" "r \<noteq> 34" "r \<noteq> 92" "w \<noteq> 1 \<or> r \<noteq> rune_error"
  shows "read_string (Suc n) s = map_option (apfst ((@) (encode_rune r))) (read_string n (drop w s))"
proof -
  have "byte_val c < 128 \<Longrightarrow> byte_val c = r" using assms(1,2) by (auto simp: decode_rune_def split: list.splits)
  then have "32 \<le> byte_val c" "byte_val c \<noteq> 34" "byte_val c \<noteq> 92" using assms(3-5) by linarith+
  then have "32 \<le> (of_char c :: int)" "c \<noteq> CHR 0x22" "c \<noteq> CHR 0x5C" by (auto simp: byte_val_def)
  with assms(1,2) show ?thesis by simp
qed

lemma read_seg:
  assumes "good_seg x"
  shows "read_string (Suc n) (escape_seg x @ s) = map_option (apfst ((@) (encode_rune (fst x)))) (read_string n s)"
proof -
  obtain r w where x: "x = (r, w)" by fastforce
  have v: "valid_rune r" using assms by (simp add: good_seg_def x)
  then have "0 \<le> r" by (simp add: valid_rune_def)
  have plain: "r \<in> {34, 92, 8, 12, 10, 13, 9} \<Longrightarrow> ?thesis"
    by (elim insertE emptyE; simp add: x escape_seg_def read_simple simple_escape_codes del: read_string.simps)
  have uni: ?thesis if "r \<notin> {34, 92, 8, 12, 10, 13, 9}"
    and u: "r < 32 \<or> r = 60 \<or> r = 62 \<or> r = 38 \<or> (r = rune_error \<and> length w = 1) \<or> r = 8232 \<or> r = 8233"
  proof -
    have "escape_seg x = unicode_escape r" using that by (auto simp: x escape_seg_def)
    moreover have "r < 65536" "\<not> surrogate r" using u by (auto simp: surrogate_def rune_error_def)
    ultimately show ?thesis using read_escaped [OF \<open>0 \<le> r\<close>] by (simp add: x del: read_string.simps)
  qed
  have raw: ?thesis if "r \<notin> {34, 92, 8, 12, 10, 13, 9}" "\<not> r < 32" "r \<notin> {60, 62, 38, 8232, 8233}"
      "\<not> (r = rune_error \<and> length w = 1)"
  proof -
    have w: "w = encode_rune r" using assms that(4) by (auto simp: good_seg_def x)
    then obtain c t where ct: "w @ s = c # t"
      by (metis append_is_Nil_conv encode_rune_not_Nil list.exhaust)
    have "escape_seg x = w" using that by (auto simp: x escape_seg_def)
    moreover have "decode_rune (w @ s) = (r, length w)" using decode_encode_rune [OF v] by (simp add: w)
    moreover have "drop (length w) (w @ s) = s" by simp
    moreover have "32 \<le> r" "r \<noteq> 34" "r \<noteq> 92" "length w \<noteq> 1 \<or> r \<noteq> rune_error" using that by auto
    ultimately show ?thesis using read_raw [OF _ ct, of r "length w" n] by (simp add: x del: read_string.simps)
  qed
  show ?thesis using plain uni raw by blast
qed

lemma read_segs:
  assumes "list_all good_seg xs" "length xs < n"
  shows "read_string n (concat (map escape_seg xs) @ CHR 0x22 # s) = Some (utf8_encode (map fst xs), s)"
  using assms
proof (induction xs arbitrary: n)
  case Nil
  then show ?case by (cases n) simp_all
next
  case (Cons x xs)
  then obtain m where m: "n = Suc m" "length xs < m" by (cases n) auto
  with Cons show ?case
    by (simp add: read_seg m(1) del: read_string.simps)
qed

lemma escape_seg_not_Nil: "good_seg x \<Longrightarrow> escape_seg x \<noteq> []"
  by (auto simp: escape_seg_def unicode_escape_def good_seg_def Let_def)

lemma length_escaped: "list_all good_seg xs \<Longrightarrow> length xs \<le> length (concat (map escape_seg xs))"
proof (induction xs)
  case (Cons x xs)
  then have "escape_seg x \<noteq> []" using escape_seg_not_Nil by simp
  with Cons show ?case by (cases "escape_seg x") simp_all
qed simp

text \<open>
  Reading the encoding of a string gives the string back, with \<^verbatim>\<open>U+FFFD\<close> for every
  invalid byte: nothing else is lost by \<^verbatim>\<open>json.Marshal\<close>.
\<close>

theorem read_json_string:
  "json_string s @ t = CHR 0x22 # u \<Longrightarrow> read_string (Suc (length u)) u = Some (utf8_encode (utf8_decode s), t)"
  using read_segs [OF good_segs, of s "Suc (length u)" t] length_escaped [OF good_segs, of s]
  by (auto simp: json_string_def utf8_decode_def)

end
