(* ===== verification/GoConv.thy ===== *)
theory GoConv
  imports GoJson
begin

text \<open>
  What the gateway uses of Go's \<^verbatim>\<open>strconv\<close>: \<^verbatim>\<open>ParseInt\<close> in base 10 (which is
  also \<^verbatim>\<open>Atoi\<close> on a 64-bit target), \<^verbatim>\<open>ParseBool\<close> and
  \<^verbatim>\<open>ParseFloat\<close>. An error is \<open>None\<close>; no caller looks at its text.
\<close>

section \<open>Integers and booleans\<close>

definition parse_digits64 :: "bool \<Rightarrow> bytes \<Rightarrow> int option" where
  "parse_digits64 neg ds =
     (if ds = [] \<or> \<not> list_all is_digit ds then None
      else (let v = (if neg then - int (digits_val ds) else int (digits_val ds))
            in if - (2 ^ 63) \<le> v \<and> v < 2 ^ 63 then Some v else None))"

definition parse_int64 :: "bytes \<Rightarrow> int option" where
  "parse_int64 s =
     (case s of
        [] \<Rightarrow> None
      | c # s' \<Rightarrow> if c = CHR ''+'' then parse_digits64 False s'
                  else if c = CHR ''-'' then parse_digits64 True s'
                  else parse_digits64 False s)"

definition parse_bool :: "bytes \<Rightarrow> bool option" where
  "parse_bool s =
     (if s \<in> set [''1'', ''t'', ''T'', ''TRUE'', ''true'', ''True''] then Some True
      else if s \<in> set [''0'', ''f'', ''F'', ''FALSE'', ''false'', ''False''] then Some False
      else None)"

lemma parse_int64_digits:
  "ds \<noteq> [] \<Longrightarrow> list_all is_digit ds \<Longrightarrow> digits_val ds < 2 ^ 63 \<Longrightarrow> parse_int64 ds = Some (int (digits_val ds))"
  by (cases ds) (auto simp: parse_int64_def parse_digits64_def is_digit_def)

section \<open>Floating-point numbers\<close>

text \<open>A sign at the head of a text.\<close>

definition split_sign :: "bytes \<Rightarrow> bool \<times> bytes" where
  "split_sign s =
     (case s of
        [] \<Rightarrow> (False, [])
      | c # t \<Rightarrow> if c = CHR ''-'' then (True, t) else if c = CHR ''+'' then (False, t) else (False, s))"

text \<open>The setting of bit 5 that the package uses as its ASCII lower case.\<close>

definition lower_byte :: "char \<Rightarrow> int" where
  "lower_byte c = (if even (byte_val c div 32) then byte_val c + 32 else byte_val c)"

definition is_letter :: "char \<Rightarrow> char \<Rightarrow> bool" where
  "is_letter l c \<longleftrightarrow> lower_byte c = byte_val l"

text \<open>
  The three spellings \<^verbatim>\<open>special\<close> accepts as whole texts; only the infinities take a sign.
\<close>

definition spells :: "string \<Rightarrow> bytes \<Rightarrow> bool" where
  "spells w s \<longleftrightarrow> list_all2 is_letter w s"

definition parse_special :: "bytes \<Rightarrow> f64 option" where
  "parse_special s =
     (case split_sign s of (neg, t) \<Rightarrow>
        if spells ''inf'' t \<or> spells ''infinity'' t then Some (if neg then NegInf else PosInf)
        else if spells ''nan'' s then Some NaN
        else None)"

text \<open>
  \<^verbatim>\<open>underscoreOK\<close>: an underscore stands between two digits, or after the base prefix. The
  first argument is what was seen last.
\<close>

datatype seen = Start | Digit | Underscore | Other

definition seen_digit :: "bool \<Rightarrow> char \<Rightarrow> bool" where
  "seen_digit hex c \<longleftrightarrow> is_digit c \<or> hex \<and> hex_value c \<noteq> None"

fun underscores_separate :: "bool \<Rightarrow> seen \<Rightarrow> bytes \<Rightarrow> bool" where
  "underscores_separate hex i [] \<longleftrightarrow> i \<noteq> Underscore"
| "underscores_separate hex i (c # s) \<longleftrightarrow>
     (if seen_digit hex c then underscores_separate hex Digit s
      else if c = CHR ''_'' then i = Digit \<and> underscores_separate hex Underscore s
      else i \<noteq> Underscore \<and> underscores_separate hex Other s)"

definition underscoreOK :: "bytes \<Rightarrow> bool" where
  "underscoreOK s0 =
     (let s = snd (split_sign s0)
      in case s of
           z # p # t \<Rightarrow>
             if z = CHR ''0'' \<and> (is_letter (CHR ''b'') p \<or> is_letter (CHR ''o'') p \<or> is_letter (CHR ''x'') p)
             then underscores_separate (is_letter (CHR ''x'') p) Digit t
             else underscores_separate False Start s
         | _ \<Rightarrow> underscores_separate False Start s)"

text \<open>
  The digits of the mantissa before and after the point, without their underscores, and the rest.
\<close>

definition mantissa_char :: "bool \<Rightarrow> char \<Rightarrow> bool" where
  "mantissa_char hex c \<longleftrightarrow> c = CHR ''_'' \<or> seen_digit hex c"

definition drop_underscores :: "bytes \<Rightarrow> bytes" where
  "drop_underscores = filter (\<lambda>c. c \<noteq> CHR ''_'')"

definition read_mantissa :: "bool \<Rightarrow> bytes \<Rightarrow> bytes \<times> bytes \<times> bytes" where
  "read_mantissa hex s =
     (let ip = takeWhile (mantissa_char hex) s; t = dropWhile (mantissa_char hex) s
      in case t of
           c # u \<Rightarrow>
             if c = CHR ''.''
             then (drop_underscores ip, drop_underscores (takeWhile (mantissa_char hex) u), dropWhile (mantissa_char hex) u)
             else (drop_underscores ip, [], t)
         | [] \<Rightarrow> (drop_underscores ip, [], []))"

text \<open>The exponent stops growing at 10000, as in the code.\<close>

definition exponent_val :: "bytes \<Rightarrow> int" where
  "exponent_val ds = foldl (\<lambda>e c. if e < 10000 then 10 * e + int (digit_val c) else e) 0 ds"

definition read_exponent :: "bytes \<Rightarrow> int option" where
  "read_exponent s =
     (case split_sign s of (neg, t) \<Rightarrow>
        if t = [] \<or> \<not> is_digit (hd t) \<or> \<not> list_all (mantissa_char False) t then None
        else Some (if neg then - exponent_val (drop_underscores t) else exponent_val (drop_underscores t)))"

definition read_tail :: "bool \<Rightarrow> bytes \<Rightarrow> int option" where
  "read_tail hex s =
     (case s of
        [] \<Rightarrow> if hex then None else Some 0
      | c # t \<Rightarrow> if is_letter (if hex then CHR ''p'' else CHR ''e'') c then read_exponent t else None)"

definition mantissa_val :: "bool \<Rightarrow> bytes \<Rightarrow> int" where
  "mantissa_val hex ds =
     foldl (\<lambda>acc c. (if hex then 16 else 10) * acc + (case hex_value c of Some v \<Rightarrow> v | None \<Rightarrow> 0)) 0 ds"

definition scaled :: "bool \<Rightarrow> int \<Rightarrow> int \<Rightarrow> nat \<Rightarrow> rat" where
  "scaled hex m e fd =
     (let b = (if hex then 2 else 10); k = e - (if hex then 4 else 1) * int fd
      in if 0 \<le> k then of_int m * b ^ nat k else of_int m / b ^ nat (- k))"

definition split_hex :: "bytes \<Rightarrow> bool \<times> bytes" where
  "split_hex s =
     (case s of
        z # x # t \<Rightarrow> if z = CHR ''0'' \<and> is_letter (CHR ''x'') x \<and> t \<noteq> [] then (True, t) else (False, s)
      | _ \<Rightarrow> (False, s))"

definition parse_number :: "bytes \<Rightarrow> f64 option" where
  "parse_number s =
     (case split_sign s of (neg, s1) \<Rightarrow>
      case split_hex s1 of (hex, s2) \<Rightarrow>
      case read_mantissa hex s2 of (ip, fp, s3) \<Rightarrow>
        if ip @ fp = [] \<or> (CHR ''_'' \<in> set s \<and> \<not> underscoreOK s) then None
        else case read_tail hex s3 of
          None \<Rightarrow> None
        | Some e \<Rightarrow>
            (let q = scaled hex (mantissa_val hex (ip @ fp)) e (length fp);
                 x = fround (if neg then - q else q)
             in if is_inf x then None else Some x))"

definition parse_float :: "bytes \<Rightarrow> f64 option" where
  "parse_float s = (case parse_special s of Some x \<Rightarrow> Some x | None \<Rightarrow> parse_number s)"

end
