(* ===== verification/Spool.thy ===== *)
theory Spool
  imports FileSys GoTime GoConv "HOL-Library.Word"
begin

text \<open>
  internal/spool/spool.go: the durable queue. The state is the struct \<^verbatim>\<open>Spool\<close> with the
  disk it works on and the list of hook calls it has made (\<open>events\<close>, oldest first). The
  immutable part of the struct is \<open>spool_cfg\<close>; the forward function and the permanence test
  are arguments. Each operation is a function from state to result and state; the critical
  sections and the disk operations between them are functions of their own, so that the model of
  concurrent use can interleave them.
\<close>

record spool_cfg =
  dir :: bytes
  maxDepth :: int
  fsyncEnabled :: bool

datatype spool_event =
    OnDelivered int
  | OnDead
  | OnFailed
  | OnDepth int
  | OnOldestPendingAge int
  | OnDirFsyncFailure

text \<open>\<open>oldestPendingAt\<close> is \<open>None\<close> for the zero time; \<open>wake\<close> tells whether the one-place
  channel holds a token.\<close>

record Spool =
  disk :: fs
  depth :: int
  seq :: "64 word"
  oldestPendingAt :: "instant option"
  wake :: bool
  dirFsyncFailures :: int
  events :: "spool_event list"

definition deadDirName :: bytes where "deadDirName = ''dead''"

definition dead_dir :: "spool_cfg \<Rightarrow> bytes" where
  "dead_dir c = dir c @ ''/'' @ deadDirName"

definition emit :: "spool_event \<Rightarrow> Spool \<Rightarrow> Spool" where
  "emit e s = s\<lparr>events := events s @ [e]\<rparr>"

definition on_disk :: "'a io \<Rightarrow> Spool \<Rightarrow> (goerr + 'a) \<times> Spool" where
  "on_disk act s = (case act (disk s) of (r, d) \<Rightarrow> (r, s\<lparr>disk := d\<rparr>))"

text \<open>A \<^verbatim>\<open>time.Duration\<close> is an \<^verbatim>\<open>int64\<close>: subtraction of instants saturates.\<close>

definition sub_time :: "instant \<Rightarrow> instant \<Rightarrow> int" where
  "sub_time t u = max (- (2 ^ 63)) (min (2 ^ 63 - 1) (t - u))"

section \<open>File names\<close>

text \<open>\<^verbatim>\<open>fmt.Sprintf("%020d-%06d.json", time.Now().UnixNano(), s.seq)\<close>\<close>

definition spool_name :: "instant \<Rightarrow> 64 word \<Rightarrow> bytes" where
  "spool_name now n = show_int_pad 20 now @ ''-'' @ show_pad 6 (unat n) @ ''.json''"

definition parseSpoolTime :: "bytes \<Rightarrow> instant option" where
  "parseSpoolTime name =
     (case index_byte name (CHR ''-'') of
        None \<Rightarrow> None
      | Some idx \<Rightarrow> if idx = 0 then None else parse_int64 (take idx name))"

text \<open>The argument is the value of \<^verbatim>\<open>SPOOL_FSYNC\<close>.\<close>

definition fsyncEnabledFromEnv :: "bytes \<Rightarrow> bool" where
  "fsyncEnabledFromEnv v =
     (if v = [] then True else case parse_bool v of None \<Rightarrow> True | Some enabled \<Rightarrow> enabled)"

section \<open>Bookkeeping\<close>

definition Depth :: "Spool \<Rightarrow> int" where
  [simp]: "Depth s = depth s"

definition MaxDepth :: "spool_cfg \<Rightarrow> int" where
  [simp]: "MaxDepth c = maxDepth c"

definition FsyncEnabled :: "spool_cfg \<Rightarrow> bool" where
  [simp]: "FsyncEnabled c = fsyncEnabled c"

definition DirFsyncFailures :: "Spool \<Rightarrow> int" where
  [simp]: "DirFsyncFailures s = dirFsyncFailures s"

definition reportDepth :: "Spool \<Rightarrow> Spool" where
  "reportDepth s = emit (OnDepth (Depth s)) s"

definition release :: "Spool \<Rightarrow> Spool" where
  "release s = (if 0 < depth s then s\<lparr>depth := depth s - 1\<rparr> else s)"

definition decDepth :: "Spool \<Rightarrow> Spool" where
  "decDepth s = reportDepth (release s)"

definition recordDirFsyncFailure :: "Spool \<Rightarrow> int \<times> Spool" where
  "recordDirFsyncFailure s = (dirFsyncFailures s + 1, s\<lparr>dirFsyncFailures := dirFsyncFailures s + 1\<rparr>)"

definition recordDirFsyncSuccess :: "Spool \<Rightarrow> Spool" where
  "recordDirFsyncSuccess s = s\<lparr>dirFsyncFailures := 0\<rparr>"

definition OldestPendingAge :: "Spool \<Rightarrow> instant \<Rightarrow> int \<times> bool" where
  "OldestPendingAge s now =
     (case oldestPendingAt s of None \<Rightarrow> (0, False) | Some t \<Rightarrow> (sub_time now t, True))"

text \<open>The enqueue time of the head of the listing, the Unix epoch when its name cannot be parsed.\<close>

definition oldest_of :: "bytes list \<Rightarrow> instant option" where
  "oldest_of pending =
     (case pending of [] \<Rightarrow> None
      | n # _ \<Rightarrow> (case parseSpoolTime n of Some p \<Rightarrow> Some p | None \<Rightarrow> Some 0))"

text \<open>The hook of \<^verbatim>\<open>updateOldestPending\<close>: the age of the head, or 0.\<close>

definition report_age :: "instant \<Rightarrow> instant option \<Rightarrow> Spool \<Rightarrow> Spool" where
  "report_age now t = emit (OnOldestPendingAge (case t of None \<Rightarrow> 0 | Some u \<Rightarrow> sub_time now u))"

definition updateOldestPending :: "instant \<Rightarrow> bytes list \<Rightarrow> Spool \<Rightarrow> Spool" where
  "updateOldestPending now pending s =
     (let t = oldest_of pending in report_age now t (s\<lparr>oldestPendingAt := t\<rparr>))"

definition is_pending_name :: "bytes \<Rightarrow> bool" where
  "is_pending_name n \<longleftrightarrow> has_suffix n ''.json''"

definition listPending :: "spool_cfg \<Rightarrow> bytes list io" where
  "listPending c s =
     (case os_read_dir (dir c) s of
        (Inl e, s') \<Rightarrow> (Inl (Wrapf ''failed to read spool dir'' e), s')
      | (Inr ns, s') \<Rightarrow> (Inr (sort (filter is_pending_name ns)), s'))"

section \<open>Opening\<close>

definition New :: "spool_cfg \<Rightarrow> instant \<Rightarrow> fs \<Rightarrow> (goerr + Spool) \<times> fs" where
  "New c now d =
     (case os_plain d of
        (Inl e, d1) \<Rightarrow> (Inl (Wrapf ''failed to create spool dir'' e), d1)
      | (Inr _, d1) \<Rightarrow>
          (case listPending c d1 of
             (Inl e, d2) \<Rightarrow> (Inl e, d2)
           | (Inr pending, d2) \<Rightarrow>
               (Inr (updateOldestPending now pending (reportDepth
                  \<lparr>disk = d2, depth = int (length pending), seq = 0, oldestPendingAt = None, wake = False,
                   dirFsyncFailures = 0, events = []\<rparr>)), d2)))"

section \<open>Enqueue\<close>

text \<open>The first critical section: the depth check, the reservation and the file name.\<close>

definition reserve :: "spool_cfg \<Rightarrow> instant \<Rightarrow> Spool \<Rightarrow> (goerr + bytes) \<times> Spool" where
  "reserve c now s =
     (if maxDepth c \<le> depth s then (Inl ErrFull, s)
      else (let s1 = s\<lparr>depth := depth s + 1, seq := seq s + 1\<rparr>
            in (Inr (spool_name now (seq s1)), s1)))"

definition tmp_path :: "spool_cfg \<Rightarrow> bytes \<Rightarrow> path" where
  "tmp_path c name = (dir c, name @ ''.tmp'')"

definition final_path :: "spool_cfg \<Rightarrow> bytes \<Rightarrow> path" where
  "final_path c name = (dir c, name)"

definition close_after :: "goerr \<Rightarrow> fs \<Rightarrow> (goerr + unit) \<times> fs" where
  "close_after e s = (Inl e, snd (os_plain s))"

definition sync_if :: "bool \<Rightarrow> inode \<Rightarrow> unit io" where
  "sync_if enabled f s = (if enabled then os_fsync f s else (Inr (), s))"

definition writeTempFile :: "spool_cfg \<Rightarrow> path \<Rightarrow> bytes \<Rightarrow> unit io" where
  "writeTempFile c tmp payload s =
     (case os_open_trunc tmp s of
        (Inl e, s1) \<Rightarrow> (Inl (Wrapf ''failed to create spool temp file'' e), s1)
      | (Inr f, s1) \<Rightarrow>
          (case os_write f payload s1 of
             (Inl e, s2) \<Rightarrow> close_after (Wrapf ''failed to write spool file'' e) s2
           | (Inr _, s2) \<Rightarrow>
               (case sync_if (fsyncEnabled c) f s2 of
                  (Inl e, s3) \<Rightarrow> close_after (Wrapf ''failed to fsync spool temp file'' e) s3
                | (Inr _, s3) \<Rightarrow>
                    (case os_plain s3 of
                       (Inl e, s4) \<Rightarrow> (Inl (Wrapf ''failed to close spool temp file'' e), s4)
                     | (Inr _, s4) \<Rightarrow> (Inr (), s4)))))"

text \<open>Undoing a reservation: the temp file is removed if it can be, the depth is given back.\<close>

definition abandon :: "spool_cfg \<Rightarrow> bytes \<Rightarrow> Spool \<Rightarrow> Spool" where
  "abandon c name s = decDepth (snd (on_disk (os_remove (tmp_path c name)) s))"

definition commit :: "spool_cfg \<Rightarrow> bytes \<Rightarrow> Spool \<Rightarrow> (goerr + unit) \<times> Spool" where
  "commit c name s =
     (case on_disk (os_rename (tmp_path c name) (final_path c name)) s of
        (Inl e, s1) \<Rightarrow> (Inl (Wrapf ''failed to commit spool file'' e), s1)
      | (Inr _, s1) \<Rightarrow> (Inr (), (reportDepth s1)\<lparr>wake := True\<rparr>))"

definition dir_sync :: "spool_cfg \<Rightarrow> Spool \<Rightarrow> gores \<times> Spool" where
  "dir_sync c s =
     (if \<not> fsyncEnabled c then (None, s)
      else case on_disk (Sync (dir c)) s of
        (Inl e, s1) \<Rightarrow>
          (case recordDirFsyncFailure s1 of (n, s2) \<Rightarrow>
             (Some (Wrapf (''failed to fsync spool directory (consecutive failures: '' @ show_int n @ '')'') e),
              emit OnDirFsyncFailure s2))
      | (Inr _, s1) \<Rightarrow> (None, recordDirFsyncSuccess s1))"

definition Enqueue :: "spool_cfg \<Rightarrow> instant \<Rightarrow> bytes \<Rightarrow> Spool \<Rightarrow> gores \<times> Spool" where
  "Enqueue c now payload s0 =
     (case reserve c now s0 of
        (Inl e, s1) \<Rightarrow> (Some e, s1)
      | (Inr name, s1) \<Rightarrow>
          (case on_disk (writeTempFile c (tmp_path c name) payload) s1 of
             (Inl e, s2) \<Rightarrow> (Some e, abandon c name s2)
           | (Inr _, s2) \<Rightarrow>
               (case commit c name s2 of
                  (Inl e, s3) \<Rightarrow> (Some e, abandon c name s3)
                | (Inr _, s3) \<Rightarrow> dir_sync c s3)))"

section \<open>Delivery\<close>

definition deadLetter :: "spool_cfg \<Rightarrow> bytes \<Rightarrow> Spool \<Rightarrow> bool \<times> Spool" where
  "deadLetter c name s =
     (case on_disk (os_rename (dir c, name) (dead_dir c, name)) s of
        (Inl _, s1) \<Rightarrow> (False, s1)
      | (Inr _, s1) \<Rightarrow> (True, emit OnDead (decDepth s1)))"

text \<open>
  \<^verbatim>\<open>forwardOldest\<close>, with the destination as a state \<open>w\<close> of its own: \<open>forward\<close> delivers a
  payload, \<open>onDead\<close> is what the \<^verbatim>\<open>OnDead\<close> hook does to the destination's state. The result
  is \<^verbatim>\<open>(progressed, err)\<close>.
\<close>

definition dead_letter_with :: "spool_cfg \<Rightarrow> ('w \<Rightarrow> 'w) \<Rightarrow> bytes \<Rightarrow> Spool \<Rightarrow> 'w \<Rightarrow> (bool \<times> gores) \<times> Spool \<times> 'w" where
  "dead_letter_with c onDead name s w =
     (case deadLetter c name s of (moved, s1) \<Rightarrow> ((True, None), s1, if moved then onDead w else w))"

definition report_delivered :: "instant \<Rightarrow> bytes \<Rightarrow> Spool \<Rightarrow> Spool" where
  "report_delivered now name =
     emit (OnDelivered (case parseSpoolTime name of None \<Rightarrow> 0 | Some t \<Rightarrow> sub_time now t))"

definition finish_delivery :: "spool_cfg \<Rightarrow> instant \<Rightarrow> bytes \<Rightarrow> Spool \<Rightarrow> Spool" where
  "finish_delivery c now name s =
     report_delivered now name (decDepth (snd (on_disk (os_remove (dir c, name)) s)))"

definition forward_head ::
  "spool_cfg \<Rightarrow> (goerr \<Rightarrow> bool) \<Rightarrow> (bytes \<Rightarrow> 'w \<Rightarrow> gores \<times> 'w) \<Rightarrow> ('w \<Rightarrow> 'w) \<Rightarrow> instant \<Rightarrow> bytes
    \<Rightarrow> Spool \<Rightarrow> 'w \<Rightarrow> (bool \<times> gores) \<times> Spool \<times> 'w" where
  "forward_head c isPermanent forward onDead now name s w =
     (case on_disk (os_read_file (dir c, name)) s of
        (Inl e, s1) \<Rightarrow> dead_letter_with c onDead name s1 w
      | (Inr payload, s1) \<Rightarrow>
          (case forward payload w of
             (Some e, w1) \<Rightarrow>
               if isPermanent e then dead_letter_with c onDead name s1 w1
               else ((False, Some e), emit OnFailed s1, w1)
           | (None, w1) \<Rightarrow> ((True, None), finish_delivery c now name s1, w1)))"

definition forwardOldest ::
  "spool_cfg \<Rightarrow> (goerr \<Rightarrow> bool) \<Rightarrow> (bytes \<Rightarrow> 'w \<Rightarrow> gores \<times> 'w) \<Rightarrow> ('w \<Rightarrow> 'w) \<Rightarrow> instant
    \<Rightarrow> Spool \<Rightarrow> 'w \<Rightarrow> (bool \<times> gores) \<times> Spool \<times> 'w" where
  "forwardOldest c isPermanent forward onDead now s w =
     (case on_disk (listPending c) s of
        (Inl e, s1) \<Rightarrow> ((False, Some e), s1, w)
      | (Inr pending, s1) \<Rightarrow>
          (let s2 = updateOldestPending now pending s1
           in case pending of
                [] \<Rightarrow> ((False, None), s2, w)
              | name # _ \<Rightarrow> forward_head c isPermanent forward onDead now name s2 w))"

section \<open>The delivery loop\<close>

text \<open>What \<^verbatim>\<open>Run\<close> does between two attempts, and the backoff it carries on with.\<close>

datatype pause = NoPause | AwaitWork int | AwaitBackoff int

definition second :: int where "second = 1000000000"
definition maxBackoff :: int where "maxBackoff = 30 * second"

definition run_pause :: "bool \<times> gores \<Rightarrow> int \<Rightarrow> pause \<times> int" where
  "run_pause res backoff =
     (case res of
        (True, _) \<Rightarrow> (NoPause, second)
      | (False, None) \<Rightarrow> (AwaitWork (2 * second), backoff)
      | (False, Some e) \<Rightarrow>
          (AwaitBackoff backoff, if maxBackoff < backoff * 2 then maxBackoff else backoff * 2))"

text \<open>One turn of the loop of \<^verbatim>\<open>Run\<close>, and any number of them with the times of the turns given.\<close>

definition run_turn ::
  "spool_cfg \<Rightarrow> (goerr \<Rightarrow> bool) \<Rightarrow> (bytes \<Rightarrow> 'w \<Rightarrow> gores \<times> 'w) \<Rightarrow> ('w \<Rightarrow> 'w) \<Rightarrow> instant
    \<Rightarrow> int \<times> Spool \<times> 'w \<Rightarrow> pause \<times> int \<times> Spool \<times> 'w" where
  "run_turn c isPermanent forward onDead now st =
     (case st of (backoff, s, w) \<Rightarrow>
      case forwardOldest c isPermanent forward onDead now s w of (res, s1, w1) \<Rightarrow>
      case run_pause res backoff of (p, b) \<Rightarrow>
        (p, b, (case p of AwaitWork _ \<Rightarrow> s1\<lparr>wake := False\<rparr> | _ \<Rightarrow> s1), w1))"

fun Run ::
  "spool_cfg \<Rightarrow> (goerr \<Rightarrow> bool) \<Rightarrow> (bytes \<Rightarrow> 'w \<Rightarrow> gores \<times> 'w) \<Rightarrow> ('w \<Rightarrow> 'w) \<Rightarrow> instant list
    \<Rightarrow> int \<times> Spool \<times> 'w \<Rightarrow> pause list \<times> int \<times> Spool \<times> 'w" where
  "Run c isPermanent forward onDead [] st = ([], st)"
| "Run c isPermanent forward onDead (now # nows) st =
     (case run_turn c isPermanent forward onDead now st of (p, st1) \<Rightarrow>
      case Run c isPermanent forward onDead nows st1 of (ps, st2) \<Rightarrow> (p # ps, st2))"

section \<open>Laws of file names\<close>

lemma show_int_pad_nonneg: "0 \<le> t \<Longrightarrow> show_int_pad w t = show_pad w (nat t)"
  by (simp add: show_int_pad_def)

lemma spool_name_nonneg: "0 \<le> t \<Longrightarrow> spool_name t n = show_pad 20 (nat t) @ ''-'' @ show_pad 6 (unat n) @ ''.json''"
  by (simp add: spool_name_def show_int_pad_nonneg)

lemma time_digits_length: "0 \<le> t \<Longrightarrow> t < 10 ^ 20 \<Longrightarrow> length (show_pad 20 (nat t)) = 20"
  by (rule length_show_pad) (simp_all add: nat_less_iff)

lemma spool_name_less_time:
  assumes "0 \<le> t" "t < u" "u < 10 ^ 20"
  shows "spool_name t m < spool_name u n"
proof -
  have l: "length (show_pad 20 (nat t)) = length (show_pad 20 (nat u))"
    using assms time_digits_length [of t] time_digits_length [of u] by simp
  have "show_pad 20 (nat t) < show_pad 20 (nat u)"
    using assms digits_less_iff [OF l] by simp
  then show ?thesis using assms append_less_iff [OF l] by (simp add: spool_name_nonneg)
qed

lemma spool_name_less_seq:
  assumes "0 \<le> t" "m < n" "unat n < 10 ^ 6"
  shows "spool_name t m < spool_name t n"
proof -
  have mn: "unat m < unat n" using assms(2) by (simp add: word_less_nat_alt)
  with assms(3) have l: "length (show_pad 6 (unat m)) = length (show_pad 6 (unat n))"
    by (simp add: length_show_pad)
  have "show_pad 6 (unat m) < show_pad 6 (unat n)" using mn digits_less_iff [OF l] by simp
  then have "show_pad 6 (unat m) @ ''.json'' < show_pad 6 (unat n) @ ''.json''"
    using append_less_iff [OF l, of "''.json''" "''.json''"] by blast
  then have "''-'' @ show_pad 6 (unat m) @ ''.json'' < ''-'' @ show_pad 6 (unat n) @ ''.json''" by simp
  with append_less_iff [OF refl, of "show_pad 20 (nat t)"] assms(1) show ?thesis
    by (simp add: spool_name_nonneg)
qed

lemma dash_not_digit: "CHR ''-'' \<notin> set (show_pad w n)"
  using show_pad_digits [of w n] by (auto simp: list_all_iff is_digit_def)

lemma spool_name_inj:
  assumes "0 \<le> t" "0 \<le> u"
  shows "spool_name t m = spool_name u n \<longleftrightarrow> t = u \<and> m = n"
proof
  assume eq: "spool_name t m = spool_name u n"
  have tw: "takeWhile (\<lambda>c. c \<noteq> CHR ''-'') (spool_name t m) = show_pad 20 (nat t)" if "0 \<le> t" for t m
    using dash_not_digit that unfolding spool_name_nonneg [OF that]
    by (subst takeWhile_append2) auto
  from eq tw [OF assms(1), of m] tw [OF assms(2), of n] have t: "show_pad 20 (nat t) = show_pad 20 (nat u)" by simp
  then have "nat t = nat u" by simp
  with assms have "t = u" by simp
  moreover from eq assms t have "show_pad 6 (unat m) = show_pad 6 (unat n)" by (simp add: spool_name_nonneg)
  then have "m = n" by (simp add: word_unat_eq_iff)
  ultimately show "t = u \<and> m = n" by simp
qed simp

lemma index_byte_spool_name: "0 \<le> t \<Longrightarrow> index_byte (spool_name t n) (CHR ''-'') = Some (length (show_pad 20 (nat t)))"
  using index_byte_append [OF dash_not_digit, of 20 "nat t"] by (simp add: spool_name_nonneg)

lemma parseSpoolTime_spool_name:
  assumes "0 \<le> t" "t < 2 ^ 63"
  shows "parseSpoolTime (spool_name t n) = Some t"
proof -
  have "nat t < 2 ^ 63" using assms by (simp add: nat_less_iff)
  then have "parse_int64 (show_pad 20 (nat t)) = Some t"
    using assms by (subst parse_int64_digits) auto
  moreover have "take (length (show_pad 20 (nat t))) (spool_name t n) = show_pad 20 (nat t)"
    using assms(1) by (simp add: spool_name_nonneg)
  moreover have "length (show_pad 20 (nat t)) \<noteq> 0" by simp
  ultimately show ?thesis using assms(1) by (simp add: parseSpoolTime_def index_byte_spool_name)
qed

lemma spool_name_pending [simp]: "is_pending_name (spool_name t n)"
  unfolding is_pending_name_def spool_name_def by (metis append.assoc has_suffix_append)

lemma tmp_not_pending [simp]: "\<not> is_pending_name (n @ ''.tmp'')"
  by (simp add: is_pending_name_def has_suffix_def)

section \<open>Laws of writing the temp file\<close>

lemma writeTempFile_touches: "touches {tmp} s (snd (writeTempFile c tmp payload s))"
proof -
  obtain r1 s1 where 1: "os_open_trunc tmp s = (r1, s1)" by fastforce
  have t1: "touches {tmp} s s1" using touches_calls(3) [of tmp s] 1 by simp
  show ?thesis
  proof (cases r1)
    case (Inl e)
    then show ?thesis using t1 by (simp add: writeTempFile_def 1)
  next
    case (Inr f)
    show ?thesis
      unfolding touches_def
    proof (rule impI)
      assume wf: "wf_fs s"
      have l: "lookup_path s1 tmp = Some f" using os_open_trunc_ok [OF 1 [unfolded Inr] wf] by simp
      obtain r2 s2 where 2: "os_write f payload s1 = (r2, s2)" by fastforce
      have t2: "touches {tmp} s1 s2" using touches_write [OF l, of payload] 2 by simp
      have cl: "touches {tmp} s' (snd (os_plain s'))" for s'
        using touches_mono [OF touches_calls(5)] by simp
      obtain r3 s3 where 3: "sync_if (fsyncEnabled c) f s2 = (r3, s3)" by fastforce
      have t3: "touches {tmp} s2 s3"
        using touches_mono [OF touches_calls(4) [of s2 f]] 3 by (auto simp: sync_if_def split: if_splits)
      note t12 = touches_trans [OF t1 t2] and t123 = touches_trans [OF touches_trans [OF t1 t2] t3]
      have "touches {tmp} s (snd (writeTempFile c tmp payload s))"
        using touches_trans [OF t12 cl [of s2]] touches_trans [OF t123 cl [of s3]]
        by (cases r2; cases r3; cases "os_plain s3")
          (simp_all add: writeTempFile_def 1 Inr 2 3 close_after_def split: sum.split)
      with wf show "wf_fs (snd (writeTempFile c tmp payload s)) \<and>
          (\<forall>q. q \<notin> {tmp} \<longrightarrow> unaffected q s (snd (writeTempFile c tmp payload s)))"
        by (simp add: touches_def)
    qed
  qed
qed

lemma writeTempFile_ok:
  assumes "writeTempFile c tmp payload s = (Inr u, s')" "wf_fs s"
  shows "\<exists>i. lookup_path s' tmp = Some i \<and> fs_data s' i = payload \<and> (fsyncEnabled c \<longrightarrow> fs_stable s' i = payload)"
proof -
  obtain f s1 where 1: "os_open_trunc tmp s = (Inr f, s1)"
    using assms(1) by (auto simp: writeTempFile_def split: sum.splits prod.splits)
  obtain s2 where 2: "os_write f payload s1 = (Inr (), s2)"
    using assms(1) by (auto simp: writeTempFile_def 1 close_after_def split: sum.splits prod.splits)
  obtain s3 where 3: "sync_if (fsyncEnabled c) f s2 = (Inr (), s3)"
    and 4: "s' = snd (os_plain s3)"
    using assms(1) by (auto simp: writeTempFile_def 1 2 close_after_def split: sum.splits prod.splits if_splits)
  note o = os_open_trunc_ok [OF 1 assms(2)]
  have s2: "s2 = append_data f payload (pop_fault s1)" using os_write_ok [OF 2] .
  have "s' = pop_fault s3" using os_plain_ok [of s3] 4 by (metis prod.collapse)
  then show ?thesis
    using o 3 os_fsync_ok [of f s2 "()" s3] by (auto simp: s2 append_data_def sync_if_def split: if_splits)
qed

end
