(* ===== verification/SpoolLaws.thy ===== *)
theory SpoolLaws
  imports Spool
begin

text \<open>
  The abstract queue behind internal/spool (names mapped to payloads), what each operation does to
  it on every branch, and the properties of the spool: durability of an acknowledged signal,
  oldest-first order, conservation of signals, the depth counter and the backoff.
\<close>

section \<open>The abstract queue\<close>

definition queue_of :: "spool_cfg \<Rightarrow> fs \<Rightarrow> bytes \<rightharpoonup> bytes" where
  "queue_of c d n = (if is_pending_name n then file_content d (dir c, n) else None)"

definition dead_of :: "spool_cfg \<Rightarrow> fs \<Rightarrow> bytes \<rightharpoonup> bytes" where
  "dead_of c d n = file_content d (dead_dir c, n)"

lemma dead_dir_neq [simp]: "dead_dir c \<noteq> dir c" "dir c \<noteq> dead_dir c"
  by (simp_all add: dead_dir_def deadDirName_def)

lemma queue_touches:
  assumes "touches P d d'" "wf_fs d" "\<And>n. is_pending_name n \<Longrightarrow> (dir c, n) \<notin> P"
  shows "queue_of c d' = queue_of c d"
proof
  fix n
  show "queue_of c d' n = queue_of c d n"
    using touches_unaffected [OF assms(1,2) assms(3), of n] unaffected_content
    by (auto simp: queue_of_def)
qed

lemma dead_touches:
  assumes "touches P d d'" "wf_fs d" "\<And>n. (dead_dir c, n) \<notin> P"
  shows "dead_of c d' = dead_of c d"
  using touches_unaffected [OF assms(1,2) assms(3)] unaffected_content by (auto simp: dead_of_def fun_eq_iff)

lemma queue_pop_fault [simp]: "queue_of c (pop_fault d) = queue_of c d"
  by (simp add: queue_of_def fun_eq_iff)

lemma dead_pop_fault [simp]: "dead_of c (pop_fault d) = dead_of c d"
  by (simp add: dead_of_def fun_eq_iff)

lemma content_set_entry: "file_content (set_entry q i d) p = (if p = q then Some (fs_data d i) else file_content d p)"
  by (simp add: file_content_def)

lemma content_del_entry: "file_content (del_entry q d) p = (if p = q then None else file_content d p)"
  by (simp add: file_content_def)

lemma tmp_path_neq: "tmp_path c name \<noteq> final_path c name"
  by (simp add: tmp_path_def final_path_def)

lemma pending_not_tmp: "is_pending_name n \<Longrightarrow> (dir c, n) \<noteq> tmp_path c name"
  by (auto simp: tmp_path_def)

section \<open>Selectors under the bookkeeping operations\<close>

lemma on_disk_simps [simp]:
  "disk (snd (on_disk act s)) = snd (act (disk s))" "fst (on_disk act s) = fst (act (disk s))"
  "depth (snd (on_disk act s)) = depth s" "seq (snd (on_disk act s)) = seq s"
  "events (snd (on_disk act s)) = events s" "dirFsyncFailures (snd (on_disk act s)) = dirFsyncFailures s"
  by (simp_all add: on_disk_def split: prod.split)

lemma on_disk_eq: "on_disk act s = (r, t) \<longleftrightarrow> (\<exists>d. act (disk s) = (r, d) \<and> t = s\<lparr>disk := d\<rparr>)"
  by (auto simp: on_disk_def split: prod.split)

lemma bookkeeping_simps [simp]:
  "disk (emit e s) = disk s" "depth (emit e s) = depth s" "seq (emit e s) = seq s"
  "disk (reportDepth s) = disk s" "depth (reportDepth s) = depth s" "seq (reportDepth s) = seq s"
  "disk (release s) = disk s" "seq (release s) = seq s"
  "depth (release s) = (if 0 < depth s then depth s - 1 else depth s)"
  "disk (report_age now t s) = disk s" "seq (report_age now t s) = seq s" "depth (report_age now t s) = depth s"
  "disk (report_delivered now n s) = disk s" "seq (report_delivered now n s) = seq s"
  "depth (report_delivered now n s) = depth s"
  "disk (decDepth s) = disk s" "seq (decDepth s) = seq s"
  "depth (decDepth s) = (if 0 < depth s then depth s - 1 else depth s)"
  "disk (updateOldestPending now ps s) = disk s" "depth (updateOldestPending now ps s) = depth s"
  "seq (updateOldestPending now ps s) = seq s"
  "disk (recordDirFsyncSuccess s) = disk s" "depth (recordDirFsyncSuccess s) = depth s"
  "disk (snd (recordDirFsyncFailure s)) = disk s" "depth (snd (recordDirFsyncFailure s)) = depth s"
  by (simp_all add: emit_def reportDepth_def decDepth_def release_def updateOldestPending_def report_age_def
      report_delivered_def Let_def
      recordDirFsyncSuccess_def recordDirFsyncFailure_def)

lemma abandon_simps [simp]:
  "disk (abandon c name s) = snd (os_remove (tmp_path c name) (disk s))"
  "depth (abandon c name s) = (if 0 < depth s then depth s - 1 else depth s)"
  by (simp_all add: abandon_def)

lemma reserve_cases:
  "(reserve c now s = (Inl ErrFull, s) \<and> maxDepth c \<le> depth s) \<or>
   (reserve c now s = (Inr (spool_name now (seq s + 1)), s\<lparr>depth := depth s + 1, seq := seq s + 1\<rparr>)
     \<and> depth s < maxDepth c)"
  by (auto simp: reserve_def Let_def)

section \<open>Outcomes of Enqueue\<close>

lemma commit_ok:
  assumes "commit c name s = (Inr u, s')" "wf_fs (disk s)" "lookup_path (disk s) (tmp_path c name) = Some i"
  shows "lookup_path (disk s') (final_path c name) = Some i" "fs_data (disk s') = fs_data (disk s)"
    "fs_stable (disk s') = fs_stable (disk s)" "touches {tmp_path c name, final_path c name} (disk s) (disk s')"
    "depth s' = depth s" "dead_of c (disk s') = dead_of c (disk s)"
    "is_pending_name name \<Longrightarrow> queue_of c (disk s') = (queue_of c (disk s))(name \<mapsto> fs_data (disk s) i)"
proof -
  obtain u d where r: "os_rename (tmp_path c name) (final_path c name) (disk s) = (Inr u, d)"
    and s': "s' = (reportDepth (s\<lparr>disk := d\<rparr>))\<lparr>wake := True\<rparr>"
    using assms(1) by (auto simp: commit_def on_disk_def split: sum.splits prod.splits)
  have d: "d = del_entry (tmp_path c name) (set_entry (final_path c name) i (pop_fault (disk s)))"
    using os_rename_ok [OF r tmp_path_neq] assms(3) by auto
  have ds: "disk s' = d" by (simp add: s')
  show "lookup_path (disk s') (final_path c name) = Some i"
    using tmp_path_neq [of c name] by (simp add: ds d)
  show "fs_data (disk s') = fs_data (disk s)" "fs_stable (disk s') = fs_stable (disk s)" by (simp_all add: ds d)
  show "depth s' = depth s" by (simp add: s')
  show "touches {tmp_path c name, final_path c name} (disk s) (disk s')"
    using touches_calls(6) [of "tmp_path c name" "final_path c name" "disk s"] r by (simp add: ds)
  show "dead_of c (disk s') = dead_of c (disk s)"
    by (simp add: ds d dead_of_def fun_eq_iff content_set_entry content_del_entry tmp_path_def final_path_def)
  show "queue_of c (disk s') = (queue_of c (disk s))(name \<mapsto> fs_data (disk s) i)" if "is_pending_name name"
    using that pending_not_tmp
    by (auto simp: ds d queue_of_def fun_eq_iff content_set_entry content_del_entry final_path_def)
qed

lemma commit_err:
  "commit c name s = (Inl e, s') \<Longrightarrow> s' = s\<lparr>disk := pop_fault (disk s)\<rparr> \<and> \<not> errors_is_full e"
  by (auto simp: commit_def on_disk_def os_rename_def syscall_def enoent_def
      split: sum.splits prod.splits fault.splits option.splits)

lemma not_full_calls:
  "os_open_trunc p d = (Inl e, d') \<Longrightarrow> \<not> errors_is_full e"
  "os_write i b d = (Inl e, d') \<Longrightarrow> \<not> errors_is_full e"
  "os_fsync i d = (Inl e, d') \<Longrightarrow> \<not> errors_is_full e"
  "os_plain d = (Inl e, d') \<Longrightarrow> \<not> errors_is_full e"
  "os_fsync_dir p1 d = (Inl e, d') \<Longrightarrow> \<not> errors_is_full e"
  by (auto simp: os_open_trunc_def os_write_def os_fsync_def os_plain_def os_fsync_dir_def syscall_def
      split: fault.splits option.splits prod.splits)

lemma writeTempFile_not_full: "writeTempFile c p b d = (Inl e, d') \<Longrightarrow> \<not> errors_is_full e"
  by (auto simp: writeTempFile_def close_after_def sync_if_def dest: not_full_calls
      split: sum.splits prod.splits if_splits)

lemma Sync_not_full: "Sync p d = (Inl e, d') \<Longrightarrow> \<not> errors_is_full e"
  by (auto simp: Sync_def dest: not_full_calls split: sum.splits prod.splits)

lemma dir_sync_facts:
  assumes "dir_sync c s = (r, s')" "wf_fs (disk s)"
  shows "touches {} (disk s) (disk s')" "depth s' = depth s" "\<And>e. r = Some e \<Longrightarrow> \<not> errors_is_full e"
    "\<And>n i. fsyncEnabled c \<Longrightarrow> r = None \<Longrightarrow> lookup_path (disk s) (dir c, n) = Some i \<Longrightarrow> durable_file (disk s') (dir c, n) i"
proof -
  show "touches {} (disk s) (disk s')"
    using assms(1) touches_Sync [of "disk s" "dir c"]
    by (auto simp: dir_sync_def on_disk_def recordDirFsyncFailure_def split: if_splits sum.splits prod.splits)
  show "depth s' = depth s"
    using assms(1)
    by (auto simp: dir_sync_def on_disk_def recordDirFsyncFailure_def split: if_splits sum.splits prod.splits)
  show "\<not> errors_is_full e" if "r = Some e" for e
    using assms(1) that
    by (auto simp: dir_sync_def on_disk_def recordDirFsyncFailure_def dest: Sync_not_full
        split: if_splits sum.splits prod.splits)
  show "durable_file (disk s') (dir c, n) i"
    if "fsyncEnabled c" "r = None" "lookup_path (disk s) (dir c, n) = Some i" for n i
    using assms(1) that Sync_ok_durable [OF _ assms(2) that(3)]
    by (auto simp: dir_sync_def on_disk_def recordDirFsyncFailure_def split: if_splits sum.splits prod.splits)
qed

text \<open>
  The three outcomes of \<^verbatim>\<open>Enqueue\<close>: refused without a trace, abandoned with queue and depth as
  before, or committed under the reserved name.
\<close>

definition enq_refused :: "spool_cfg \<Rightarrow> Spool \<Rightarrow> gores \<Rightarrow> Spool \<Rightarrow> bool" where
  "enq_refused c s r s' \<longleftrightarrow> maxDepth c \<le> depth s \<and> r = Some ErrFull \<and> s' = s"

definition enq_abandoned :: "spool_cfg \<Rightarrow> Spool \<Rightarrow> gores \<Rightarrow> Spool \<Rightarrow> bool" where
  "enq_abandoned c s r s' \<longleftrightarrow> depth s < maxDepth c \<and> depth s' = depth s \<and> queue_of c (disk s') = queue_of c (disk s)
     \<and> (\<exists>e. r = Some e \<and> \<not> errors_is_full e)"

definition enq_committed :: "spool_cfg \<Rightarrow> bytes \<Rightarrow> bytes \<Rightarrow> Spool \<Rightarrow> gores \<Rightarrow> Spool \<Rightarrow> bool" where
  "enq_committed c name payload s r s' \<longleftrightarrow> depth s < maxDepth c \<and> depth s' = depth s + 1
     \<and> queue_of c (disk s') = (queue_of c (disk s))(name \<mapsto> payload)
     \<and> (\<forall>e. r = Some e \<longrightarrow> \<not> errors_is_full e)
     \<and> (fsyncEnabled c \<longrightarrow> r = None \<longrightarrow>
          (\<exists>i. durable_file (disk s') (final_path c name) i \<and> fs_data (disk s') i = payload \<and> fs_stable (disk s') i = payload))"

lemma abandon_outcome:
  assumes "wf_fs (disk s)" "touches {tmp_path c name} (disk s) (disk t)" "depth t = depth s + 1" "0 \<le> depth s"
  shows "wf_fs (disk (abandon c name t))" "dead_of c (disk (abandon c name t)) = dead_of c (disk s)"
    "depth (abandon c name t) = depth s" "queue_of c (disk (abandon c name t)) = queue_of c (disk s)"
proof -
  have t: "touches {tmp_path c name} (disk s) (disk (abandon c name t))"
    using touches_trans [OF assms(2) touches_calls(7)] by simp
  from touches_wf [OF t assms(1)] show "wf_fs (disk (abandon c name t))" .
  show "queue_of c (disk (abandon c name t)) = queue_of c (disk s)"
    using pending_not_tmp by (intro queue_touches [OF t assms(1)]) auto
  show "dead_of c (disk (abandon c name t)) = dead_of c (disk s)"
    by (intro dead_touches [OF t assms(1)]) (simp add: tmp_path_def)
  show "depth (abandon c name t) = depth s" using assms(3,4) by simp
qed

lemma Enqueue_outcome:
  assumes "Enqueue c now payload s = (r, s')" "wf_fs (disk s)" "0 \<le> depth s"
  shows "wf_fs (disk s') \<and> 0 \<le> depth s' \<and> dead_of c (disk s') = dead_of c (disk s) \<and>
    (enq_refused c s r s' \<or> enq_abandoned c s r s' \<or> enq_committed c (spool_name now (seq s + 1)) payload s r s')"
proof (cases "maxDepth c \<le> depth s")
  case True
  then have "r = Some ErrFull" "s' = s" using assms(1) by (auto simp: Enqueue_def reserve_def)
  with True assms(2,3) show ?thesis by (simp add: enq_refused_def)
next
  case False
  define name where "name = spool_name now (seq s + 1)"
  define s1 where "s1 = s\<lparr>depth := depth s + 1, seq := seq s + 1\<rparr>"
  have res: "reserve c now s = (Inr name, s1)" using False by (simp add: reserve_def Let_def s1_def name_def)
  obtain r2 d2 where w: "writeTempFile c (tmp_path c name) payload (disk s) = (r2, d2)" by fastforce
  define s2 where "s2 = s1\<lparr>disk := d2\<rparr>"
  have w': "on_disk (writeTempFile c (tmp_path c name) payload) s1 = (r2, s2)"
    using w by (simp add: on_disk_def s1_def s2_def)
  have s2d: "disk s2 = d2" "depth s2 = depth s + 1" by (simp_all add: s2_def s1_def)
  have t2: "touches {tmp_path c name} (disk s) (disk s2)"
    using writeTempFile_touches [of "tmp_path c name" "disk s" c payload] w by (simp add: s2d)
  note wf2 = touches_wf [OF t2 assms(2)]
  show ?thesis
  proof (cases r2)
    case (Inl e)
    then have "r = Some e" "s' = abandon c name s2" using assms(1) by (simp_all add: Enqueue_def res w')
    with abandon_outcome [OF assms(2) t2 s2d(2) assms(3)] assms(3) writeTempFile_not_full [OF w [unfolded Inl]] False
    show ?thesis by (simp add: enq_abandoned_def)
  next
    case (Inr u)
    obtain i where i: "lookup_path (disk s2) (tmp_path c name) = Some i" "fs_data (disk s2) i = payload"
        "fsyncEnabled c \<longrightarrow> fs_stable (disk s2) i = payload"
      using writeTempFile_ok [OF w [unfolded Inr] assms(2)] by (auto simp: s2d)
    obtain r3 s3 where 3: "commit c name s2 = (r3, s3)" by fastforce
    show ?thesis
    proof (cases r3)
      case (Inl e)
      then have r: "r = Some e" "s' = abandon c name s3" using assms(1) by (simp_all add: Enqueue_def res w' Inr 3)
      have e: "s3 = s2\<lparr>disk := pop_fault (disk s2)\<rparr>" "\<not> errors_is_full e" using commit_err [OF 3 [unfolded Inl]] by auto
      have t3: "touches {tmp_path c name} (disk s) (disk s3)" using touches_trans [OF t2 touches_pop_fault] by (simp add: e)
      have "depth s3 = depth s + 1" by (simp add: e s2d)
      from abandon_outcome [OF assms(2) t3 this assms(3)] assms(3) e(2) False show ?thesis
        by (simp add: enq_abandoned_def r)
    next
      case (Inr u')
      note k = commit_ok [OF 3 [unfolded Inr] wf2 i(1)]
      have r: "dir_sync c s3 = (r, s')" using assms(1) by (simp add: Enqueue_def res w' \<open>r2 = Inr u\<close> 3 Inr)
      have wf3: "wf_fs (disk s3)" using touches_wf [OF k(4) wf2] .
      note f = dir_sync_facts [OF r wf3]
      have wf': "wf_fs (disk s')" using touches_wf [OF f(1) wf3] .
      have q2: "queue_of c (disk s2) = queue_of c (disk s)"
        using pending_not_tmp by (intro queue_touches [OF t2 assms(2)]) auto
      have q': "queue_of c (disk s') = queue_of c (disk s3)" by (rule queue_touches [OF f(1) wf3]) simp
      have d: "dead_of c (disk s') = dead_of c (disk s)"
        using dead_touches [OF f(1) wf3] k(6) dead_touches [OF t2 assms(2)] by (simp add: tmp_path_def)
      have "unaffected (final_path c name) (disk s3) (disk s')"
        using touches_unaffected [OF f(1) wf3] by simp
      then have "fs_data (disk s') i = payload \<and> (fsyncEnabled c \<longrightarrow> fs_stable (disk s') i = payload)"
        using k(1-3) i by (auto simp: unaffected_def)
      then have "fsyncEnabled c \<longrightarrow> r = None \<longrightarrow>
          (\<exists>i. durable_file (disk s') (final_path c name) i \<and> fs_data (disk s') i = payload \<and> fs_stable (disk s') i = payload)"
        using f(4) [of name i] k(1) by (auto simp: final_path_def)
      then show ?thesis
        using wf' d k(5,7) q2 q' f(2,3) i(2) s2d assms(3) False
        by (simp add: enq_committed_def name_def)
    qed
  qed
qed

section \<open>Listing\<close>

lemma dir_names_lookup: "n \<in> set (dir_names d s) \<longleftrightarrow> lookup_path s (d, n) \<noteq> None"
  by (force simp: dir_names_def lookup_path_def map_of_eq_None_iff)

lemma dir_names_distinct:
  assumes "distinct (map fst (fs_entries s))"
  shows "distinct (dir_names d s)"
proof -
  let ?es = "filter (\<lambda>e. fst (fst e) = d) (fs_entries s)"
  have "distinct (map fst ?es)" using assms by (rule distinct_map_filter)
  moreover have "inj_on snd (fst ` set ?es)" by (auto simp: inj_on_def)
  then have "inj_on snd (set (map fst ?es))" by (simp only: set_map)
  ultimately have "distinct (map snd (map fst ?es))" by (simp only: distinct_map [of snd] simp_thms)
  moreover have "dir_names d s = map snd (map fst ?es)" by (simp add: dir_names_def)
  ultimately show ?thesis by (simp only:)
qed

lemma queue_dom: "dom (queue_of c d) = {n. is_pending_name n \<and> lookup_path d (dir c, n) \<noteq> None}"
  by (auto simp: queue_of_def file_content_def dom_def split: if_splits)

lemma queue_dom_names: "dom (queue_of c d) = set (filter is_pending_name (dir_names (dir c) d))"
  by (auto simp: queue_dom dir_names_lookup)

lemma finite_queue [simp]: "finite (dom (queue_of c d))"
  by (simp add: queue_dom_names)

lemma listPending_result:
  assumes "listPending c d = (r, d')" "wf_fs d"
  shows "d' = pop_fault d" "\<And>ps. r = Inr ps \<Longrightarrow> sorted ps \<and> distinct ps \<and> set ps = dom (queue_of c d)"
proof -
  obtain r1 d1 where 1: "os_read_dir (dir c) d = (r1, d1)" by fastforce
  note o = os_read_dir_result [OF 1]
  show "d' = pop_fault d" using assms(1) o by (auto simp: listPending_def 1 split: sum.splits)
  fix ps assume "r = Inr ps"
  then have "ps = sort (filter is_pending_name (dir_names (dir c) d))"
    using assms(1) o by (auto simp: listPending_def 1 split: sum.splits)
  then show "sorted ps \<and> distinct ps \<and> set ps = dom (queue_of c d)"
    using dir_names_distinct [OF wf_keys [OF assms(2)], of "dir c"] by (simp add: queue_dom_names)
qed

section \<open>Abstract delivery\<close>

text \<open>
  One attempt on the abstract queue \<open>q\<close>, the dead letters \<open>d\<close> and the destination \<open>w\<close>. The
  rules ending in \<open>stuck\<close> are the cases in which the operating system refuses the removal or
  the move and the code goes on regardless.
\<close>

definition head_is :: "(bytes \<rightharpoonup> bytes) \<Rightarrow> bytes \<Rightarrow> bytes \<Rightarrow> bool" where
  "head_is q n b \<longleftrightarrow> q n = Some b \<and> (\<forall>m \<in> dom q. n \<le> m)"

lemma head_unique:
  assumes "head_is q n b" "head_is q m p"
  shows "m = n" "p = b"
proof -
  have "n \<le> m" "m \<le> n" using assms unfolding head_is_def by (blast intro: domI)+
  then show "m = n" by (rule antisym [rotated])
  then show "p = b" using assms by (simp add: head_is_def)
qed

type_synonym 'w aq = "(bytes \<rightharpoonup> bytes) \<times> (bytes \<rightharpoonup> bytes) \<times> 'w"

inductive attempt ::
  "(goerr \<Rightarrow> bool) \<Rightarrow> (bytes \<Rightarrow> 'w \<Rightarrow> gores \<times> 'w) \<Rightarrow> ('w \<Rightarrow> 'w) \<Rightarrow> 'w aq \<Rightarrow> bool \<times> gores \<Rightarrow> 'w aq \<Rightarrow> bool"
  for perm forward onDead where
  unlistable: "attempt perm forward onDead (q, d, w) (False, Some e) (q, d, w)"
| idle: "dom q = {} \<Longrightarrow> attempt perm forward onDead (q, d, w) (False, None) (q, d, w)"
| retry: "head_is q n b \<Longrightarrow> forward b w = (Some e, w1) \<Longrightarrow> \<not> perm e \<Longrightarrow>
    attempt perm forward onDead (q, d, w) (False, Some e) (q, d, w1)"
| delivered: "head_is q n b \<Longrightarrow> forward b w = (None, w1) \<Longrightarrow>
    attempt perm forward onDead (q, d, w) (True, None) (q(n := None), d, w1)"
| delivered_stuck: "head_is q n b \<Longrightarrow> forward b w = (None, w1) \<Longrightarrow>
    attempt perm forward onDead (q, d, w) (True, None) (q, d, w1)"
| rejected: "head_is q n b \<Longrightarrow> forward b w = (Some e, w1) \<Longrightarrow> perm e \<Longrightarrow>
    attempt perm forward onDead (q, d, w) (True, None) (q(n := None), d(n \<mapsto> b), onDead w1)"
| rejected_stuck: "head_is q n b \<Longrightarrow> forward b w = (Some e, w1) \<Longrightarrow> perm e \<Longrightarrow>
    attempt perm forward onDead (q, d, w) (True, None) (q, d, w1)"
| unreadable: "head_is q n b \<Longrightarrow>
    attempt perm forward onDead (q, d, w) (True, None) (q(n := None), d(n \<mapsto> b), onDead w)"
| unreadable_stuck: "head_is q n b \<Longrightarrow>
    attempt perm forward onDead (q, d, w) (True, None) (q, d, w)"

lemma deadLetter_outcome:
  assumes "deadLetter c n s = (moved, s')" "wf_fs (disk s)" "queue_of c (disk s) n = Some b"
  shows "wf_fs (disk s')"
    "moved \<Longrightarrow> queue_of c (disk s') = (queue_of c (disk s))(n := None) \<and> dead_of c (disk s') = (dead_of c (disk s))(n \<mapsto> b)
       \<and> depth s' = (if 0 < depth s then depth s - 1 else depth s)"
    "\<not> moved \<Longrightarrow> queue_of c (disk s') = queue_of c (disk s) \<and> dead_of c (disk s') = dead_of c (disk s) \<and> depth s' = depth s"
proof -
  let ?p = "(dir c, n)" and ?q = "(dead_dir c, n)"
  obtain r d where r: "os_rename ?p ?q (disk s) = (r, d)" by fastforce
  have t: "touches {?p, ?q} (disk s) d" using touches_calls(6) [of ?p ?q "disk s"] r by simp
  have s': "disk s' = d" "moved = (\<exists>u. r = Inr u)" using assms(1) r by (auto simp: deadLetter_def on_disk_def split: sum.splits)
  show "wf_fs (disk s')" using touches_wf [OF t assms(2)] by (simp add: s')
  show "queue_of c (disk s') = queue_of c (disk s) \<and> dead_of c (disk s') = dead_of c (disk s) \<and> depth s' = depth s" if "\<not> moved"
  proof -
    from that s'(2) obtain e where e: "r = Inl e" by (cases r) auto
    from os_rename_err [OF r [unfolded e]] show ?thesis
      using assms(1) r e by (simp add: s') (auto simp: deadLetter_def on_disk_def)
  qed
  show "queue_of c (disk s') = (queue_of c (disk s))(n := None) \<and> dead_of c (disk s') = (dead_of c (disk s))(n \<mapsto> b)
       \<and> depth s' = (if 0 < depth s then depth s - 1 else depth s)" if "moved"
  proof -
    from that s'(2) obtain u where u: "r = Inr u" by auto
    obtain i where i: "lookup_path (disk s) ?p = Some i" and d: "d = del_entry ?p (set_entry ?q i (pop_fault (disk s)))"
      using os_rename_ok [OF r [unfolded u]] by auto
    have b: "fs_data (disk s) i = b" using assms(3) i by (simp add: queue_of_def file_content_def split: if_splits)
    have "queue_of c d = (queue_of c (disk s))(n := None)" "dead_of c d = (dead_of c (disk s))(n \<mapsto> b)"
      by (auto simp: d queue_of_def dead_of_def fun_eq_iff content_set_entry content_del_entry b)
    then show ?thesis using assms(1) r u by (simp add: s') (auto simp: deadLetter_def on_disk_def)
  qed
qed

lemma remove_outcome:
  assumes "os_remove (dir c, n) d = (r, d')" "wf_fs d"
  shows "wf_fs d'" "dead_of c d' = dead_of c d" "queue_of c d' = queue_of c d \<or> queue_of c d' = (queue_of c d)(n := None)"
    "\<And>u. r = Inr u \<Longrightarrow> queue_of c d' = (queue_of c d)(n := None)"
proof -
  have t: "touches {(dir c, n)} d d'" using touches_calls(7) [of "(dir c, n)" d] assms(1) by simp
  show "wf_fs d'" using touches_wf [OF t assms(2)] .
  show "dead_of c d' = dead_of c d" by (intro dead_touches [OF t assms(2)]) simp
  have del: "queue_of c (del_entry (dir c, n) (pop_fault d)) = (queue_of c d)(n := None)"
    by (auto simp: queue_of_def fun_eq_iff content_del_entry)
  show ok: "queue_of c d' = (queue_of c d)(n := None)" if "r = Inr u" for u
    using os_remove_ok [OF assms(1) [unfolded that]] del by simp
  show "queue_of c d' = queue_of c d \<or> queue_of c d' = (queue_of c d)(n := None)"
    using ok os_remove_err [of "(dir c, n)" d _ d'] assms(1) by (cases r) auto
qed

section \<open>forwardOldest implements the abstract attempt\<close>

definition abs_state :: "spool_cfg \<Rightarrow> Spool \<Rightarrow> 'w \<Rightarrow> 'w aq" where
  "abs_state c s w = (queue_of c (disk s), dead_of c (disk s), w)"

lemma sorted_head:
  fixes n :: bytes
  assumes "sorted (n # ns) \<and> distinct (n # ns) \<and> set (n # ns) = dom q"
  shows "\<exists>b. head_is q n b"
proof -
  from assms have "n \<in> dom q" by auto
  then obtain b where "q n = Some b" by auto
  with assms show ?thesis unfolding head_is_def by auto
qed

lemma read_file_queue:
  assumes "os_read_file (dir c, n) d = (r, d')" "head_is (queue_of c d) n b"
  shows "d' = pop_fault d" "\<And>b'. r = Inr b' \<Longrightarrow> b' = b"
  using os_read_file_result [OF assms(1)] assms(2) by (auto simp: head_is_def queue_of_def split: if_splits)

lemma dead_letter_attempt:
  assumes "dead_letter_with c onDead n s w = (res, s', w')" "wf_fs (disk s)" "head_is (queue_of c (disk s)) n b"
  shows "wf_fs (disk s')" "res = (True, None)"
    "(abs_state c s' w' = ((queue_of c (disk s))(n := None), (dead_of c (disk s))(n \<mapsto> b), onDead w)
        \<and> depth s' = (if 0 < depth s then depth s - 1 else depth s))
     \<or> (abs_state c s' w' = (queue_of c (disk s), dead_of c (disk s), w) \<and> depth s' = depth s)"
proof -
  obtain moved t where m: "deadLetter c n s = (moved, t)" by fastforce
  from assms(1) have eq: "res = (True, None)" "s' = t" "w' = (if moved then onDead w else w)"
    by (auto simp: dead_letter_with_def m)
  have "queue_of c (disk s) n = Some b" using assms(3) by (simp add: head_is_def)
  note o = deadLetter_outcome [OF m assms(2) this]
  show "wf_fs (disk s')" "res = (True, None)" using o(1) eq by simp_all
  show "(abs_state c s' w' = ((queue_of c (disk s))(n := None), (dead_of c (disk s))(n \<mapsto> b), onDead w)
        \<and> depth s' = (if 0 < depth s then depth s - 1 else depth s))
     \<or> (abs_state c s' w' = (queue_of c (disk s), dead_of c (disk s), w) \<and> depth s' = depth s)"
    using o(2,3) eq by (cases moved) (auto simp: abs_state_def)
qed

lemma finish_delivery_outcome:
  assumes "wf_fs (disk s)"
  shows "wf_fs (disk (finish_delivery c now n s))"
    "dead_of c (disk (finish_delivery c now n s)) = dead_of c (disk s)"
    "queue_of c (disk (finish_delivery c now n s)) = queue_of c (disk s)
       \<or> queue_of c (disk (finish_delivery c now n s)) = (queue_of c (disk s))(n := None)"
    "depth (finish_delivery c now n s) = (if 0 < depth s then depth s - 1 else depth s)"
proof -
  obtain r d where r: "os_remove (dir c, n) (disk s) = (r, d)" by fastforce
  have "disk (finish_delivery c now n s) = d" by (simp add: finish_delivery_def r)
  with remove_outcome [OF r assms]
  show "wf_fs (disk (finish_delivery c now n s))"
    "dead_of c (disk (finish_delivery c now n s)) = dead_of c (disk s)"
    "queue_of c (disk (finish_delivery c now n s)) = queue_of c (disk s)
       \<or> queue_of c (disk (finish_delivery c now n s)) = (queue_of c (disk s))(n := None)" by auto
  show "depth (finish_delivery c now n s) = (if 0 < depth s then depth s - 1 else depth s)"
    by (simp add: finish_delivery_def)
qed

text \<open>The queue after an attempt never has a name more, and the depth follows it down by at most one.\<close>

definition depth_follows :: "spool_cfg \<Rightarrow> Spool \<Rightarrow> Spool \<Rightarrow> bool" where
  "depth_follows c s s' \<longleftrightarrow>
     (depth s' = depth s \<and> queue_of c (disk s') = queue_of c (disk s))
     \<or> (depth s' = (if 0 < depth s then depth s - 1 else depth s)
        \<and> (\<exists>n \<in> dom (queue_of c (disk s)). queue_of c (disk s') \<in> {queue_of c (disk s), (queue_of c (disk s))(n := None)}))"

lemma forward_head_attempt:
  assumes "forward_head c perm forward onDead now n s w = (res, s', w')" "wf_fs (disk s)"
    and "head_is (queue_of c (disk s)) n b"
  shows "wf_fs (disk s') \<and> attempt perm forward onDead (abs_state c s w) res (abs_state c s' w') \<and> depth_follows c s s'"
proof -
  obtain r d where r: "os_read_file (dir c, n) (disk s) = (r, d)" by fastforce
  define s1 where "s1 = s\<lparr>disk := d\<rparr>"
  note rf = read_file_queue [OF r assms(3)]
  have s1: "wf_fs (disk s1)" "queue_of c (disk s1) = queue_of c (disk s)" "dead_of c (disk s1) = dead_of c (disk s)"
    "depth s1 = depth s" using assms(2) by (simp_all add: s1_def rf(1))
  have h1: "head_is (queue_of c (disk s1)) n b" using assms(3) s1 by simp
  have ndom: "n \<in> dom (queue_of c (disk s))" using assms(3) by (auto simp: head_is_def)
  have rd: "on_disk (os_read_file (dir c, n)) s = (r, s1)" by (simp add: on_disk_def r s1_def)
  show ?thesis
  proof (cases r)
    case (Inl e)
    then have "dead_letter_with c onDead n s1 w = (res, s', w')" using assms(1) by (simp add: forward_head_def rd)
    note dl = dead_letter_attempt [OF this s1(1) h1]
    from dl(3) show ?thesis
      using dl(1,2) ndom assms(3) s1 attempt.unreadable [OF assms(3)] attempt.unreadable_stuck [OF assms(3)]
      by (auto simp: abs_state_def depth_follows_def)
  next
    case (Inr b')
    then have b': "b' = b" using rf(2) by simp
    obtain rf w1 where f: "forward b w = (rf, w1)" by fastforce
    show ?thesis
    proof (cases rf)
      case None
      then have "res = (True, None)" "s' = finish_delivery c now n s1" "w' = w1"
        using assms(1) by (auto simp: forward_head_def rd Inr b' f)
      with finish_delivery_outcome [OF s1(1), of c now n] show ?thesis
        using ndom assms(3) s1 attempt.delivered [where forward = forward and perm = perm, OF assms(3) f [unfolded None]]
          attempt.delivered_stuck [where forward = forward and perm = perm, OF assms(3) f [unfolded None]]
        by (auto simp: abs_state_def depth_follows_def)
    next
      case (Some e)
      show ?thesis
      proof (cases "perm e")
        case True
        then have "dead_letter_with c onDead n s1 w1 = (res, s', w')"
          using assms(1) by (simp add: forward_head_def rd Inr b' f Some)
        note dl = dead_letter_attempt [OF this s1(1) h1]
        from dl(3) show ?thesis
          using dl(1,2) ndom assms(3) s1 attempt.rejected [where forward = forward and perm = perm, OF assms(3) f [unfolded Some] True]
            attempt.rejected_stuck [where forward = forward and perm = perm, OF assms(3) f [unfolded Some] True]
          by (auto simp: abs_state_def depth_follows_def)
      next
        case False
        then have "res = (False, Some e)" "s' = emit OnFailed s1" "w' = w1"
          using assms(1) by (auto simp: forward_head_def rd Inr b' f Some)
        then show ?thesis
          using s1 attempt.retry [where forward = forward and perm = perm, OF assms(3) f [unfolded Some] False]
          by (simp add: abs_state_def depth_follows_def)
      qed
    qed
  qed
qed

lemma forwardOldest_attempt:
  assumes "forwardOldest c perm forward onDead now s w = (res, s', w')" "wf_fs (disk s)"
  shows "wf_fs (disk s') \<and> attempt perm forward onDead (abs_state c s w) res (abs_state c s' w') \<and> depth_follows c s s'"
proof -
  obtain r d where r: "listPending c (disk s) = (r, d)" by fastforce
  define s1 where "s1 = s\<lparr>disk := d\<rparr>"
  note lp = listPending_result [OF r assms(2)]
  have ld: "on_disk (listPending c) s = (r, s1)" by (simp add: on_disk_def r s1_def)
  have s1: "wf_fs (disk s1)" "queue_of c (disk s1) = queue_of c (disk s)" "dead_of c (disk s1) = dead_of c (disk s)"
    "depth s1 = depth s" using assms(2) by (simp_all add: s1_def lp(1))
  show ?thesis
  proof (cases r)
    case (Inl e)
    then show ?thesis using assms(1) s1 attempt.unlistable
      by (auto simp: forwardOldest_def ld abs_state_def depth_follows_def)
  next
    case (Inr ps)
    define s2 where "s2 = updateOldestPending now ps s1"
    have s2: "wf_fs (disk s2)" "abs_state c s2 w = abs_state c s w" "depth s2 = depth s" "queue_of c (disk s2) = queue_of c (disk s)"
      using s1 by (simp_all add: s2_def abs_state_def)
    show ?thesis
    proof (cases ps)
      case Nil
      then have "dom (queue_of c (disk s)) = {}" using lp(2) Inr by auto
      then show ?thesis using assms(1) s1 s2 Nil attempt.idle
        by (auto simp: forwardOldest_def ld Inr Let_def abs_state_def depth_follows_def)
    next
      case (Cons n ns)
      with lp(2) [OF Inr] s2(4) obtain b where h: "head_is (queue_of c (disk s2)) n b"
        using sorted_head [of n ns "queue_of c (disk s2)"] by auto
      have "forward_head c perm forward onDead now n s2 w = (res, s', w')"
        using assms(1) by (simp add: forwardOldest_def ld Inr Let_def s2_def Cons)
      from forward_head_attempt [OF this s2(1) h] show ?thesis unfolding depth_follows_def s2(2-4) .
    qed
  qed
qed

section \<open>Consequences\<close>

lemma crash_lists:
  assumes "crash d d'" "durable_file d (dir c, n) i" "fs_data d i = b" "fs_stable d i = b" "is_pending_name n"
  shows "queue_of c d' n = Some b"
  using durable_content [OF assms(1,2)] assms(3-5) by (simp add: queue_of_def)

lemma attempt_conserves:
  assumes "attempt perm forward onDead st res st'"
  shows "fst st n = Some b \<Longrightarrow> fst st' n = Some b \<or> fst (snd st') n = Some b
      \<or> (head_is (fst st) n b \<and> fst (forward b (snd (snd st))) = None)"
    "fst (snd st) n = Some b \<Longrightarrow> fst st n = None \<or> fst st n = Some b \<Longrightarrow> fst (snd st') n = Some b"
  using assms by (cases; auto simp: head_is_def)+

lemma attempt_idle_iff:
  assumes "attempt perm forward onDead st (False, None) st'"
  shows "dom (fst st) = {}" "st' = st"
  using assms by (cases; auto)+

text \<open>The destination that also keeps the list of the payloads it has confirmed.\<close>

definition confirming :: "(bytes \<Rightarrow> 'w \<Rightarrow> gores \<times> 'w) \<Rightarrow> bytes \<Rightarrow> 'w \<times> bytes list \<Rightarrow> gores \<times> 'w \<times> bytes list" where
  "confirming forward b st =
     (case forward b (fst st) of
        (None, w) \<Rightarrow> (None, w, snd st @ [b])
      | (Some e, w) \<Rightarrow> (Some e, w, snd st))"

lemma confirming_log: "set (snd st) \<subseteq> set (snd (snd (confirming forward b st)))"
  by (auto simp: confirming_def split: prod.split option.split)

lemma confirming_ok: "fst (confirming forward b st) = None \<Longrightarrow> b \<in> set (snd (snd (confirming forward b st)))"
  by (auto simp: confirming_def split: prod.splits option.splits)

lemma attempt_log_grows:
  assumes "attempt perm (confirming forward) (apfst onDead) st res st'"
  shows "set (snd (snd (snd st))) \<subseteq> set (snd (snd (snd st')))"
  using assms
proof cases
  case (retry q n b w e w1 d)
  then show ?thesis using confirming_log [of w forward b] by simp
next
  case (delivered q n b w w1 d)
  then show ?thesis using confirming_log [of w forward b] by simp
next
  case (delivered_stuck q n b w w1 d)
  then show ?thesis using confirming_log [of w forward b] by simp
next
  case (rejected q n b w e w1 d)
  then show ?thesis using confirming_log [of w forward b] by simp
next
  case (rejected_stuck q n b w e w1 d)
  then show ?thesis using confirming_log [of w forward b] by simp
qed simp_all

lemma attempt_log_delivered:
  assumes "attempt perm (confirming forward) (apfst onDead) st res st'" "fst st n = Some b"
  shows "fst st' n = Some b \<or> fst (snd st') n = Some b \<or> b \<in> set (snd (snd (snd st')))"
  using assms(1)
proof cases
  case (delivered q m a w w1 d)
  then show ?thesis using assms(2) confirming_ok [of forward a w] by (auto simp: head_is_def)
qed (use assms(2) in \<open>auto simp: head_is_def\<close>)

lemma run_turn_attempt:
  assumes "run_turn c perm forward onDead now (bo, s, w) = (p, bo', s', w')" "wf_fs (disk s)"
  shows "\<exists>res. attempt perm forward onDead (abs_state c s w) res (abs_state c s' w')" "wf_fs (disk s')"
proof -
  obtain res s1 w1 where f: "forwardOldest c perm forward onDead now s w = (res, s1, w1)" by (metis prod_cases3)
  obtain p1 b1 where r: "run_pause res bo = (p1, b1)" by fastforce
  from forwardOldest_attempt [OF f assms(2)] have a: "wf_fs (disk s1)"
    "attempt perm forward onDead (abs_state c s w) res (abs_state c s1 w1)" by auto
  have "disk s' = disk s1" "w' = w1" using assms(1) by (auto simp: run_turn_def f r split: pause.splits)
  then have "abs_state c s' w' = abs_state c s1 w1" "disk s' = disk s1" by (simp_all add: abs_state_def)
  with a show "\<exists>res. attempt perm forward onDead (abs_state c s w) res (abs_state c s' w')" "wf_fs (disk s')"
    by (simp_all only:) blast
qed

lemma Run_append:
  "Run c perm forward onDead (before @ after) st =
     (case Run c perm forward onDead before st of (ps, st1) \<Rightarrow>
      case Run c perm forward onDead after st1 of (qs, st2) \<Rightarrow> (ps @ qs, st2))"
  by (induction before arbitrary: st) (simp_all add: case_prod_beta)

lemma Run_conserves:
  assumes "Run c perm (confirming forward) (apfst onDead) nows (bo, s, w) = (ps, bo', s', w')" "wf_fs (disk s)"
    and "queue_of c (disk s) n = Some b \<or> dead_of c (disk s) n = Some b \<and> queue_of c (disk s) n = None \<or> b \<in> set (snd w)"
  shows "queue_of c (disk s') n = Some b \<or> dead_of c (disk s') n = Some b \<or> b \<in> set (snd w')"
  using assms
proof (induction nows arbitrary: bo s w ps)
  case (Cons now nows)
  obtain p bo1 s1 w1 where t: "run_turn c perm (confirming forward) (apfst onDead) now (bo, s, w) = (p, bo1, s1, w1)"
    by (metis prod_cases4)
  obtain ps' where r: "Run c perm (confirming forward) (apfst onDead) nows (bo1, s1, w1) = (ps', bo', s', w')"
    using Cons.prems(1) by (auto simp: t split: prod.splits)
  note a = run_turn_attempt [OF t Cons.prems(2)]
  then obtain res where at: "attempt perm (confirming forward) (apfst onDead) (abs_state c s w) res (abs_state c s1 w1)" by blast
  have qd: "queue_of c (disk s1) n = None \<or> queue_of c (disk s1) n = queue_of c (disk s) n"
    using at by (cases; auto simp: abs_state_def)
  have "queue_of c (disk s1) n = Some b \<or> dead_of c (disk s1) n = Some b \<and> queue_of c (disk s1) n = None \<or> b \<in> set (snd w1)"
    using Cons.prems(3) attempt_log_grows [OF at] attempt_log_delivered [OF at, of n b]
      attempt_conserves(2) [OF at, of n b] qd
    by (auto simp: abs_state_def)
  then show ?case using Cons.IH [OF r a(2)] by blast
qed auto

lemma Enqueue_acknowledged:
  assumes "Enqueue c now payload s = (None, s')" "fsyncEnabled c" "wf_fs (disk s)" "0 \<le> depth s"
    and "crash (disk s') d"
  shows "queue_of c d (spool_name now (seq s + 1)) = Some payload"
proof -
  from Enqueue_outcome [OF assms(1,3,4)] have "enq_committed c (spool_name now (seq s + 1)) payload s None s'"
    by (auto simp: enq_refused_def enq_abandoned_def)
  then obtain i where "durable_file (disk s') (final_path c (spool_name now (seq s + 1))) i"
      "fs_data (disk s') i = payload" "fs_stable (disk s') i = payload"
    using assms(2) by (auto simp: enq_committed_def)
  with crash_lists [OF assms(5)] show ?thesis by (simp add: final_path_def)
qed

section \<open>Properties\<close>

definition cfg1 :: spool_cfg where
  "cfg1 = \<lparr>dir = ''/spool'', maxDepth = 100, fsyncEnabled = True\<rparr>"

definition spool1 :: Spool where
  "spool1 = \<lparr>disk = empty_fs [], depth = 0, seq = 0, oldestPendingAt = None, wake = False,
     dirFsyncFailures = 0, events = []\<rparr>"

text \<open>C13. An acknowledged signal survives a power loss: when \<^verbatim>\<open>Enqueue\<close> returns nil with fsync
  enabled, every state the disk can be in after a crash holds the payload, complete, under the reserved
  name, and it is pending there, so the next start replays it.\<close>

theorem Enqueue_ack_survives_crash:
  assumes "Enqueue c now payload s = (None, s')" "fsyncEnabled c" "wf_fs (disk s)" "0 \<le> depth s"
    and "crash (disk s') d"
  shows "queue_of c d (spool_name now (seq s + 1)) = Some payload"
  using Enqueue_acknowledged [OF assms] .

lemma Enqueue_ack_survives_crash_witness:
  "queue_of cfg1 (disk (snd (Enqueue cfg1 5 ''x'' spool1))) (spool_name 5 (seq spool1 + 1)) = Some ''x''"
proof (rule Enqueue_ack_survives_crash)
  show "Enqueue cfg1 5 ''x'' spool1 = (None, snd (Enqueue cfg1 5 ''x'' spool1))"
    by (simp add: prod_eq_iff) code_simp
  let ?d = "disk (snd (Enqueue cfg1 5 ''x'' spool1))"
  have wf: "wf_fs ?d"
    using Enqueue_outcome [of cfg1 5 "''x''" spool1] by (simp add: spool1_def prod_eq_iff)
  have "lookup_path ?d p \<in> possible_entries ?d p" for p using current_possible [OF wf] .
  then show "crash ?d ?d" by (simp add: crash_def crash_content_def)
qed (simp_all add: cfg1_def spool1_def)

text \<open>C19. \<^verbatim>\<open>Enqueue\<close> has three outcomes and no other: refused with \<^verbatim>\<open>ErrFull\<close> and nothing
  changed, exactly when the depth has reached the limit; abandoned with another error and queue and
  depth as before; or committed, the queue extended by exactly this signal and the depth by one, also when
  the directory fsync afterwards fails. A failed write never leaves half a signal in the queue.\<close>

theorem Enqueue_three_outcomes:
  assumes "Enqueue c now payload s = (r, s')" "wf_fs (disk s)" "0 \<le> depth s"
  shows "enq_refused c s r s' \<or> enq_abandoned c s r s' \<or> enq_committed c (spool_name now (seq s + 1)) payload s r s'"
  using Enqueue_outcome [OF assms] by blast

lemma Enqueue_three_outcomes_witness:
  "\<exists>r s'. Enqueue cfg1 5 ''x'' spool1 = (r, s') \<and>
    (enq_refused cfg1 spool1 r s' \<or> enq_abandoned cfg1 spool1 r s' \<or> enq_committed cfg1 (spool_name 5 (seq spool1 + 1)) ''x'' spool1 r s')"
  using Enqueue_three_outcomes [of cfg1 5 "''x''" spool1 "fst (Enqueue cfg1 5 ''x'' spool1)" "snd (Enqueue cfg1 5 ''x'' spool1)"]
  by (auto simp: spool1_def intro!: exI)

text \<open>C18. \<^verbatim>\<open>forwardOldest\<close> implements the abstract attempt on the queue, the dead letters and the
  destination: it works on the least pending name only, removes it on a confirmed delivery, moves it on a
  permanent rejection, keeps everything on a retryable failure, and reports idle only for an empty queue.\<close>

theorem forwardOldest_refines_attempt:
  assumes "forwardOldest c perm forward onDead now s w = (res, s', w')" "wf_fs (disk s)"
  shows "attempt perm forward onDead (abs_state c s w) res (abs_state c s' w')"
  using forwardOldest_attempt [OF assms] by blast

lemma forwardOldest_refines_attempt_witness:
  "attempt (\<lambda>e. False) (\<lambda>b w. (None, w @ [b])) id
     (abs_state cfg1 (snd (Enqueue cfg1 5 ''x'' spool1)) [])
     (fst (forwardOldest cfg1 (\<lambda>e. False) (\<lambda>b w. (None, w @ [b])) id 6 (snd (Enqueue cfg1 5 ''x'' spool1)) []))
     (abs_state cfg1 (fst (snd (forwardOldest cfg1 (\<lambda>e. False) (\<lambda>b w. (None, w @ [b])) id 6 (snd (Enqueue cfg1 5 ''x'' spool1)) [])))
        (snd (snd (forwardOldest cfg1 (\<lambda>e. False) (\<lambda>b w. (None, w @ [b])) id 6 (snd (Enqueue cfg1 5 ''x'' spool1)) []))))"
proof (rule forwardOldest_refines_attempt)
  show "wf_fs (disk (snd (Enqueue cfg1 5 ''x'' spool1)))"
    using Enqueue_outcome [of cfg1 5 "''x''" spool1] by (simp add: spool1_def prod_eq_iff)
qed (simp add: prod_eq_iff)

text \<open>C17. No signal is lost: whatever the faults of the disk and the answers of the destination, after any
  number of turns of the delivery loop every signal that was pending is still pending, or in the
  dead-letter directory, or was confirmed by the destination.\<close>

theorem Run_loses_nothing:
  assumes "Run c perm (confirming forward) (apfst onDead) nows (bo, s, w) = (ps, bo', s', w')" "wf_fs (disk s)"
    and "queue_of c (disk s) n = Some b"
  shows "queue_of c (disk s') n = Some b \<or> dead_of c (disk s') n = Some b \<or> b \<in> set (snd w')"
  using Run_conserves [OF assms(1,2)] assms(3) by blast

lemma Run_loses_nothing_witness:
  "\<exists>ps bo' s' w'. Run cfg1 (\<lambda>e. False) (confirming (\<lambda>b (). (None, ()))) (apfst id) [6, 7]
      (second, snd (Enqueue cfg1 5 ''x'' spool1), ((), [])) = (ps, bo', s', w') \<and>
    (queue_of cfg1 (disk s') (spool_name 5 (seq spool1 + 1)) = Some ''x'' \<or> dead_of cfg1 (disk s') (spool_name 5 (seq spool1 + 1)) = Some ''x''
      \<or> ''x'' \<in> set (snd w'))"
proof -
  obtain ps bo' s' w' where r: "Run cfg1 (\<lambda>e. False) (confirming (\<lambda>b (). (None, ()))) (apfst id) [6, 7]
      (second, snd (Enqueue cfg1 5 ''x'' spool1), ((), [])) = (ps, bo', s', w')" by (metis prod_cases4)
  have "wf_fs (disk (snd (Enqueue cfg1 5 ''x'' spool1)))"
    using Enqueue_outcome [of cfg1 5 "''x''" spool1] by (simp add: spool1_def prod_eq_iff)
  moreover have "queue_of cfg1 (disk (snd (Enqueue cfg1 5 ''x'' spool1))) (spool_name 5 (seq spool1 + 1)) = Some ''x''"
    by code_simp
  ultimately show ?thesis using Run_loses_nothing [OF r] r by blast
qed

section \<open>Reachable states and the depth counter\<close>

text \<open>
  The states a single process drives the spool through: \<^verbatim>\<open>New\<close> on any well-formed disk, then
  enqueueing (under a name that is not pending already) and delivery attempts in any order.
\<close>

inductive spool_reach ::
  "spool_cfg \<Rightarrow> (goerr \<Rightarrow> bool) \<Rightarrow> (bytes \<Rightarrow> 'w \<Rightarrow> gores \<times> 'w) \<Rightarrow> ('w \<Rightarrow> 'w) \<Rightarrow> Spool \<Rightarrow> 'w \<Rightarrow> bool"
  for c perm forward onDead where
  reach_new: "New c now d = (Inr s, d') \<Longrightarrow> wf_fs d \<Longrightarrow> spool_reach c perm forward onDead s w"
| reach_enqueue: "spool_reach c perm forward onDead s w \<Longrightarrow> Enqueue c now b s = (r, s') \<Longrightarrow>
    spool_name now (seq s + 1) \<notin> dom (queue_of c (disk s)) \<Longrightarrow> spool_reach c perm forward onDead s' w"
| reach_forward: "spool_reach c perm forward onDead s w \<Longrightarrow>
    forwardOldest c perm forward onDead now s w = (res, s', w') \<Longrightarrow> spool_reach c perm forward onDead s' w'"

definition depth_inv :: "spool_cfg \<Rightarrow> Spool \<Rightarrow> bool" where
  "depth_inv c s \<longleftrightarrow> wf_fs (disk s) \<and> 0 \<le> depth s \<and> depth s \<le> int (card (dom (queue_of c (disk s))))"

lemma New_facts:
  assumes "New c now d = (Inr s, d')" "wf_fs d"
  shows "disk s = d'" "wf_fs d'" "queue_of c d' = queue_of c d" "depth s = int (card (dom (queue_of c d)))" "seq s = 0"
proof -
  obtain u d1 where 1: "os_plain d = (Inr u, d1)" using assms(1) by (auto simp: New_def split: sum.splits prod.splits)
  obtain ps d2 where 2: "listPending c d1 = (Inr ps, d2)"
    using assms(1) by (auto simp: New_def 1 split: sum.splits prod.splits)
  have d1: "d1 = pop_fault d" using os_plain_ok [OF 1] .
  then have wf1: "wf_fs d1" using assms(2) by simp
  note lp = listPending_result [OF 2 wf1]
  have s: "s = updateOldestPending now ps (reportDepth \<lparr>disk = d2, depth = int (length ps), seq = 0,
      oldestPendingAt = None, wake = False, dirFsyncFailures = 0, events = []\<rparr>)" "d' = d2"
    using assms(1) by (auto simp: New_def 1 2)
  show "disk s = d'" "seq s = 0" by (simp_all add: s)
  show "wf_fs d'" "queue_of c d' = queue_of c d" using wf1 by (simp_all add: s lp(1) d1)
  have "length ps = card (dom (queue_of c d))" using lp(2) [of ps] distinct_card [of ps] by (simp add: d1)
  then show "depth s = int (card (dom (queue_of c d)))" by (simp add: s)
qed

lemma depth_inv_enqueue:
  assumes "depth_inv c s" "Enqueue c now b s = (r, s')" "spool_name now (seq s + 1) \<notin> dom (queue_of c (disk s))"
  shows "depth_inv c s'"
proof -
  from assms(1) have w: "wf_fs (disk s)" "0 \<le> depth s" by (simp_all add: depth_inv_def)
  from Enqueue_outcome [OF assms(2) w] have o: "wf_fs (disk s')" "0 \<le> depth s'"
    "enq_refused c s r s' \<or> enq_abandoned c s r s' \<or> enq_committed c (spool_name now (seq s + 1)) b s r s'" by auto
  have "card (dom ((queue_of c (disk s))(spool_name now (seq s + 1) \<mapsto> b))) = Suc (card (dom (queue_of c (disk s))))"
    using assms(3) by simp
  then show ?thesis using o assms(1)
    by (auto simp: depth_inv_def enq_refused_def enq_abandoned_def enq_committed_def)
qed

lemma depth_inv_follows:
  assumes "depth_inv c s" "depth_follows c s s'" "wf_fs (disk s')"
  shows "depth_inv c s'"
proof -
  have Suc: "int (card (D - {n})) = int (card D) - 1" if "finite D" "n \<in> D" for D :: "bytes set" and n
    using card_Suc_Diff1 [OF that] by linarith
  have card: "int (card (dom (queue_of c (disk s)))) - 1 \<le> int (card (dom (queue_of c (disk s')))) \<and>
      int (card (dom (queue_of c (disk s')))) \<ge> 0"
    if "n \<in> dom (queue_of c (disk s))" "queue_of c (disk s') \<in> {queue_of c (disk s), (queue_of c (disk s))(n := None)}" for n
  proof -
    from that(2) consider "queue_of c (disk s') = queue_of c (disk s)"
      | "queue_of c (disk s') = (queue_of c (disk s))(n := None)" by blast
    then show ?thesis
    proof cases
      case 2
      then have "dom (queue_of c (disk s')) = dom (queue_of c (disk s)) - {n}" by simp
      with Suc [OF finite_queue that(1)] show ?thesis by (simp only:) linarith
    qed simp
  qed
  from assms(2) show ?thesis
    unfolding depth_follows_def
  proof (elim disjE conjE bexE)
    fix n
    assume d: "depth s' = (if 0 < depth s then depth s - 1 else depth s)"
      and n: "n \<in> dom (queue_of c (disk s))" "queue_of c (disk s') \<in> {queue_of c (disk s), (queue_of c (disk s))(n := None)}"
    then show ?thesis using card [OF n] assms(1,3) by (auto simp: depth_inv_def)
  qed (use assms in \<open>simp add: depth_inv_def\<close>)
qed

text \<open>In every reachable state the depth counter is non-negative and never exceeds the number of
  pending files, so the limit check never refuses a signal while fewer than \<^verbatim>\<open>maxDepth\<close> files
  are pending, whatever faults the disk has had.\<close>

theorem depth_never_overcounts:
  assumes "spool_reach c perm forward onDead s w"
  shows "0 \<le> depth s \<and> depth s \<le> int (card (dom (queue_of c (disk s))))"
proof -
  from assms have "depth_inv c s"
  proof induction
    case (reach_new now d s d' w)
    then show ?case using New_facts [OF reach_new] by (simp add: depth_inv_def)
  next
    case (reach_enqueue s w now b r s')
    then show ?case using depth_inv_enqueue by blast
  next
    case (reach_forward s w now res s' w')
    then have "wf_fs (disk s)" by (simp add: depth_inv_def)
    from forwardOldest_attempt [OF reach_forward.hyps(2) this] reach_forward.IH show ?case
      using depth_inv_follows by blast
  qed
  then show ?thesis by (simp add: depth_inv_def)
qed

lemma depth_never_overcounts_witness:
  "\<exists>s d. New cfg1 5 (empty_fs []) = (Inr s, d) \<and> 0 \<le> depth s \<and> depth s \<le> int (card (dom (queue_of cfg1 (disk s))))"
proof -
  obtain s d where n: "New cfg1 5 (empty_fs []) = (Inr s, d)"
    by (auto simp: New_def os_plain_def syscall_def listPending_def os_read_dir_def next_fault_def empty_fs_def
        pop_fault_def dir_names_def)
  have "spool_reach cfg1 (\<lambda>e. False) (\<lambda>b (). (None, ())) id s ()" by (rule reach_new [OF n]) simp
  from depth_never_overcounts [OF this] n show ?thesis by blast
qed

section \<open>Order and names\<close>

text \<open>Oldest first: in any listing of pending names the code generated, a signal enqueued at an
  earlier time comes before one enqueued later, and at the same time the lower sequence number comes
  first; sorting the zero-padded names is sorting by age.\<close>

theorem spool_name_order:
  assumes "0 \<le> t" "t < 10 ^ 20" "0 \<le> u" "u < 10 ^ 20" "unat m < 10 ^ 6" "unat n < 10 ^ 6"
  shows "spool_name t m < spool_name u n \<longleftrightarrow> t < u \<or> (t = u \<and> m < n)"
proof -
  consider "t < u" | "u < t" | "t = u" "m < n" | "t = u" "n < m" | "t = u" "m = n" by fastforce
  then show ?thesis
  proof cases
    case 1 then show ?thesis using spool_name_less_time [of t u m n] assms by simp
  next
    case 2 then show ?thesis using spool_name_less_time [of u t n m] assms by auto
  next
    case 3 then show ?thesis using spool_name_less_seq [of t m n] assms by simp
  next
    case 4 then show ?thesis using spool_name_less_seq [of t n m] assms by auto
  qed simp
qed

lemma spool_name_order_witness: "spool_name 5 7 < spool_name 12 1 \<longleftrightarrow> (5::int) < 12 \<or> ((5::int) = 12 \<and> (7 :: 64 word) < 1)"
  by (rule spool_name_order) simp_all

text \<open>Round trip: the enqueue time is recovered from the file name for every
  \<^verbatim>\<open>int64\<close> nanosecond time since the epoch, and two names agree only for the same time and
  sequence number.\<close>

theorem spool_name_roundtrip:
  assumes "0 \<le> t" "t < 2 ^ 63" "0 \<le> u"
  shows "parseSpoolTime (spool_name t n) = Some t \<and> (spool_name t n = spool_name u m \<longleftrightarrow> t = u \<and> n = m)"
  using parseSpoolTime_spool_name [OF assms(1,2)] spool_name_inj [OF assms(1,3)] by blast

lemma spool_name_roundtrip_witness:
  "parseSpoolTime (spool_name 1768482453000000000 3) = Some 1768482453000000000
    \<and> (spool_name 1768482453000000000 3 = spool_name 4 3 \<longleftrightarrow> (1768482453000000000 :: int) = 4 \<and> (3 :: 64 word) = 3)"
  by (rule spool_name_roundtrip) simp_all

section \<open>The delivery loop\<close>

definition backoff_after :: "nat \<Rightarrow> int" where
  "backoff_after k = ((\<lambda>b. snd (run_pause (False, Some ErrFull) b)) ^^ k) second"

lemma run_pause_error: "run_pause (False, Some e) b = (AwaitBackoff b, min maxBackoff (2 * b))"
  by (auto simp: run_pause_def)

text \<open>The backoff after \<open>k\<close> failures in a row is \<open>2^k\<close> seconds capped at 30 seconds; progress
  resets it to one second and waits for nothing, and an idle turn keeps it.\<close>

theorem backoff_doubles_to_cap:
  "backoff_after k = min (30 * second) (2 ^ k * second) \<and> run_pause (True, r) b = (NoPause, second)
   \<and> run_pause (False, None) b = (AwaitWork (2 * second), b)"
proof -
  have "backoff_after k = min (30 * second) (2 ^ k * second)"
  proof (induction k)
    case (Suc k)
    have "backoff_after (Suc k) = min maxBackoff (2 * backoff_after k)"
      by (simp add: backoff_after_def run_pause_error)
    then show ?case unfolding Suc by (auto simp: maxBackoff_def second_def min_def)
  qed (simp add: backoff_after_def second_def)
  then show ?thesis by (simp add: run_pause_def)
qed

text \<open>A turn in which the destination confirms the head and \<^verbatim>\<open>os.Remove\<close> fails.\<close>

lemma stuck_turn:
  assumes "head_is (queue_of c (disk s)) n b" "forward b w = (None, w1)"
    and "fs_faults (disk s) = NoFault # NoFault # Fault e # fl" "wf_fs (disk s)"
  shows "\<exists>s'. run_turn c perm forward onDead now (bo, s, w) = (NoPause, second, s', w1) \<and> wf_fs (disk s')
    \<and> queue_of c (disk s') = queue_of c (disk s) \<and> fs_faults (disk s') = fl
    \<and> depth s' = (if 0 < depth s then depth s - 1 else depth s)"
proof -
  define s1 where "s1 = s\<lparr>disk := pop_fault (disk s)\<rparr>"
  obtain r where "listPending c (disk s) = (Inr r, pop_fault (disk s))"
    using assms(3) by (simp add: listPending_def os_read_dir_def syscall_def next_fault_def)
  note l = this listPending_result(2) [OF this assms(4) refl]
  obtain ms where r: "r = n # ms"
  proof (cases r)
    case Nil
    then show ?thesis using l(2) assms(1) by (auto simp: head_is_def)
  next
    case (Cons m ms)
    then obtain p where "head_is (queue_of c (disk s)) m p" using sorted_head [of m ms "queue_of c (disk s)"] l(2) by auto
    then have "m \<le> n" using assms(1) by (auto simp: head_is_def)
    moreover have "m \<in> dom (queue_of c (disk s))" using Cons l(2) by auto
    then have "n \<le> m" using assms(1) by (simp add: head_is_def)
    ultimately show ?thesis using that Cons by simp
  qed
  define s2 where "s2 = updateOldestPending now r s1"
  have d2: "disk s2 = pop_fault (disk s)" "depth s2 = depth s" by (simp_all add: s2_def s1_def)
  have "os_read_file (dir c, n) (disk s2) = (Inr b, pop_fault (disk s2))"
    using assms(1,3) by (auto simp: os_read_file_def syscall_def next_fault_def d2 pop_fault_def head_is_def queue_of_def
        file_content_def lookup_path_def split: if_splits option.splits)
  then have rd: "on_disk (os_read_file (dir c, n)) s2 = (Inr b, s2\<lparr>disk := pop_fault (disk s2)\<rparr>)" by (simp add: on_disk_def)
  define s3 where "s3 = s2\<lparr>disk := pop_fault (disk s2)\<rparr>"
  have rm: "snd (os_remove (dir c, n) (disk s3)) = pop_fault (disk s3)"
    using assms(3) by (simp add: os_remove_def syscall_def next_fault_def s3_def d2 pop_fault_def)
  define s' where "s' = finish_delivery c now n s3"
  have d': "disk s' = pop_fault (pop_fault (pop_fault (disk s)))"
    using rm by (simp add: s'_def finish_delivery_def s3_def d2)
  have "forward_head c perm forward onDead now n s2 w = ((True, None), s', w1)"
    by (simp add: forward_head_def rd assms(2) s'_def s3_def)
  moreover have "on_disk (listPending c) s = (Inr r, s1)" using l(1) by (simp add: on_disk_def s1_def)
  ultimately have "forwardOldest c perm forward onDead now s w = ((True, None), s', w1)"
    by (simp add: forwardOldest_def Let_def r s2_def)
  then have "run_turn c perm forward onDead now (bo, s, w) = (NoPause, second, s', w1)"
    by (simp add: run_turn_def run_pause_def)
  moreover have "depth s' = (if 0 < depth s then depth s - 1 else depth s)"
    using finish_delivery_outcome(4) [of s3 c now n] assms(4) by (simp add: s'_def s3_def d2)
  moreover have "wf_fs (disk s')" "queue_of c (disk s') = queue_of c (disk s)" using assms(4) by (simp_all add: d')
  moreover have "fs_faults (disk s') = fl" using assms(3) by (simp add: d' pop_fault_def)
  ultimately show ?thesis by blast
qed

text \<open>The faults under which only the removals of as many turns fail.\<close>

definition failing_removals :: "string list \<Rightarrow> fault list" where
  "failing_removals es = concat (map (\<lambda>e. [NoFault, NoFault, Fault e]) es)"

text \<open>C36. A delivered signal whose file cannot be removed is delivered again at once: the error of
  \<^verbatim>\<open>os.Remove\<close> is dropped, so the attempt counts as progress and the loop does not pause. For any spool
  whose head is \<open>n\<close> and any number of failing removals in a row, every turn delivers the payload once more without
  a pause, the file stays pending, and the depth counter goes down each time as if the signal had left.\<close>

theorem removal_failure_redelivers:
  assumes "wf_fs (disk s)" "0 \<le> depth s" "head_is (queue_of c (disk s)) n b"
    and "fs_faults (disk s) = failing_removals es @ fl" "length nows = length es"
    and "\<And>w. fst (forward b w) = None"
  shows "\<exists>bo' s' w'. Run c perm (confirming forward) onDead nows (bo, s, (w, cs))
      = (replicate (length es) NoPause, bo', s', (w', cs @ replicate (length es) b))
    \<and> queue_of c (disk s') = queue_of c (disk s) \<and> depth s' = max 0 (depth s - int (length es))"
  using assms(1-5)
proof (induction es arbitrary: nows bo s w cs)
  case (Cons e es)
  obtain now nows' where nows: "nows = now # nows'" using Cons.prems(5) by (cases nows) auto
  obtain w1 where f: "forward b w = (None, w1)" using assms(6) [of w] by (cases "forward b w") simp
  then have f: "confirming forward b (w, cs) = (None, (w1, cs @ [b]))" by (simp add: confirming_def)
  have fl: "fs_faults (disk s) = NoFault # NoFault # Fault e # failing_removals es @ fl"
    using Cons.prems(4) by (simp add: failing_removals_def)
  obtain s1 where t: "run_turn c perm (confirming forward) onDead now (bo, s, (w, cs)) = (NoPause, second, s1, (w1, cs @ [b]))"
      "wf_fs (disk s1)" "queue_of c (disk s1) = queue_of c (disk s)" "fs_faults (disk s1) = failing_removals es @ fl"
      "depth s1 = (if 0 < depth s then depth s - 1 else depth s)"
    using stuck_turn [where forward = "confirming forward", OF Cons.prems(3) f fl Cons.prems(1), of perm onDead now bo] by blast
  from Cons.IH [of s1 nows' second w1 "cs @ [b]"] obtain bo' s' w' where
    "Run c perm (confirming forward) onDead nows' (second, s1, (w1, cs @ [b]))
      = (replicate (length es) NoPause, bo', s', (w', (cs @ [b]) @ replicate (length es) b))"
    "queue_of c (disk s') = queue_of c (disk s1)" "depth s' = max 0 (depth s1 - int (length es))"
    using t Cons.prems(2,3,5) by (auto simp: nows split: if_splits)
  then show ?case using t(1,3,5) Cons.prems(2) by (auto simp: nows max_def)
qed (simp add: failing_removals_def max_def)

theorem removal_failure_redelivers_witness:
  "\<exists>s bo' s'. wf_fs (disk s) \<and> depth s = 1 \<and> queue_of cfg1 (disk s) (spool_name 5 1) = Some ''x''
    \<and> Run cfg1 (\<lambda>e. False) (confirming (\<lambda>b h. (None, h))) id [6, 7] (second, s, ((), []))
      = ([NoPause, NoPause], bo', s', ((), [''x'', ''x'']))
    \<and> queue_of cfg1 (disk s') = queue_of cfg1 (disk s) \<and> depth s' = 0"
proof -
  define s where "s = (snd (Enqueue cfg1 5 ''x'' spool1))\<lparr>disk := (disk (snd (Enqueue cfg1 5 ''x'' spool1)))
      \<lparr>fs_faults := failing_removals [''EIO'', ''EIO'']\<rparr>\<rparr>"
  have "wf_fs (disk (snd (Enqueue cfg1 5 ''x'' spool1)))"
    using Enqueue_outcome [of cfg1 5 "''x''" spool1] by (simp add: spool1_def prod_eq_iff)
  then have wf: "wf_fs (disk s)" by (simp add: s_def)
  have q: "dom (queue_of cfg1 (disk s)) = {spool_name 5 1}" "queue_of cfg1 (disk s) (spool_name 5 1) = Some ''x''" "depth s = 1"
    unfolding queue_dom_names s_def by code_simp+
  have h: "head_is (queue_of cfg1 (disk s)) (spool_name 5 1) ''x''" using q by (simp add: head_is_def)
  have f: "fs_faults (disk s) = failing_removals [''EIO'', ''EIO''] @ []" by (simp add: s_def)
  have "0 \<le> depth s" using q by simp
  from removal_failure_redelivers [OF wf this h f, of "[6, 7]" "\<lambda>b h. (None, h)" "\<lambda>e. False" id second "()" "[]"] wf q
  show ?thesis by (intro exI [of _ s]) (simp add: numeral_2_eq_2)
qed

end
