(* ===== verification/Interleave.thy ===== *)
theory Interleave
  imports Prelude
begin

text \<open>
  Interleaved execution: goroutines as processes, numbered, each with a control state of its own,
  working on one shared state. An atomic step is a critical section, a system call or a hook call of one
  goroutine. The locale \<open>interference_free\<close> is the method of Owicki and Gries: local assertions that
  every process keeps for itself and that no other process disturbs hold in every reachable state.
\<close>

section \<open>Execution\<close>

inductive par_step :: "('p \<Rightarrow> 's \<Rightarrow> 'p \<Rightarrow> 's \<Rightarrow> bool) \<Rightarrow> (nat \<Rightarrow> 'p) \<times> 's \<Rightarrow> (nat \<Rightarrow> 'p) \<times> 's \<Rightarrow> bool"
  for step where
  pick: "step (P i) s p' s' \<Longrightarrow> par_step step (P, s) (P(i := p'), s')"

inductive par_reach ::
  "('p \<Rightarrow> 's \<Rightarrow> 'p \<Rightarrow> 's \<Rightarrow> bool) \<Rightarrow> ((nat \<Rightarrow> 'p) \<Rightarrow> 's \<Rightarrow> bool) \<Rightarrow> (nat \<Rightarrow> 'p) \<Rightarrow> 's \<Rightarrow> bool"
  for step init where
  start: "init P s \<Longrightarrow> par_reach step init P s"
| advance: "par_reach step init P s \<Longrightarrow> step (P i) s p' s' \<Longrightarrow> par_reach step init (P(i := p')) s'"

lemma par_reach_step: "par_reach step init P s \<Longrightarrow> par_step step (P, s) (Q, t) \<Longrightarrow> par_reach step init Q t"
  by (auto elim!: par_step.cases intro: par_reach.advance)

text \<open>How many processes are at certain places, and how a step changes the number.\<close>

definition crew :: "('p \<Rightarrow> bool) \<Rightarrow> (nat \<Rightarrow> 'p) \<Rightarrow> nat set" where
  "crew at P = {i. at (P i)}"

lemma crew_update:
  assumes "finite (crew at P)"
  shows "finite (crew at (P(i := p')))"
    "int (card (crew at (P(i := p')))) = int (card (crew at P)) + of_bool (at p') - of_bool (at (P i))"
proof -
  have h: "crew at (P(i := p')) = (if at p' then insert i (crew at P) else crew at P - {i})"
    by (auto simp: crew_def)
  then show "finite (crew at (P(i := p')))" using assms by simp
  have i: "i \<in> crew at P \<longleftrightarrow> at (P i)" by (simp add: crew_def)
  show "int (card (crew at (P(i := p')))) = int (card (crew at P)) + of_bool (at p') - of_bool (at (P i))"
    using assms i card_Suc_Diff1 [OF assms, of i]
    by (auto simp: h card_insert_if)
qed

section \<open>Interference freedom\<close>

locale interference_free =
  fixes step :: "'p \<Rightarrow> 's \<Rightarrow> 'p \<Rightarrow> 's \<Rightarrow> bool"
    and init :: "(nat \<Rightarrow> 'p) \<Rightarrow> 's \<Rightarrow> bool"
    and shared :: "'s \<Rightarrow> bool"
    and own :: "'p \<Rightarrow> 's \<Rightarrow> bool"
    and apart :: "'p \<Rightarrow> 'p \<Rightarrow> bool"
  assumes starts: "init P s \<Longrightarrow> shared s \<and> (\<forall>i. own (P i) s) \<and> (\<forall>i j. i \<noteq> j \<longrightarrow> apart (P i) (P j))"
    and apart_sym: "apart p q \<Longrightarrow> apart q p"
    and keeps: "shared s \<Longrightarrow> own p s \<Longrightarrow> step p s p' s' \<Longrightarrow> shared s' \<and> own p' s'"
    and spares: "shared s \<Longrightarrow> own p s \<Longrightarrow> own q s \<Longrightarrow> apart p q \<Longrightarrow> step p s p' s' \<Longrightarrow> own q s' \<and> apart p' q"
begin

lemma reach_assertions:
  assumes "par_reach step init P s"
  shows "shared s \<and> (\<forall>i. own (P i) s) \<and> (\<forall>i j. i \<noteq> j \<longrightarrow> apart (P i) (P j))"
  using assms
proof induction
  case (start P s)
  then show ?case by (rule starts)
next
  case (advance P s i p' s')
  then have s: "shared s" and o: "own (P j) s" and a: "j \<noteq> k \<Longrightarrow> apart (P j) (P k)" for j k by auto
  have k: "shared s'" "own p' s'" using keeps [OF s o advance.hyps(2)] by auto
  have sp: "own (P j) s' \<and> apart p' (P j)" if "j \<noteq> i" for j
    using spares [OF s o o a [OF that [symmetric]] advance.hyps(2)] .
  show ?case
  proof (intro conjI allI impI)
    show "own ((P(i := p')) j) s'" for j using k sp by simp
    show "apart ((P(i := p')) j) ((P(i := p')) l)" if "j \<noteq> l" for j l
      using that a sp apart_sym by (cases "j = i"; cases "l = i") auto
  qed (rule k)
qed

lemma reach_own: "par_reach step init P s \<Longrightarrow> own (P i) s"
  using reach_assertions by blast

lemma reach_shared: "par_reach step init P s \<Longrightarrow> shared s"
  using reach_assertions by blast

lemma reach_apart: "par_reach step init P s \<Longrightarrow> i \<noteq> j \<Longrightarrow> apart (P i) (P j)"
  using reach_assertions by blast

text \<open>An invariant of the whole that rests on the assertions.\<close>

lemma reach_invariant:
  assumes "par_reach step init P s"
    and "\<And>P s. init P s \<Longrightarrow> J P s"
    and "\<And>P s i p' s'. shared s \<Longrightarrow> (\<And>j. own (P j) s) \<Longrightarrow> (\<And>j k. j \<noteq> k \<Longrightarrow> apart (P j) (P k)) \<Longrightarrow>
      J P s \<Longrightarrow> step (P i) s p' s' \<Longrightarrow> J (P(i := p')) s'"
  shows "J P s"
  using assms(1)
proof induction
  case (start P s)
  then show ?case by (rule assms(2))
next
  case (advance P s i p' s')
  then show ?case using assms(3) reach_assertions [OF advance.hyps(1)] by blast
qed

end

end
