(* ===== verification/SpoolSteps.thy ===== *)
theory SpoolSteps
  imports SpoolLaws Interleave
begin

text \<open>
  internal/spool/spool.go under concurrent use: one goroutine per call of \<^verbatim>\<open>Enqueue\<close> (the HTTP
  handlers) and one running the delivery loop. A goroutine is a control state and a step function whose
  steps are what the other goroutines cannot interrupt: a critical section under \<^verbatim>\<open>s.mu\<close>, one
  system call, one hook call, one channel operation. Run alone, the steps are the operations of
  theory \<open>Spool\<close>; the theory shows that first, then what holds under every interleaving.
\<close>

section \<open>Enqueue in steps\<close>

text \<open>
  Where a call is once it has its file name. \<open>ReadingDepth\<close> and \<open>DepthHook\<close> are the two halves of
  \<^verbatim>\<open>reportDepth\<close>, reached after the rename (\<open>None\<close>) or from \<^verbatim>\<open>decDepth\<close> on an error.
\<close>

datatype enq_at =
    Opening | Writing inode | Fsyncing inode | Closing | ClosingFailed goerr
  | Renaming | Removing goerr | Releasing goerr
  | ReadingDepth gores | DepthHook gores int
  | Nudging | SyncOpening | SyncingDir | SyncClosing gores
  | RecordingSuccess | RecordingFailure goerr | FailureHook goerr
  | Abandoned goerr | Answered gores

text \<open>A call before its reservation, refused by it, or \<open>At\<close> a place with the name and the payload.\<close>

datatype enq_pc = Idle | Reserving bytes | Refused goerr | At enq_at bytes bytes

fun enq_at_step :: "spool_cfg \<Rightarrow> bytes \<Rightarrow> bytes \<Rightarrow> enq_at \<Rightarrow> Spool \<Rightarrow> enq_at \<times> Spool" where
  "enq_at_step c n b Opening s =
     (case on_disk (os_open_trunc (tmp_path c n)) s of
        (Inl e, s1) \<Rightarrow> (Removing (Wrapf ''failed to create spool temp file'' e), s1)
      | (Inr f, s1) \<Rightarrow> (Writing f, s1))"
| "enq_at_step c n b (Writing f) s =
     (case on_disk (os_write f b) s of
        (Inl e, s1) \<Rightarrow> (ClosingFailed (Wrapf ''failed to write spool file'' e), s1)
      | (Inr _, s1) \<Rightarrow> (Fsyncing f, s1))"
| "enq_at_step c n b (Fsyncing f) s =
     (case on_disk (sync_if (fsyncEnabled c) f) s of
        (Inl e, s1) \<Rightarrow> (ClosingFailed (Wrapf ''failed to fsync spool temp file'' e), s1)
      | (Inr _, s1) \<Rightarrow> (Closing, s1))"
| "enq_at_step c n b Closing s =
     (case on_disk os_plain s of
        (Inl e, s1) \<Rightarrow> (Removing (Wrapf ''failed to close spool temp file'' e), s1)
      | (Inr _, s1) \<Rightarrow> (Renaming, s1))"
| "enq_at_step c n b (ClosingFailed e) s = (Removing e, snd (on_disk os_plain s))"
| "enq_at_step c n b Renaming s =
     (case on_disk (os_rename (tmp_path c n) (final_path c n)) s of
        (Inl e, s1) \<Rightarrow> (Removing (Wrapf ''failed to commit spool file'' e), s1)
      | (Inr _, s1) \<Rightarrow> (ReadingDepth None, s1))"
| "enq_at_step c n b (Removing e) s = (Releasing e, snd (on_disk (os_remove (tmp_path c n)) s))"
| "enq_at_step c n b (Releasing e) s = (ReadingDepth (Some e), release s)"
| "enq_at_step c n b (ReadingDepth r) s = (DepthHook r (Depth s), s)"
| "enq_at_step c n b (DepthHook r d) s =
     (case r of None \<Rightarrow> Nudging | Some e \<Rightarrow> Abandoned e, emit (OnDepth d) s)"
| "enq_at_step c n b Nudging s =
     (if fsyncEnabled c then SyncOpening else Answered None, s\<lparr>wake := True\<rparr>)"
| "enq_at_step c n b SyncOpening s =
     (case on_disk os_plain s of
        (Inl e, s1) \<Rightarrow> (RecordingFailure e, s1)
      | (Inr _, s1) \<Rightarrow> (SyncingDir, s1))"
| "enq_at_step c n b SyncingDir s =
     (case on_disk (os_fsync_dir (dir c)) s of
        (Inl e, s1) \<Rightarrow> (SyncClosing (Some e), s1)
      | (Inr _, s1) \<Rightarrow> (SyncClosing None, s1))"
| "enq_at_step c n b (SyncClosing r) s =
     (case r of None \<Rightarrow> RecordingSuccess | Some e \<Rightarrow> RecordingFailure e, snd (on_disk os_plain s))"
| "enq_at_step c n b RecordingSuccess s = (Answered None, recordDirFsyncSuccess s)"
| "enq_at_step c n b (RecordingFailure e) s =
     (case recordDirFsyncFailure s of (k, s1) \<Rightarrow>
        (FailureHook (Wrapf (''failed to fsync spool directory (consecutive failures: '' @ show_int k @ '')'') e), s1))"
| "enq_at_step c n b (FailureHook e) s = (Answered (Some e), emit OnDirFsyncFailure s)"
| "enq_at_step c n b (Abandoned e) s = (Abandoned e, s)"
| "enq_at_step c n b (Answered r) s = (Answered r, s)"

fun enq_step :: "spool_cfg \<Rightarrow> instant \<Rightarrow> enq_pc \<times> Spool \<Rightarrow> enq_pc \<times> Spool" where
  "enq_step c now (Reserving b, s) =
     (case reserve c now s of
        (Inl e, s1) \<Rightarrow> (Refused e, s1)
      | (Inr n, s1) \<Rightarrow> (At Opening n b, s1))"
| "enq_step c now (At ph n b, s) = (case enq_at_step c n b ph s of (ph', s1) \<Rightarrow> (At ph' n b, s1))"
| "enq_step c now (pc, s) = (pc, s)"

text \<open>What a call has returned, once it has.\<close>

fun enq_result :: "enq_pc \<Rightarrow> gores option" where
  "enq_result (Refused e) = Some (Some e)"
| "enq_result (At (Abandoned e) n b) = Some (Some e)"
| "enq_result (At (Answered r) n b) = Some r"
| "enq_result pc = None"

section \<open>Run in steps\<close>

text \<open>
  Where the delivery loop is. \<open>Freeing\<close> to \<open>FinalHook\<close> are \<^verbatim>\<open>decDepth\<close> and the hook after
  it, for the delivered signal of a name or for a dead letter (\<open>None\<close>); \<open>Attempted\<close> is the return
  from \<^verbatim>\<open>forwardOldest\<close>.
\<close>

datatype fwd_pc =
    Top | Updating "bytes list" | AgeHook "bytes list" "instant option" | Reading bytes | Forwarding bytes bytes
  | FailedHook goerr | Burying bytes | RemovingFile bytes
  | Freeing "bytes option" | FreedDepth "bytes option" | FreedHook "bytes option" int | FinalHook "bytes option"
  | Attempted "bool \<times> gores" | AwaitingWork int | AwaitingBackoff int | Stopped

fun fwd_step ::
  "spool_cfg \<Rightarrow> (goerr \<Rightarrow> bool) \<Rightarrow> (bytes \<Rightarrow> 'w \<Rightarrow> gores \<times> 'w) \<Rightarrow> ('w \<Rightarrow> 'w) \<Rightarrow> instant
    \<Rightarrow> fwd_pc \<times> Spool \<times> 'w \<Rightarrow> fwd_pc \<times> Spool \<times> 'w" where
  "fwd_step c perm forward onDead now (Top, s, w) =
     (case on_disk (listPending c) s of
        (Inl e, s1) \<Rightarrow> (Attempted (False, Some e), s1, w)
      | (Inr pending, s1) \<Rightarrow> (Updating pending, s1, w))"
| "fwd_step c perm forward onDead now (Updating ps, s, w) =
     (AgeHook ps (oldest_of ps), s\<lparr>oldestPendingAt := oldest_of ps\<rparr>, w)"
| "fwd_step c perm forward onDead now (AgeHook ps t, s, w) =
     (case ps of [] \<Rightarrow> Attempted (False, None) | n # _ \<Rightarrow> Reading n, report_age now t s, w)"
| "fwd_step c perm forward onDead now (Reading n, s, w) =
     (case on_disk (os_read_file (dir c, n)) s of
        (Inl e, s1) \<Rightarrow> (Burying n, s1, w)
      | (Inr b, s1) \<Rightarrow> (Forwarding n b, s1, w))"
| "fwd_step c perm forward onDead now (Forwarding n b, s, w) =
     (case forward b w of
        (Some e, w1) \<Rightarrow> (if perm e then Burying n else FailedHook e, s, w1)
      | (None, w1) \<Rightarrow> (RemovingFile n, s, w1))"
| "fwd_step c perm forward onDead now (FailedHook e, s, w) = (Attempted (False, Some e), emit OnFailed s, w)"
| "fwd_step c perm forward onDead now (Burying n, s, w) =
     (case on_disk (os_rename (dir c, n) (dead_dir c, n)) s of
        (Inl _, s1) \<Rightarrow> (Attempted (True, None), s1, w)
      | (Inr _, s1) \<Rightarrow> (Freeing None, s1, w))"
| "fwd_step c perm forward onDead now (RemovingFile n, s, w) =
     (Freeing (Some n), snd (on_disk (os_remove (dir c, n)) s), w)"
| "fwd_step c perm forward onDead now (Freeing r, s, w) = (FreedDepth r, release s, w)"
| "fwd_step c perm forward onDead now (FreedDepth r, s, w) = (FreedHook r (Depth s), s, w)"
| "fwd_step c perm forward onDead now (FreedHook r d, s, w) = (FinalHook r, emit (OnDepth d) s, w)"
| "fwd_step c perm forward onDead now (FinalHook r, s, w) =
     (case r of
        None \<Rightarrow> (Attempted (True, None), emit OnDead s, onDead w)
      | Some n \<Rightarrow> (Attempted (True, None), report_delivered now n s, w))"
| "fwd_step c perm forward onDead now (pc, s, w) = (pc, s, w)"

section \<open>Run alone, the steps are the operations\<close>

lemma run_stable: "f x = x \<Longrightarrow> (f ^^ k) x = x"
  by (induction k) simp_all

lemma on_disk_map: "on_disk act s = (map_prod id (\<lambda>d. s\<lparr>disk := d\<rparr>)) (act (disk s))"
  by (simp add: on_disk_def split: prod.split)

text \<open>The steps from a place that have to be counted, folded one at a time.\<close>

lemma run_Suc: "(f ^^ Suc k) x = (f ^^ k) (f x)"
  by (simp add: funpow_swap1)

lemma enq_run_done:
  "(enq_step c now ^^ k) (Refused e, s) = (Refused e, s)"
  "(enq_step c now ^^ k) (At (Abandoned e) n b, s) = (At (Abandoned e) n b, s)"
  "(enq_step c now ^^ k) (At (Answered r) n b, s) = (At (Answered r) n b, s)"
  by (rule run_stable; simp)+

lemma run_pred: "0 < k \<Longrightarrow> (f ^^ k) x = (f ^^ (k - 1)) (f x)"
  by (metis Suc_diff_1 run_Suc)

lemmas enq_run_next =
  run_pred [where f = "enq_step c now" and x = "(At Opening n b, s)" for c now n b s]
  run_pred [where f = "enq_step c now" and x = "(At (Writing f) n b, s)" for c now n b s f]
  run_pred [where f = "enq_step c now" and x = "(At (Fsyncing f) n b, s)" for c now n b s f]
  run_pred [where f = "enq_step c now" and x = "(At Closing n b, s)" for c now n b s]
  run_pred [where f = "enq_step c now" and x = "(At (ClosingFailed e) n b, s)" for c now n b s e]
  run_pred [where f = "enq_step c now" and x = "(At Renaming n b, s)" for c now n b s]

text \<open>Giving up takes four steps, the directory fsync six at most.\<close>

lemma enq_run_abandon:
  "(enq_step c now ^^ (k + 4)) (At (Removing e) n b, s) = (At (Abandoned e) n b, abandon c n s)"
  by (simp add: eval_nat_numeral run_Suc enq_run_done abandon_def decDepth_def reportDepth_def del: funpow.simps)

lemma enq_run_committed:
  "(enq_step c now ^^ (k + 8)) (At (ReadingDepth None) n b, s) =
     (case dir_sync c ((reportDepth s)\<lparr>wake := True\<rparr>) of (r, s') \<Rightarrow> (At (Answered r) n b, s'))"
proof -
  let ?t = "(reportDepth s)\<lparr>wake := True\<rparr>"
  have "(enq_step c now ^^ (k + 8)) (At (ReadingDepth None) n b, s) =
      (enq_step c now ^^ (k + 5)) (At (if fsyncEnabled c then SyncOpening else Answered None) n b, ?t)"
    by (simp add: eval_nat_numeral run_Suc reportDepth_def del: funpow.simps)
  also have "\<dots> = (case dir_sync c ?t of (r, s') \<Rightarrow> (At (Answered r) n b, s'))"
  proof (cases "fsyncEnabled c")
    case False
    then show ?thesis by (simp add: dir_sync_def enq_run_done)
  next
    case True
    obtain r1 d1 where 1: "os_plain (disk s) = (r1, d1)" by fastforce
    obtain r2 d2 where 2: "os_fsync_dir (dir c) d1 = (r2, d2)" by fastforce
    obtain r3 d3 where 3: "os_plain d2 = (r3, d3)" by fastforce
    show ?thesis using True
      by (cases r1; cases r2)
        (simp_all add: eval_nat_numeral run_Suc enq_run_done on_disk_def dir_sync_def Sync_def 1 2 3
          recordDirFsyncFailure_def recordDirFsyncSuccess_def del: funpow.simps)
  qed
  finally show ?thesis .
qed

lemma Enqueue_in_steps:
  "(case (enq_step c now ^^ 14) (Reserving b, s) of (pc, s') \<Rightarrow> (enq_result pc, s'))
     = (case Enqueue c now b s of (r, s') \<Rightarrow> (Some r, s'))"
proof (cases "reserve c now s")
  case (Pair q s1)
  have start: "(enq_step c now ^^ 14) (Reserving b, s) = (enq_step c now ^^ 13) (case q of Inl e \<Rightarrow> Refused e | Inr n \<Rightarrow> At Opening n b, s1)"
    by (simp add: eval_nat_numeral run_Suc Pair split: sum.split del: funpow.simps)
  show ?thesis
  proof (cases q)
    case (Inl e)
    then show ?thesis by (simp add: start enq_run_done Enqueue_def Pair)
  next
    case (Inr n)
    have ab: "(enq_step c now ^^ k) (At (Removing e) n b, t) = (At (Abandoned e) n b, abandon c n t)" if "4 \<le> k" for e k t
      using that enq_run_abandon [of "k - 4" c now] by simp
    have co: "(enq_step c now ^^ 8) (At (ReadingDepth None) n b, t) =
       (case dir_sync c ((reportDepth t)\<lparr>wake := True\<rparr>) of (r, s') \<Rightarrow> (At (Answered r) n b, s'))" for t
      using enq_run_committed [of 0 c now] by simp
    obtain r1 d1 where 1: "os_open_trunc (tmp_path c n) (disk s1) = (r1, d1)" by fastforce
    show ?thesis
    proof (cases r1)
      case (Inl e)
      then show ?thesis
        by (simp add: start Inr enq_run_next on_disk_def 1 ab Enqueue_def Pair writeTempFile_def del: funpow.simps)
    next
      case f: (Inr f)
      obtain r2 d2 where 2: "os_write f b d1 = (r2, d2)" by fastforce
      obtain r2' d2' where 6: "os_plain d2 = (r2', d2')" by fastforce
      show ?thesis
      proof (cases r2)
        case (Inl e)
        then show ?thesis
          by (simp add: start Inr f enq_run_next on_disk_def 1 2 6 ab Enqueue_def Pair writeTempFile_def
              close_after_def del: funpow.simps)
      next
        case u: (Inr u)
        obtain r3 d3 where 3: "sync_if (fsyncEnabled c) f d2 = (r3, d3)" by fastforce
        obtain r4 d4 where 4: "os_plain d3 = (r4, d4)" by fastforce
        obtain r5 d5 where 5: "os_rename (tmp_path c n) (final_path c n) d4 = (r5, d5)" by fastforce
        show ?thesis
          by (cases r3; cases r4; cases r5)
            (simp_all add: start Inr f u enq_run_next on_disk_def 1 2 3 4 5 ab co Enqueue_def Pair writeTempFile_def
              close_after_def commit_def split: prod.split del: funpow.simps)
      qed
    qed
  qed
qed

text \<open>The same for the delivery attempt.\<close>

lemma fwd_run_done: "(fwd_step c perm forward onDead now ^^ k) (Attempted res, s, w) = (Attempted res, s, w)"
  by (rule run_stable) simp

lemma fwd_run_freeing:
  "(fwd_step c perm forward onDead now ^^ (k + 4)) (Freeing r, s, w) =
     (case r of
        None \<Rightarrow> (Attempted (True, None), emit OnDead (decDepth s), onDead w)
      | Some n \<Rightarrow> (Attempted (True, None), report_delivered now n (decDepth s), w))"
  by (cases r) (simp_all add: eval_nat_numeral run_Suc fwd_run_done decDepth_def reportDepth_def del: funpow.simps)

lemma fwd_run_burying:
  "(fwd_step c perm forward onDead now ^^ (k + 5)) (Burying n, s, w) =
     (case dead_letter_with c onDead n s w of (res, s', w') \<Rightarrow> (Attempted res, s', w'))"
proof -
  have "(fwd_step c perm forward onDead now ^^ (k + 5)) (Burying n, s, w)
     = (fwd_step c perm forward onDead now ^^ (k + 4)) (fwd_step c perm forward onDead now (Burying n, s, w))"
    by (subst run_pred) (simp_all add: add.commute)
  then show ?thesis
    by (simp add: on_disk_def dead_letter_with_def deadLetter_def fwd_run_freeing fwd_run_done
        split: prod.split sum.split)
qed

lemma fwd_run_reading:
  "(fwd_step c perm forward onDead now ^^ (k + 7)) (Reading n, s, w) =
     (case forward_head c perm forward onDead now n s w of (res, s', w') \<Rightarrow> (Attempted res, s', w'))"
proof -
  let ?f = "fwd_step c perm forward onDead now"
  have first: "(?f ^^ (k + 7)) (Reading n, s, w) = (?f ^^ (k + 6)) (?f (Reading n, s, w))"
    by (subst run_pred) (simp_all add: add.commute)
  have second: "(?f ^^ (k + 6)) (Forwarding n b, t, v) = (?f ^^ (k + 5)) (?f (Forwarding n b, t, v))" for b t v
    by (subst run_pred) (simp_all add: add.commute)
  have third: "(?f ^^ (k + 5)) (x, t, v) = (?f ^^ (k + 4)) (?f (x, t, v))" for x t v
    by (subst run_pred) (simp_all add: add.commute)
  have bury: "(?f ^^ (k + 6)) (Burying n, t, v)
      = (case dead_letter_with c onDead n t v of (res, s', w') \<Rightarrow> (Attempted res, s', w'))" for t v
    using fwd_run_burying [of "Suc k" c perm forward onDead now n t v] by (simp add: eval_nat_numeral)
  obtain r s1 where 1: "on_disk (os_read_file (dir c, n)) s = (r, s1)" by fastforce
  show ?thesis
  proof (cases r)
    case (Inl e)
    then show ?thesis by (simp add: first 1 bury forward_head_def)
  next
    case (Inr b)
    obtain q w1 where 2: "forward b w = (q, w1)" by fastforce
    show ?thesis
      by (cases q) (simp_all add: first 1 Inr second 2 fwd_run_burying third [of "RemovingFile n"] third [of "FailedHook _"]
          fwd_run_done fwd_run_freeing forward_head_def finish_delivery_def)
  qed
qed

lemma forwardOldest_in_steps:
  "(fwd_step c perm forward onDead now ^^ 10) (Top, s, w) =
     (case forwardOldest c perm forward onDead now s w of (res, s', w') \<Rightarrow> (Attempted res, s', w'))"
proof -
  let ?f = "fwd_step c perm forward onDead now"
  have ten: "(?f ^^ 10) x = (?f ^^ 7) (?f (?f (?f x)))" for x
    by (simp only: run_pred [where k = 10, of ?f, simplified] run_pred [where k = 9, of ?f, simplified]
        run_pred [where k = 8, of ?f, simplified])
  have read: "(?f ^^ 7) (Reading n, t, v) =
      (case forward_head c perm forward onDead now n t v of (res, s', w') \<Rightarrow> (Attempted res, s', w'))" for n t v
    using fwd_run_reading [of 0 c perm forward onDead now n t v] by simp
  show ?thesis
    by (simp add: ten read fwd_run_done forwardOldest_def updateOldestPending_def Let_def
        split: prod.split sum.split list.split)
qed

end
