(* ===== verification/SpoolConc.thy ===== *)
theory SpoolConc
  imports SpoolSteps
begin

text \<open>
  All goroutines of the spool together: process 0 is \<^verbatim>\<open>Run\<close>, every other one a call of
  \<^verbatim>\<open>Enqueue\<close>. The theory proves, by the method of theory \<open>Interleave\<close>, what holds under every
  interleaving: an acknowledged signal is safe, the queue stays within its limit, no wake-up is lost.
\<close>

section \<open>The processes\<close>

text \<open>\<open>Deliverer\<close> carries the backoff of the loop. \<open>unremoved\<close> counts the deliveries whose file the
  operating system refused to remove; no step reads it.\<close>

datatype proc = Caller enq_pc | Deliverer fwd_pc int

record 'w world =
  sp :: Spool
  dest :: 'w
  unremoved :: nat

text \<open>Where the loop of \<^verbatim>\<open>Run\<close> goes after an attempt.\<close>

fun after_pause :: "pause \<Rightarrow> fwd_pc" where
  "after_pause NoPause = Top"
| "after_pause (AwaitWork d) = AwaitingWork d"
| "after_pause (AwaitBackoff d) = AwaitingBackoff d"

text \<open>
  What is asked of the clock and the counter when a name is formed: the time is not before the epoch,
  the name is not one a former run left in the directory (\<open>old\<close>), and the 64-bit counter has not
  come round.
\<close>

definition clock_ok :: "bytes set \<Rightarrow> instant \<Rightarrow> Spool \<Rightarrow> bool" where
  "clock_ok old now s \<longleftrightarrow> 0 \<le> now \<and> spool_name now (seq s + 1) \<notin> old \<and> unat (seq s) + 1 < 2 ^ 64"

inductive proc_step ::
  "spool_cfg \<Rightarrow> (goerr \<Rightarrow> bool) \<Rightarrow> (bytes \<Rightarrow> 'w \<Rightarrow> gores \<times> 'w) \<Rightarrow> ('w \<Rightarrow> 'w) \<Rightarrow> bytes set
    \<Rightarrow> proc \<Rightarrow> 'w world \<Rightarrow> proc \<Rightarrow> 'w world \<Rightarrow> bool"
  for c perm forward onDead old where
  call: "proc_step c perm forward onDead old (Caller Idle) \<sigma> (Caller (Reserving b)) \<sigma>"
| enqueue: "enq_step c now (pc, sp \<sigma>) = (pc', s') \<Longrightarrow> (\<And>b. pc = Reserving b \<Longrightarrow> clock_ok old now (sp \<sigma>)) \<Longrightarrow>
    proc_step c perm forward onDead old (Caller pc) \<sigma> (Caller pc') (\<sigma>\<lparr>sp := s'\<rparr>)"
| deliver: "fwd_step c perm forward onDead now (pc, sp \<sigma>, dest \<sigma>) = (pc', s', w') \<Longrightarrow>
    u = (case pc of RemovingFile n \<Rightarrow> if n \<in> dom (queue_of c (disk s')) then 1 else 0 | _ \<Rightarrow> 0) \<Longrightarrow>
    proc_step c perm forward onDead old (Deliverer pc bo) \<sigma> (Deliverer pc' bo)
      \<lparr>sp = s', dest = w', unremoved = unremoved \<sigma> + u\<rparr>"
| pause: "run_pause res bo = (p, bo') \<Longrightarrow>
    proc_step c perm forward onDead old (Deliverer (Attempted res) bo) \<sigma> (Deliverer (after_pause p) bo') \<sigma>"
| woken: "wake (sp \<sigma>) \<Longrightarrow> proc_step c perm forward onDead old (Deliverer (AwaitingWork d) bo) \<sigma>
    (Deliverer Top bo) (\<sigma>\<lparr>sp := (sp \<sigma>)\<lparr>wake := False\<rparr>\<rparr>)"
| timer: "pc = AwaitingWork d \<or> pc = AwaitingBackoff d \<Longrightarrow>
    proc_step c perm forward onDead old (Deliverer pc bo) \<sigma> (Deliverer Top bo) \<sigma>"
| cancelled: "pc = Top \<or> pc = AwaitingWork d \<or> pc = AwaitingBackoff d \<Longrightarrow>
    proc_step c perm forward onDead old (Deliverer pc bo) \<sigma> (Deliverer Stopped bo) \<sigma>"

text \<open>The start: \<^verbatim>\<open>New\<close> has succeeded on a well-formed disk, nobody has called yet, and the
  destination, in state \<open>w0\<close>, has confirmed nothing. \<open>old\<close> is the queue \<^verbatim>\<open>New\<close> has found.\<close>

definition spool_start ::
  "spool_cfg \<Rightarrow> (bytes \<rightharpoonup> bytes) \<Rightarrow> 'w \<Rightarrow> (nat \<Rightarrow> proc) \<Rightarrow> ('w \<times> bytes list) world \<Rightarrow> bool" where
  "spool_start c old w0 P \<sigma> \<longleftrightarrow>
     P = (\<lambda>i. Caller Idle)(0 := Deliverer Top second) \<and> dest \<sigma> = (w0, []) \<and> unremoved \<sigma> = 0
     \<and> (\<exists>now d d'. New c now d = (Inr (sp \<sigma>), d') \<and> wf_fs d \<and> old = queue_of c d)"

section \<open>Assertions\<close>

text \<open>Places after the rename, and among them those after a directory fsync that succeeded.\<close>

fun committed :: "enq_at \<Rightarrow> bool" where
  "committed (ReadingDepth r) = (r = None)"
| "committed (DepthHook r d) = (r = None)"
| "committed Nudging = True"
| "committed SyncOpening = True"
| "committed SyncingDir = True"
| "committed (SyncClosing r) = True"
| "committed RecordingSuccess = True"
| "committed (RecordingFailure e) = True"
| "committed (FailureHook e) = True"
| "committed (Answered r) = True"
| "committed ph = False"

fun synced :: "enq_at \<Rightarrow> bool" where
  "synced (SyncClosing r) = (r = None)"
| "synced RecordingSuccess = True"
| "synced (Answered r) = (r = None)"
| "synced ph = False"

text \<open>
  \<open>kept hard c d L n b\<close>: the payload \<open>b\<close> committed under \<open>n\<close> is on the disk \<open>d\<close>, complete, or was
  confirmed (\<open>L\<close>); when it is no longer pending it is a dead letter, or was confirmed. \<open>hard\<close> asks that
  the entry of a pending file survives a crash.
\<close>

definition stored :: "bool \<Rightarrow> spool_cfg \<Rightarrow> fs \<Rightarrow> bytes \<Rightarrow> bytes \<Rightarrow> bool" where
  "stored hard c d n b \<longleftrightarrow>
     (\<exists>i. lookup_path d (dir c, n) = Some i \<and> fs_data d i = b \<and> (fsyncEnabled c \<longrightarrow> fs_stable d i = b)
        \<and> (hard \<longrightarrow> fsyncEnabled c \<longrightarrow> durable_file d (dir c, n) i))"

definition kept :: "bool \<Rightarrow> spool_cfg \<Rightarrow> fs \<Rightarrow> bytes set \<Rightarrow> bytes \<Rightarrow> bytes \<Rightarrow> bool" where
  "kept hard c d L n b \<longleftrightarrow>
     b \<in> L \<or> (if n \<in> dom (queue_of c d) then stored hard c d n b else dead_of c d n = Some b)"

text \<open>The temp file of a call, at the places where it is used.\<close>

fun tmp_ok :: "spool_cfg \<Rightarrow> fs \<Rightarrow> bytes \<Rightarrow> bytes \<Rightarrow> enq_at \<Rightarrow> bool" where
  "tmp_ok c d n b (Writing f) \<longleftrightarrow> lookup_path d (tmp_path c n) = Some f \<and> fs_data d f = []"
| "tmp_ok c d n b (Fsyncing f) \<longleftrightarrow> lookup_path d (tmp_path c n) = Some f \<and> fs_data d f = b"
| "tmp_ok c d n b Closing \<longleftrightarrow> (\<exists>f. lookup_path d (tmp_path c n) = Some f \<and> fs_data d f = b \<and> (fsyncEnabled c \<longrightarrow> fs_stable d f = b))"
| "tmp_ok c d n b Renaming \<longleftrightarrow> (\<exists>f. lookup_path d (tmp_path c n) = Some f \<and> fs_data d f = b \<and> (fsyncEnabled c \<longrightarrow> fs_stable d f = b))"
| "tmp_ok c d n b ph \<longleftrightarrow> True"

definition at_ok :: "spool_cfg \<Rightarrow> fs \<Rightarrow> bytes set \<Rightarrow> bytes \<Rightarrow> bytes \<Rightarrow> enq_at \<Rightarrow> bool" where
  "at_ok c d L n b ph \<longleftrightarrow>
     tmp_ok c d n b ph \<and> (if committed ph then kept (synced ph) c d L n b else n \<notin> dom (queue_of c d))"

text \<open>Names this run has given out.\<close>

definition issued :: "64 word \<Rightarrow> bytes \<Rightarrow> bool" where
  "issued q n \<longleftrightarrow> (\<exists>t m. n = spool_name t m \<and> 0 \<le> t \<and> unat m \<le> unat q)"

text \<open>The delivery loop works on a pending file; what it removes was confirmed.\<close>

fun fwd_ok :: "(bytes \<rightharpoonup> bytes) \<Rightarrow> bytes set \<Rightarrow> fwd_pc \<Rightarrow> bool" where
  "fwd_ok q L (Updating ps) \<longleftrightarrow> (case ps of [] \<Rightarrow> True | n # _ \<Rightarrow> n \<in> dom q)"
| "fwd_ok q L (AgeHook ps t) \<longleftrightarrow> (case ps of [] \<Rightarrow> True | n # _ \<Rightarrow> n \<in> dom q)"
| "fwd_ok q L (Reading n) \<longleftrightarrow> n \<in> dom q"
| "fwd_ok q L (Forwarding n b) \<longleftrightarrow> q n = Some b"
| "fwd_ok q L (Burying n) \<longleftrightarrow> n \<in> dom q"
| "fwd_ok q L (RemovingFile n) \<longleftrightarrow> (\<exists>b. q n = Some b \<and> b \<in> L)"
| "fwd_ok q L pc \<longleftrightarrow> True"

fun own_ok :: "spool_cfg \<Rightarrow> bytes set \<Rightarrow> proc \<Rightarrow> ('w \<times> bytes list) world \<Rightarrow> bool" where
  "own_ok c old (Caller (At ph n b)) \<sigma> \<longleftrightarrow>
     n \<notin> old \<and> issued (seq (sp \<sigma>)) n \<and> at_ok c (disk (sp \<sigma>)) (set (snd (dest \<sigma>))) n b ph"
| "own_ok c old (Caller pc) \<sigma> \<longleftrightarrow> True"
| "own_ok c old (Deliverer pc bo) \<sigma> \<longleftrightarrow> fwd_ok (queue_of c (disk (sp \<sigma>))) (set (snd (dest \<sigma>))) pc"

definition shared_ok :: "spool_cfg \<Rightarrow> bytes set \<Rightarrow> ('w \<times> bytes list) world \<Rightarrow> bool" where
  "shared_ok c old \<sigma> \<longleftrightarrow> wf_fs (disk (sp \<sigma>))
     \<and> (\<forall>n \<in> dom (queue_of c (disk (sp \<sigma>))). n \<in> old \<or> issued (seq (sp \<sigma>)) n)"

fun proc_name :: "proc \<Rightarrow> bytes option" where
  "proc_name (Caller (At ph n b)) = Some n"
| "proc_name p = None"

fun is_deliverer :: "proc \<Rightarrow> bool" where
  "is_deliverer (Deliverer pc bo) = True"
| "is_deliverer p = False"

definition apart_ok :: "proc \<Rightarrow> proc \<Rightarrow> bool" where
  "apart_ok p q \<longleftrightarrow> \<not> (is_deliverer p \<and> is_deliverer q)
     \<and> (\<forall>n. proc_name p = Some n \<longrightarrow> proc_name q \<noteq> Some n)"

section \<open>What one step of a call does\<close>

lemma issued_mono: "issued q n \<Longrightarrow> unat q \<le> unat r \<Longrightarrow> issued r n"
  unfolding issued_def using order.trans by blast

lemma issued_pending: "issued q n \<Longrightarrow> is_pending_name n"
  by (auto simp: issued_def)

lemma seq_succ: "unat (q :: 64 word) + 1 < 2 ^ 64 \<Longrightarrow> unat (q + 1) = unat q + 1"
  by (simp add: unat_word_ariths)

lemma fresh_name:
  assumes "clock_ok old now s"
  shows "\<not> issued (seq s) (spool_name now (seq s + 1))" "issued (seq s + 1) (spool_name now (seq s + 1))"
    "unat (seq s) \<le> unat (seq s + 1)"
proof -
  note s = seq_succ [of "seq s"]
  show "\<not> issued (seq s) (spool_name now (seq s + 1))"
    using assms s spool_name_inj [of now] by (auto simp: clock_ok_def issued_def)
  show "issued (seq s + 1) (spool_name now (seq s + 1))" using assms by (auto simp: clock_ok_def issued_def)
  show "unat (seq s) \<le> unat (seq s + 1)" using assms s by (auto simp: clock_ok_def)
qed

text \<open>A step of a call named \<open>n\<close> touches its two paths only, the final one by the rename alone.\<close>

definition enq_paths :: "spool_cfg \<Rightarrow> bytes \<Rightarrow> enq_at \<Rightarrow> path set" where
  "enq_paths c n ph = (if ph = Renaming then {tmp_path c n, final_path c n} else {tmp_path c n})"

lemma touches_results:
  "os_open_trunc p d = (r1, d') \<Longrightarrow> touches {p} d d'"
  "sync_if e f d = (r2, d') \<Longrightarrow> touches P d d'"
  "os_plain d = (r3, d') \<Longrightarrow> touches P d d'"
  "os_rename p q d = (r4, d') \<Longrightarrow> touches {p, q} d d'"
  "os_remove p d = (r5, d') \<Longrightarrow> touches {p} d d'"
  "os_fsync_dir dd d = (r6, d') \<Longrightarrow> touches P d d'"
  "os_read_file p d = (r7, d') \<Longrightarrow> touches P d d'"
  "os_write f b d = (r8, d') \<Longrightarrow> lookup_path d p = Some f \<Longrightarrow> touches {p} d d'"
  "listPending c d = (r9, d') \<Longrightarrow> touches P d d'"
proof -
  have e: "touches {} d d' \<Longrightarrow> touches P d d'" for P d d' by (rule touches_mono) auto
  show "os_open_trunc p d = (r1, d') \<Longrightarrow> touches {p} d d'" using touches_calls(3) [of p d] by simp
  show "os_rename p q d = (r4, d') \<Longrightarrow> touches {p, q} d d'" using touches_calls(6) [of p q d] by simp
  show "os_remove p d = (r5, d') \<Longrightarrow> touches {p} d d'" using touches_calls(7) [of p d] by simp
  show pl: "os_plain d = (r3, d') \<Longrightarrow> touches P d d'" for r3 P d d' using e touches_calls(5) [of d] by simp
  show "os_fsync_dir dd d = (r6, d') \<Longrightarrow> touches P d d'" using e touches_calls(8) [of d dd] by simp
  show "os_read_file p d = (r7, d') \<Longrightarrow> touches P d d'" using e touches_calls(9) [of d p] by simp
  show "sync_if e f d = (r2, d') \<Longrightarrow> touches P d d'"
    using e touches_calls(4) [of d f] by (auto simp: sync_if_def split: if_splits)
  show "os_write f b d = (r8, d') \<Longrightarrow> lookup_path d p = Some f \<Longrightarrow> touches {p} d d'"
    using touches_write [of d p f b] by simp
  show "listPending c d = (r9, d') \<Longrightarrow> touches P d d'"
    using e touches_calls(10) [of d "dir c"] by (auto simp: listPending_def split: sum.splits prod.splits)
qed

lemma enq_at_touches:
  assumes "enq_at_step c n b ph s = (ph', s')" "tmp_ok c (disk s) n b ph"
  shows "touches (enq_paths c n ph) (disk s) (disk s')" "seq s' = seq s"
proof -
  show "touches (enq_paths c n ph) (disk s) (disk s')"
    using assms by (cases ph) (auto simp: enq_paths_def on_disk_def recordDirFsyncFailure_def
        intro: touches_results touches_calls(7) touches_mono [OF touches_calls(5)] split: sum.splits prod.splits)
  show "seq s' = seq s" using assms(1)
    by (cases ph) (auto simp: on_disk_def recordDirFsyncFailure_def recordDirFsyncSuccess_def emit_def release_def
        split: sum.splits prod.splits)
qed

text \<open>What an unaffected path keeps of the assertions.\<close>

lemma queue_unaffected: "unaffected (dir c, m) d d' \<Longrightarrow> queue_of c d' m = queue_of c d m"
  by (simp add: queue_of_def unaffected_content)

lemma dead_unaffected: "unaffected (dead_dir c, m) d d' \<Longrightarrow> dead_of c d' m = dead_of c d m"
  by (simp add: dead_of_def unaffected_content)

lemma stored_unaffected: "unaffected (dir c, n) d d' \<Longrightarrow> stored h c d n b \<Longrightarrow> stored h c d' n b"
  unfolding stored_def unaffected_def by metis

lemma kept_unaffected:
  assumes "kept h c d L n b" "unaffected (dir c, n) d d'" "unaffected (dead_dir c, n) d d'" "L \<subseteq> L'"
  shows "kept h c d' L' n b"
  using assms stored_unaffected [OF assms(2)] queue_unaffected [OF assms(2)] dead_unaffected [OF assms(3)]
  by (auto simp: kept_def dom_def)

lemma tmp_ok_unaffected: "unaffected (tmp_path c n) d d' \<Longrightarrow> tmp_ok c d n b ph \<Longrightarrow> tmp_ok c d' n b ph"
  by (cases ph) (auto simp: unaffected_def)

lemma at_ok_touches:
  assumes "at_ok c d L n b ph" "touches A d d'" "wf_fs d" "L \<subseteq> L'"
    and "tmp_path c n \<notin> A" "(dir c, n) \<notin> A" "(dead_dir c, n) \<notin> A"
  shows "at_ok c d' L' n b ph"
proof -
  note u = touches_unaffected [OF assms(2,3)]
  show ?thesis
    using assms(1) tmp_ok_unaffected [OF u [OF assms(5)]] kept_unaffected [OF _ u [OF assms(6)] u [OF assms(7)] assms(4)]
      queue_unaffected [OF u [OF assms(6)]]
    by (auto simp: at_ok_def dom_def split: if_splits)
qed

lemma paths_apart [simp]: "tmp_path c n \<noteq> (dead_dir c, m)" "(dead_dir c, m) \<noteq> tmp_path c n"
    "final_path c n \<noteq> (dead_dir c, m)" "(dead_dir c, m) \<noteq> final_path c n" "tmp_path c n = tmp_path c m \<longleftrightarrow> n = m"
    "final_path c n = (dir c, m) \<longleftrightarrow> n = m"
  by (auto simp: tmp_path_def final_path_def)

lemma pending_paths [simp]: "is_pending_name m \<Longrightarrow> (dir c, m) \<noteq> tmp_path c n" "is_pending_name m \<Longrightarrow> tmp_path c n \<noteq> (dir c, m)"
    "is_pending_name m \<Longrightarrow> final_path c m \<noteq> tmp_path c n" "is_pending_name m \<Longrightarrow> tmp_path c n \<noteq> final_path c m"
  by (auto simp: tmp_path_def final_path_def)

text \<open>The step of a call on its own assertion.\<close>

lemma hard_if_disabled: "\<not> fsyncEnabled c \<Longrightarrow> kept h c d L n b = kept h' c d L n b"
  by (simp add: kept_def stored_def)

lemma kept_mono: "kept h c d L n b \<Longrightarrow> (h' \<longrightarrow> h) \<Longrightarrow> kept h' c d L n b"
  by (auto simp: kept_def stored_def split: if_splits)

lemma committed_step:
  assumes "enq_at_step c n b ph s = (ph', s')" "committed ph" "kept (synced ph) c (disk s) L n b"
    and "wf_fs (disk s)" "is_pending_name n"
  shows "committed ph' \<and> tmp_ok c (disk s') n b ph' \<and> kept (synced ph') c (disk s') L n b"
proof -
  have tmp: "tmp_ok c (disk s) n b ph" using assms(2) by (cases ph) auto
  have paths: "enq_paths c n ph = {tmp_path c n}" using assms(2) by (cases ph) (auto simp: enq_paths_def)
  note t = enq_at_touches(1) [OF assms(1) tmp, unfolded paths]
  have k: "kept (synced ph) c (disk s') L n b"
    using touches_unaffected [OF t assms(4)] assms(5) by (intro kept_unaffected [OF assms(3)]) auto
  have "committed ph' \<and> tmp_ok c (disk s') n b ph' \<and> (synced ph' \<longrightarrow> synced ph \<or> \<not> fsyncEnabled c \<or> ph = SyncingDir)"
    using assms(1,2) by (cases ph) (auto simp: on_disk_def recordDirFsyncFailure_def split: sum.splits prod.splits if_splits option.splits)
  moreover have "kept True c (disk s') L n b" if "ph = SyncingDir" "synced ph'"
  proof -
    from assms(1) that have d: "disk s' = sync_entries (dir c) (pop_fault (disk s))"
      by (auto simp: on_disk_def dest!: os_fsync_dir_ok split: sum.splits prod.splits)
    have "lookup_path (disk s') = lookup_path (pop_fault (disk s))" unfolding d by (rule lookup_of_entries) simp
    then have "durable_file (disk s') (dir c, n) i" if "lookup_path (disk s') (dir c, n) = Some i" for i
      using that sync_entries_durable [of "pop_fault (disk s)" "dir c" n i] by (simp only: d)
    with k show ?thesis by (auto simp: kept_def stored_def split: if_splits)
  qed
  ultimately show ?thesis using k hard_if_disabled kept_mono by metis
qed

lemma tmp_step:
  assumes "enq_at_step c n b ph s = (ph', s')" "\<not> committed ph" "ph \<noteq> Renaming" "tmp_ok c (disk s) n b ph" "wf_fs (disk s)"
  shows "\<not> committed ph' \<and> tmp_ok c (disk s') n b ph'"
proof (cases ph)
  case Opening
  then show ?thesis using assms(1) os_open_trunc_ok [of "tmp_path c n" "disk s", OF _ assms(5)]
    by (auto simp: on_disk_def split: sum.splits prod.splits)
next
  case (Writing f)
  then show ?thesis using assms(1,4)
    by (auto simp: on_disk_def append_data_def dest!: os_write_ok split: sum.splits prod.splits)
next
  case (Fsyncing f)
  then show ?thesis using assms(1,4)
    by (auto simp: on_disk_def sync_if_def dest!: os_fsync_ok split: sum.splits prod.splits if_splits)
next
  case Closing
  then show ?thesis using assms(1,4)
    by (auto simp: on_disk_def dest!: os_plain_ok split: sum.splits prod.splits)
qed (use assms(1-3) in \<open>auto simp: on_disk_def split: option.splits\<close>)

lemma rename_step:
  assumes "enq_at_step c n b Renaming s = (ph', s')" "tmp_ok c (disk s) n b Renaming"
    and "is_pending_name n" "n \<notin> dom (queue_of c (disk s))"
  shows "(ph' = ReadingDepth None \<and> kept False c (disk s') L n b \<and> queue_of c (disk s') = (queue_of c (disk s))(n \<mapsto> b))
    \<or> (\<exists>e. ph' = Removing e \<and> queue_of c (disk s') = queue_of c (disk s))"
proof -
  obtain r d where r: "os_rename (tmp_path c n) (final_path c n) (disk s) = (r, d)" by fastforce
  show ?thesis
  proof (cases r)
    case (Inl e)
    then show ?thesis using assms(1) r os_rename_err [OF r [unfolded Inl]] by (auto simp: on_disk_def)
  next
    case (Inr u)
    from assms(2) obtain f where f: "lookup_path (disk s) (tmp_path c n) = Some f" "fs_data (disk s) f = b"
      "fsyncEnabled c \<longrightarrow> fs_stable (disk s) f = b" by auto
    have d: "d = del_entry (tmp_path c n) (set_entry (final_path c n) f (pop_fault (disk s)))"
      using os_rename_ok [OF r [unfolded Inr] tmp_path_neq] f(1) by auto
    have s': "disk s' = d" "ph' = ReadingDepth None" using assms(1) r Inr by (auto simp: on_disk_def)
    have q: "queue_of c d = (queue_of c (disk s))(n \<mapsto> b)"
      using assms(3) f(2) pending_not_tmp
      by (auto simp: d queue_of_def fun_eq_iff content_set_entry content_del_entry final_path_def)
    have "stored False c d n b"
      using f assms(3) by (auto simp: stored_def d final_path_def)
    then show ?thesis using s' q by (simp add: kept_def)
  qed
qed

lemma at_step_ok:
  assumes "enq_at_step c n b ph s = (ph', s')" "at_ok c (disk s) L n b ph" "wf_fs (disk s)" "is_pending_name n"
  shows "at_ok c (disk s') L n b ph'"
    "\<And>m. queue_of c (disk s') m = queue_of c (disk s) m \<or> (m = n \<and> n \<notin> dom (queue_of c (disk s)) \<and> queue_of c (disk s') n = Some b)"
proof -
  have tmp: "tmp_ok c (disk s) n b ph" using assms(2) by (simp add: at_ok_def)
  note t = enq_at_touches(1) [OF assms(1) tmp]
  have same: "queue_of c (disk s') = queue_of c (disk s)" if "ph \<noteq> Renaming"
    using that by (intro queue_touches [OF t assms(3)]) (auto simp: enq_paths_def)
  consider "committed ph" | "\<not> committed ph" "ph \<noteq> Renaming" | "ph = Renaming" by blast
  then have "at_ok c (disk s') L n b ph' \<and> (queue_of c (disk s') = queue_of c (disk s)
      \<or> n \<notin> dom (queue_of c (disk s)) \<and> queue_of c (disk s') = (queue_of c (disk s))(n \<mapsto> b))"
  proof cases
    case 1
    then have "ph \<noteq> Renaming" by auto
    with same committed_step [OF assms(1) 1 _ assms(3,4)] assms(2) 1 show ?thesis by (auto simp: at_ok_def)
  next
    case 2
    with same tmp_step [OF assms(1) 2 tmp assms(3)] assms(2) show ?thesis by (simp add: at_ok_def)
  next
    case 3
    then have n: "n \<notin> dom (queue_of c (disk s))" using assms(2) by (simp add: at_ok_def)
    from rename_step [OF assms(1) [unfolded 3] tmp [unfolded 3] assms(4) n, of L] n show ?thesis
      by (auto simp: at_ok_def)
  qed
  then show "at_ok c (disk s') L n b ph'"
    "\<And>m. queue_of c (disk s') m = queue_of c (disk s) m \<or> (m = n \<and> n \<notin> dom (queue_of c (disk s)) \<and> queue_of c (disk s') n = Some b)"
    by auto
qed

section \<open>What one step of the delivery loop does\<close>

fun fwd_paths :: "spool_cfg \<Rightarrow> fwd_pc \<Rightarrow> path set" where
  "fwd_paths c (RemovingFile n) = {(dir c, n)}"
| "fwd_paths c (Burying n) = {(dir c, n), (dead_dir c, n)}"
| "fwd_paths c pc = {}"

lemma fwd_step_touches:
  assumes "fwd_step c perm (confirming forward) (apfst onDead) now (pc, s, w) = (pc', s', w')"
  shows "touches (fwd_paths c pc) (disk s) (disk s')" "seq s' = seq s" "set (snd w) \<subseteq> set (snd w')"
proof -
  show "touches (fwd_paths c pc) (disk s) (disk s')"
    using assms by (cases pc) (auto simp: on_disk_def intro: touches_results touches_calls(7)
        split: sum.splits prod.splits option.splits)
  show "seq s' = seq s"
    using assms by (cases pc) (auto simp: on_disk_def split: sum.splits prod.splits option.splits)
  show "set (snd w) \<subseteq> set (snd w')"
  proof (cases pc)
    case (Forwarding n b)
    with assms confirming_log [of w forward b] show ?thesis by (auto split: prod.splits option.splits)
  qed (use assms in \<open>auto split: sum.splits prod.splits option.splits\<close>)
qed

lemma fwd_remove_step:
  assumes "fwd_step c perm (confirming forward) (apfst onDead) now (RemovingFile n, s, w) = (pc', s', w')" "wf_fs (disk s)"
  shows "pc' = Freeing (Some n) \<and> w' = w \<and>
    (queue_of c (disk s') = queue_of c (disk s) \<or> queue_of c (disk s') = (queue_of c (disk s))(n := None))"
proof -
  obtain r d where r: "os_remove (dir c, n) (disk s) = (r, d)" by fastforce
  from remove_outcome(3) [OF r assms(2)] assms(1) r show ?thesis by (auto simp: on_disk_def)
qed

lemma fwd_bury_step:
  assumes "fwd_step c perm (confirming forward) (apfst onDead) now (Burying n, s, w) = (pc', s', w')"
    and "queue_of c (disk s) n = Some b"
  shows "w' = w \<and> ((pc' = Attempted (True, None) \<and> queue_of c (disk s') = queue_of c (disk s) \<and> dead_of c (disk s') = dead_of c (disk s)
        \<and> disk s' = pop_fault (disk s))
     \<or> (pc' = Freeing None \<and> queue_of c (disk s') = (queue_of c (disk s))(n := None)
        \<and> dead_of c (disk s') = (dead_of c (disk s))(n \<mapsto> b)))"
proof -
  let ?p = "(dir c, n)" and ?q = "(dead_dir c, n)"
  obtain r d where r: "os_rename ?p ?q (disk s) = (r, d)" by fastforce
  show ?thesis
  proof (cases r)
    case (Inl e)
    then show ?thesis using assms(1) r os_rename_err [OF r [unfolded Inl]] by (auto simp: on_disk_def)
  next
    case (Inr u)
    obtain i where i: "lookup_path (disk s) ?p = Some i" and d: "d = del_entry ?p (set_entry ?q i (pop_fault (disk s)))"
      using os_rename_ok [OF r [unfolded Inr]] by auto
    have b: "fs_data (disk s) i = b" using assms(2) i by (simp add: queue_of_def file_content_def split: if_splits)
    have "queue_of c d = (queue_of c (disk s))(n := None)" "dead_of c d = (dead_of c (disk s))(n \<mapsto> b)"
      by (auto simp: d queue_of_def dead_of_def fun_eq_iff content_set_entry content_del_entry b)
    then show ?thesis using assms(1) r Inr by (auto simp: on_disk_def)
  qed
qed

text \<open>The queue after a step, and the loop's own assertion.\<close>

lemma fwd_step_ok:
  assumes "fwd_step c perm (confirming forward) (apfst onDead) now (pc, s, w) = (pc', s', w')" "wf_fs (disk s)"
    and "fwd_ok (queue_of c (disk s)) (set (snd w)) pc"
  shows "fwd_ok (queue_of c (disk s')) (set (snd w')) pc'"
    "queue_of c (disk s') = queue_of c (disk s) \<or>
      (\<exists>n. (pc = RemovingFile n \<or> pc = Burying n) \<and> queue_of c (disk s') = (queue_of c (disk s))(n := None))"
proof -
  note t = fwd_step_touches(1) [OF assms(1)]
  have q: "queue_of c (disk s') = queue_of c (disk s)" if "fwd_paths c pc = {}"
    using that by (intro queue_touches [OF t assms(2)]) auto
  show "queue_of c (disk s') = queue_of c (disk s) \<or>
      (\<exists>n. (pc = RemovingFile n \<or> pc = Burying n) \<and> queue_of c (disk s') = (queue_of c (disk s))(n := None))"
  proof (cases pc)
    case (RemovingFile n)
    from fwd_remove_step [OF assms(1) [unfolded RemovingFile] assms(2)] RemovingFile show ?thesis by blast
  next
    case (Burying n)
    then obtain b where "queue_of c (disk s) n = Some b" using assms(3) by auto
    from fwd_bury_step [OF assms(1) [unfolded Burying] this] Burying show ?thesis by blast
  qed (use q in simp_all)
  show "fwd_ok (queue_of c (disk s')) (set (snd w')) pc'"
  proof (cases pc)
    case Top
    obtain r d where r: "listPending c (disk s) = (r, d)" by fastforce
    note lp = listPending_result [OF r assms(2)]
    show ?thesis
    proof (cases r)
      case (Inr ps)
      have "\<exists>b. queue_of c (disk s) n = Some b" if "ps = n # ns" for n ns
        using lp(2) [OF Inr] that by (auto simp: set_eq_iff dom_def)
      then show ?thesis using assms(1) Top r Inr lp(1) by (cases ps) (auto simp: on_disk_def)
    qed (use assms(1) Top r in \<open>auto simp: on_disk_def\<close>)
  next
    case (Reading n)
    obtain r d where r: "os_read_file (dir c, n) (disk s) = (r, d)" by fastforce
    note rf = os_read_file_result [OF r]
    show ?thesis using assms(1,3) Reading r rf
      by (cases r) (auto simp: on_disk_def queue_of_def split: if_splits)
  next
    case (Forwarding n b)
    then show ?thesis using assms(1,3) confirming_ok [of forward b w] by (auto split: prod.splits option.splits)
  next
    case (RemovingFile n)
    then show ?thesis using fwd_remove_step [OF assms(1) [unfolded RemovingFile] assms(2)] by simp
  next
    case (Burying n)
    then obtain b where "queue_of c (disk s) n = Some b" using assms(3) by auto
    from fwd_bury_step [OF assms(1) [unfolded Burying] this] show ?thesis by auto
  qed (use assms(1,3) in \<open>auto split: list.splits option.splits\<close>)
qed

section \<open>Interference freedom\<close>

text \<open>The loop spares the calls: what it removes was confirmed, what it buries is a dead letter.\<close>

lemma stored_queue: "stored h c d n b \<Longrightarrow> is_pending_name n \<Longrightarrow> queue_of c d n = Some b"
  by (auto simp: stored_def queue_of_def file_content_def)

lemma fwd_spares_call:
  assumes "fwd_step c perm (confirming forward) (apfst onDead) now (pc, s, w) = (pc', s', w')" "wf_fs (disk s)"
    and "fwd_ok (queue_of c (disk s)) (set (snd w)) pc" "at_ok c (disk s) (set (snd w)) m b ph" "is_pending_name m"
  shows "at_ok c (disk s') (set (snd w')) m b ph"
proof -
  note t = fwd_step_touches(1,3) [OF assms(1)]
  show ?thesis
  proof (cases "pc = RemovingFile m \<or> pc = Burying m")
    case False
    then have "tmp_path c m \<notin> fwd_paths c pc" "(dir c, m) \<notin> fwd_paths c pc" "(dead_dir c, m) \<notin> fwd_paths c pc"
      using assms(3) by (cases pc; auto simp: tmp_path_def queue_of_def split: if_splits)+
    from at_ok_touches [OF assms(4) t(1) assms(2) t(2) this] show ?thesis .
  next
    case True
    then obtain b' where q: "queue_of c (disk s) m = Some b'" and conf: "pc = RemovingFile m \<longrightarrow> b' \<in> set (snd w)"
      using assms(3) by auto
    then have com: "committed ph" "kept (synced ph) c (disk s) (set (snd w)) m b" using assms(4) by (auto simp: at_ok_def split: if_splits)
    then have b: "b \<in> set (snd w) \<or> b' = b" using q stored_queue [OF _ assms(5)] by (auto simp: kept_def dom_def split: if_splits)
    have tmp: "tmp_ok c d m b ph" for d using com(1) by (cases ph) auto
    from True show ?thesis
    proof
      assume "pc = RemovingFile m"
      then have "b \<in> set (snd w')" using b conf t(2) by auto
      then show ?thesis using com(1) tmp by (simp add: at_ok_def kept_def)
    next
      assume "pc = Burying m"
      note o = fwd_bury_step [OF assms(1) [unfolded this] q]
      from o consider "b \<in> set (snd w')" | "b' = b" "dead_of c (disk s') m = Some b" "m \<notin> dom (queue_of c (disk s'))"
        | "w' = w" "disk s' = pop_fault (disk s)" using b by auto
      then show ?thesis
      proof cases
        case 3
        have "at_ok c (disk s') (set (snd w)) m b ph" unfolding 3(2)
          by (rule at_ok_touches [OF assms(4) touches_pop_fault [where P = "{}"] assms(2)]) auto
        then show ?thesis unfolding 3(1) .
      qed (use com(1) tmp in \<open>auto simp: at_ok_def kept_def\<close>)
    qed
  qed
qed

text \<open>A call spares the loop and the other calls.\<close>

lemma call_spares_fwd:
  assumes "\<And>m. m \<in> dom q \<Longrightarrow> q' m = q m" "fwd_ok q L pc"
  shows "fwd_ok q' L pc"
  using assms by (cases pc) (auto simp: dom_def split: list.splits)

lemma call_spares_call:
  assumes "enq_at_step c n b ph s = (ph', s')" "at_ok c (disk s) L n b ph" "wf_fs (disk s)"
    and "at_ok c (disk s) L m b' ph''" "m \<noteq> n" "is_pending_name m" "is_pending_name n"
  shows "at_ok c (disk s') L m b' ph''"
proof -
  have "tmp_ok c (disk s) n b ph" using assms(2) by (simp add: at_ok_def)
  note t = enq_at_touches(1) [OF assms(1) this]
  have "tmp_path c m \<notin> enq_paths c n ph" "(dir c, m) \<notin> enq_paths c n ph" "(dead_dir c, m) \<notin> enq_paths c n ph"
    using assms(5-7) by (simp_all add: enq_paths_def) (auto simp: final_path_def)
  from at_ok_touches [OF assms(4) t assms(3) subset_refl this] show ?thesis .
qed

text \<open>The start, and what holds of the shared state.\<close>

lemma start_ok:
  assumes "spool_start c old w0 P \<sigma>"
  shows "shared_ok c (dom old) \<sigma> \<and> (\<forall>i. own_ok c (dom old) (P i) \<sigma>) \<and> (\<forall>i j. i \<noteq> j \<longrightarrow> apart_ok (P i) (P j))"
proof -
  from assms obtain now d d' where n: "New c now d = (Inr (sp \<sigma>), d')" "wf_fs d" "old = queue_of c d"
    and P: "P = (\<lambda>i. Caller Idle)(0 := Deliverer Top second)" by (auto simp: spool_start_def)
  from New_facts [OF n(1,2)] n(3) have "shared_ok c (dom old) \<sigma>" by (simp add: shared_ok_def)
  then show ?thesis by (auto simp: P apart_ok_def)
qed

lemma enq_step_keeps:
  assumes "enq_step c now (pc, sp \<sigma>) = (pc', s')" "\<And>b. pc = Reserving b \<Longrightarrow> clock_ok old now (sp \<sigma>)"
    and "shared_ok c old \<sigma>" "own_ok c old (Caller pc) \<sigma>"
  shows "shared_ok c old (\<sigma>\<lparr>sp := s'\<rparr>)" "own_ok c old (Caller pc') (\<sigma>\<lparr>sp := s'\<rparr>)"
    "unat (seq (sp \<sigma>)) \<le> unat (seq s')"
    "\<And>m. m \<in> dom (queue_of c (disk (sp \<sigma>))) \<Longrightarrow> queue_of c (disk s') m = queue_of c (disk (sp \<sigma>)) m"
proof -
  let ?s = "sp \<sigma>"
  from assms(3) have wf: "wf_fs (disk ?s)" and q: "\<And>n. n \<in> dom (queue_of c (disk ?s)) \<Longrightarrow> n \<in> old \<or> issued (seq ?s) n"
    by (auto simp: shared_ok_def)
  have "shared_ok c old (\<sigma>\<lparr>sp := s'\<rparr>) \<and> own_ok c old (Caller pc') (\<sigma>\<lparr>sp := s'\<rparr>) \<and> unat (seq ?s) \<le> unat (seq s')
    \<and> (\<forall>m \<in> dom (queue_of c (disk ?s)). queue_of c (disk s') m = queue_of c (disk ?s) m)"
  proof (cases pc)
    case (Reserving b)
    let ?n = "spool_name now (seq ?s + 1)"
    have ck: "clock_ok old now ?s" using assms(2) [OF Reserving] .
    note f = fresh_name [OF ck]
    from reserve_cases [of c now ?s] show ?thesis
    proof (elim disjE conjE)
      assume "reserve c now ?s = (Inl ErrFull, ?s)"
      then show ?thesis using assms(1,3) Reserving by auto
    next
      assume r: "reserve c now ?s = (Inr ?n, ?s\<lparr>depth := depth ?s + 1, seq := seq ?s + 1\<rparr>)"
      have "?n \<notin> dom (queue_of c (disk ?s))" using q [of ?n] f(1) ck by (auto simp: clock_ok_def)
      moreover have "\<forall>n \<in> dom (queue_of c (disk ?s)). n \<in> old \<or> issued (seq ?s + 1) n"
        using q issued_mono [OF _ f(3)] by blast
      moreover have "pc' = At Opening ?n b" "s' = ?s\<lparr>depth := depth ?s + 1, seq := seq ?s + 1\<rparr>"
        using assms(1) Reserving r by auto
      ultimately show ?thesis using wf f(2,3) ck by (simp add: shared_ok_def at_ok_def clock_ok_def)
    qed
  next
    case (At ph n b)
    obtain ph' where st: "enq_at_step c n b ph ?s = (ph', s')" and pc': "pc' = At ph' n b"
      using assms(1) At by (auto split: prod.splits)
    have own: "n \<notin> old" "issued (seq ?s) n" "at_ok c (disk ?s) (set (snd (dest \<sigma>))) n b ph" using assms(4) At by auto
    note k = at_step_ok [OF st own(3) wf issued_pending [OF own(2)]]
    have tmp: "tmp_ok c (disk ?s) n b ph" using own(3) by (simp add: at_ok_def)
    note t = enq_at_touches [OF st tmp]
    have "m \<in> old \<or> issued (seq ?s) m" if "m \<in> dom (queue_of c (disk s'))" for m
      using that k(2) [of m] q [of m] own(2) by (auto simp: dom_def)
    then show ?thesis using k touches_wf [OF t(1) wf] own pc' t(2) by (auto simp: shared_ok_def)
  qed (use assms in auto)
  then show "shared_ok c old (\<sigma>\<lparr>sp := s'\<rparr>)" "own_ok c old (Caller pc') (\<sigma>\<lparr>sp := s'\<rparr>)"
    "unat (seq (sp \<sigma>)) \<le> unat (seq s')"
    "\<And>m. m \<in> dom (queue_of c (disk (sp \<sigma>))) \<Longrightarrow> queue_of c (disk s') m = queue_of c (disk (sp \<sigma>)) m" by blast+
qed

lemma proc_step_keeps:
  assumes "shared_ok c old \<sigma>" "own_ok c old p \<sigma>" "proc_step c perm (confirming forward) (apfst onDead) old p \<sigma> p' \<sigma>'"
  shows "shared_ok c old \<sigma>' \<and> own_ok c old p' \<sigma>'"
  using assms(3)
proof cases
  case (enqueue now pc pc' s')
  then show ?thesis using enq_step_keeps [OF enqueue(4) enqueue(5) assms(1)] assms(2) by simp
next
  case (deliver now pc pc' s' w' u bo)
  have own: "fwd_ok (queue_of c (disk (sp \<sigma>))) (set (snd (dest \<sigma>))) pc" and wf: "wf_fs (disk (sp \<sigma>))"
    using assms(1,2) deliver(1) by (simp_all add: shared_ok_def)
  note k = fwd_step_ok [OF deliver(4) wf own] and t = fwd_step_touches [OF deliver(4)]
  from k(2) have "dom (queue_of c (disk s')) \<subseteq> dom (queue_of c (disk (sp \<sigma>)))" by (auto split: if_splits)
  then show ?thesis using assms(1) k(1) touches_wf [OF t(1) wf] t(2) by (auto simp: deliver(2,3) shared_ok_def)
next
  case (pause res bo p bo')
  then show ?thesis using assms(1) by (cases p) simp_all
qed (use assms in \<open>auto simp: shared_ok_def\<close>)

lemma proc_step_spares:
  assumes "shared_ok c old \<sigma>" "own_ok c old p \<sigma>" "own_ok c old q \<sigma>" "apart_ok p q"
    and "proc_step c perm (confirming forward) (apfst onDead) old p \<sigma> p' \<sigma>'"
  shows "own_ok c old q \<sigma>' \<and> apart_ok p' q"
proof -
  have wf: "wf_fs (disk (sp \<sigma>))" using assms(1) by (simp add: shared_ok_def)
  show ?thesis
    using assms(5)
  proof cases
    case (call b)
    then show ?thesis using assms(3,4) by (auto simp: apart_ok_def)
  next
    case (enqueue now pc pc' s')
    have own: "own_ok c old (Caller pc) \<sigma>" using assms(2) enqueue(1) by simp
    note k = enq_step_keeps [OF enqueue(4) enqueue(5) assms(1) own]
    show ?thesis
    proof (cases q)
      case (Deliverer pc2 bo)
      then show ?thesis using assms(3,4) call_spares_fwd [OF k(4)] enqueue by (auto simp: apart_ok_def)
    next
      case (Caller pc2)
      show ?thesis
      proof (cases "\<exists>ph m b'. pc2 = At ph m b'")
        case False
        then show ?thesis using Caller enqueue assms(4) by (cases pc2) (auto simp: apart_ok_def)
      next
        case True
        then obtain ph2 m b' where At2: "pc2 = At ph2 m b'" by blast
        have m: "m \<notin> old" "issued (seq (sp \<sigma>)) m" "at_ok c (disk (sp \<sigma>)) (set (snd (dest \<sigma>))) m b' ph2"
          using assms(3) Caller At2 by auto
        have "at_ok c (disk s') (set (snd (dest \<sigma>))) m b' ph2 \<and> proc_name (Caller pc') \<noteq> Some m"
        proof (cases pc)
          case (Reserving b)
          have ck: "clock_ok old now (sp \<sigma>)" using enqueue(5) [OF Reserving] .
          have "disk s' = disk (sp \<sigma>) \<and> proc_name (Caller pc') \<noteq> Some m"
            using reserve_cases [of c now "sp \<sigma>"] enqueue(4) Reserving m(2) fresh_name(1) [OF ck] by auto
          with m show ?thesis by simp
        next
          case (At ph n b)
          obtain ph' where st: "enq_at_step c n b ph (sp \<sigma>) = (ph', s')" and pc': "pc' = At ph' n b"
            using enqueue(4) At by (auto split: prod.splits)
          have n: "issued (seq (sp \<sigma>)) n" "at_ok c (disk (sp \<sigma>)) (set (snd (dest \<sigma>))) n b ph" "m \<noteq> n"
            using own At assms(4) enqueue(1) Caller At2 by (auto simp: apart_ok_def)
          show ?thesis
            using call_spares_call [OF st n(2) wf m(3) n(3) issued_pending [OF m(2)] issued_pending [OF n(1)]] n(3) pc' by simp
        qed (use enqueue m in auto)
        then show ?thesis using Caller At2 m issued_mono [OF m(2) k(3)] enqueue by (auto simp: apart_ok_def)
      qed
    qed
  next
    case (deliver now pc pc' s' w' u bo)
    have own: "fwd_ok (queue_of c (disk (sp \<sigma>))) (set (snd (dest \<sigma>))) pc" using assms(2) deliver(1) by simp
    note sq = fwd_step_touches(2) [OF deliver(4)]
    show ?thesis
    proof (cases "\<exists>ph m b'. q = Caller (At ph m b')")
      case True
      then obtain ph m b' where q: "q = Caller (At ph m b')" by blast
      then have m: "m \<notin> old" "issued (seq (sp \<sigma>)) m" "at_ok c (disk (sp \<sigma>)) (set (snd (dest \<sigma>))) m b' ph"
        using assms(3) by auto
      from fwd_spares_call [OF deliver(4) wf own m(3) issued_pending [OF m(2)]] m(1,2) sq
      show ?thesis by (simp add: q deliver apart_ok_def)
    next
      case False
      then show ?thesis using assms(4) deliver
        by (cases q; simp add: apart_ok_def; cases "(case q of Caller pc \<Rightarrow> pc | _ \<Rightarrow> Idle)"; auto)
    qed
  qed (use assms in \<open>cases q; auto simp: apart_ok_def elim: own_ok.elims\<close>)+
qed

interpretation spool_threads:
  interference_free "proc_step c perm (confirming forward) (apfst onDead) (dom old)" "spool_start c old w0"
    "shared_ok c (dom old)" "own_ok c (dom old)" apart_ok
  for c perm forward onDead old w0
proof unfold_locales
  show "spool_start c old w0 P s \<Longrightarrow> shared_ok c (dom old) s \<and> (\<forall>i. own_ok c (dom old) (P i) s) \<and> (\<forall>i j. i \<noteq> j \<longrightarrow> apart_ok (P i) (P j))"
    for P s by (rule start_ok)
  show "apart_ok p q \<Longrightarrow> apart_ok q p" for p q by (auto simp: apart_ok_def)
qed (use proc_step_keeps proc_step_spares in blast)+

end
