(* ===== verification/SpoolThreads.thy ===== *)
theory SpoolThreads
  imports SpoolConc
begin

text \<open>
  What the assertions of theory \<open>SpoolConc\<close> give for the spool as a whole, as invariants of every
  reachable state: the depth counter and the limit under concurrent reservations, the wake-up of the
  delivery loop, what becomes of the signals found at the start; and the end of every call.
\<close>

section \<open>The depth counter\<close>

text \<open>A goroutine that holds a place in the queue without a file there: a reservation not yet committed
  or given back, or a removed file not yet counted off.\<close>

fun holds :: "enq_at \<Rightarrow> bool" where
  "holds Opening = True"
| "holds (Writing f) = True"
| "holds (Fsyncing f) = True"
| "holds Closing = True"
| "holds (ClosingFailed e) = True"
| "holds Renaming = True"
| "holds (Removing e) = True"
| "holds (Releasing e) = True"
| "holds ph = False"

fun holder :: "proc \<Rightarrow> bool" where
  "holder (Caller (At ph n b)) = holds ph"
| "holder (Deliverer (Freeing r) bo) = True"
| "holder p = False"

definition holders :: "(nat \<Rightarrow> proc) \<Rightarrow> nat set" where
  "holders P = crew holder P"

definition pending_count :: "spool_cfg \<Rightarrow> fs \<Rightarrow> int" where
  "pending_count c d = int (card (dom (queue_of c d)))"

definition counted :: "spool_cfg \<Rightarrow> int \<Rightarrow> (nat \<Rightarrow> proc) \<Rightarrow> 'w world \<Rightarrow> bool" where
  "counted c m0 P \<sigma> \<longleftrightarrow> finite (holders P) \<and> 0 \<le> depth (sp \<sigma>) \<and> depth (sp \<sigma>) \<le> max (maxDepth c) m0
     \<and> depth (sp \<sigma>) \<le> pending_count c (disk (sp \<sigma>)) + int (card (holders P))
     \<and> pending_count c (disk (sp \<sigma>)) + int (card (holders P)) \<le> depth (sp \<sigma>) + int (unremoved \<sigma>)"

text \<open>One step adds \<open>q\<close> files and \<open>h\<close> holders; it keeps the depth, follows a removal that failed,
  reserves, or releases.\<close>

lemmas holders_update = crew_update [where at = holder, folded holders_def]

lemma counted_step:
  assumes "counted c m0 P \<sigma>"
    and "(depth (sp \<sigma>') = depth (sp \<sigma>) \<and> unremoved \<sigma>' = unremoved \<sigma> + nat k \<and> 0 \<le> k)
      \<or> (k = -1 \<and> unremoved \<sigma>' = unremoved \<sigma> \<and> depth (sp \<sigma>') = (if 0 < depth (sp \<sigma>) then depth (sp \<sigma>) - 1 else depth (sp \<sigma>)))
      \<or> (k = 1 \<and> unremoved \<sigma>' = unremoved \<sigma> \<and> depth (sp \<sigma>') = depth (sp \<sigma>) + 1 \<and> depth (sp \<sigma>) < maxDepth c)"
    and "pending_count c (disk (sp \<sigma>')) + of_bool (holder p') = pending_count c (disk (sp \<sigma>)) + of_bool (holder (P i)) + k"
  shows "counted c m0 (P(i := p')) \<sigma>'"
proof -
  from assms(1) have f: "finite (holders P)" by (simp add: counted_def)
  note h = holders_update [OF f, of i p']
  have "0 \<le> pending_count c (disk (sp \<sigma>')) + int (card (holders (P(i := p'))))" by (simp add: pending_count_def)
  then show ?thesis using assms h unfolding counted_def by (auto split: if_splits)
qed

lemma pending_insert:
  assumes "\<And>m. queue_of c d' m = queue_of c d m \<or> (m = n \<and> n \<notin> dom (queue_of c d) \<and> queue_of c d' n = Some b)"
  shows "pending_count c d' = pending_count c d + of_bool (n \<in> dom (queue_of c d') - dom (queue_of c d))"
proof (cases "n \<in> dom (queue_of c d') - dom (queue_of c d)")
  case True
  have "m \<in> dom (queue_of c d') \<longleftrightarrow> m \<in> insert n (dom (queue_of c d))" for m
    using True assms [of m] by (auto simp: dom_def)
  then have "dom (queue_of c d') = insert n (dom (queue_of c d))" by (rule set_eqI)
  then show ?thesis using True by (simp add: pending_count_def)
next
  case False
  have "queue_of c d' m = queue_of c d m" for m using assms [of m] False by (auto simp: dom_def)
  then have "queue_of c d' = queue_of c d" by (rule ext)
  then show ?thesis by (simp add: pending_count_def)
qed

lemma pending_delete:
  assumes "n \<in> dom (queue_of c d)" "queue_of c d' = (queue_of c d)(n := None)"
  shows "pending_count c d' = pending_count c d - 1"
proof -
  have "dom (queue_of c d') = dom (queue_of c d) - {n}" by (simp add: assms(2))
  then show ?thesis using card_Suc_Diff1 [OF finite_queue assms(1)] by (simp add: pending_count_def)
qed

text \<open>A step of a call, and a step of the loop, in these terms.\<close>

lemma at_step_counts:
  assumes "enq_at_step c n b ph s = (ph', s')" "at_ok c (disk s) L n b ph" "wf_fs (disk s)" "is_pending_name n"
  shows "(depth s' = depth s \<and> pending_count c (disk s') + of_bool (holds ph') = pending_count c (disk s) + of_bool (holds ph))
    \<or> (depth s' = (if 0 < depth s then depth s - 1 else depth s)
        \<and> pending_count c (disk s') + of_bool (holds ph') = pending_count c (disk s) + of_bool (holds ph) - 1)"
proof -
  note k = at_step_ok [OF assms]
  note pc = pending_insert [OF k(2)]
  have new: "n \<in> dom (queue_of c (disk s')) - dom (queue_of c (disk s)) \<longleftrightarrow> committed ph' \<and> \<not> committed ph"
  proof -
    have "n \<in> dom (queue_of c (disk s')) \<longleftrightarrow> ph' = ReadingDepth None" if "ph = Renaming"
      using that rename_step [OF assms(1) [unfolded that]] assms(2,4) by (auto simp: at_ok_def)
    moreover have "committed ph' \<longleftrightarrow> ph' = ReadingDepth None" if "ph = Renaming"
      using that assms(1) by (auto split: sum.splits prod.splits)
    moreover have "queue_of c (disk s') n = queue_of c (disk s) n \<and> (committed ph' \<longrightarrow> committed ph)" if "ph \<noteq> Renaming"
    proof -
      have tmp: "tmp_ok c (disk s) n b ph" using assms(2) by (simp add: at_ok_def)
      note t = enq_at_touches(1) [OF assms(1) tmp]
      have "queue_of c (disk s') = queue_of c (disk s)"
        using that assms(4) by (intro queue_touches [OF t assms(3)]) (auto simp: enq_paths_def)
      moreover have "committed ph' \<longrightarrow> committed ph" using tmp_step [OF assms(1) _ that tmp assms(3)] by blast
      ultimately show ?thesis by simp
    qed
    moreover have "n \<notin> dom (queue_of c (disk s))" if "ph = Renaming" using that assms(2) by (simp add: at_ok_def)
    ultimately show ?thesis by (cases "ph = Renaming") (auto simp: dom_def)
  qed
  show ?thesis unfolding pc new using assms(1)
    by (cases ph) (auto simp: on_disk_def release_def emit_def recordDirFsyncFailure_def recordDirFsyncSuccess_def
        split: sum.splits prod.splits option.splits if_splits)
qed

lemma fwd_step_counts:
  assumes "fwd_step c perm (confirming forward) (apfst onDead) now (pc, s, w) = (pc', s', w')" "wf_fs (disk s)"
    and "fwd_ok (queue_of c (disk s)) (set (snd w)) pc"
  shows "\<exists>k. pending_count c (disk s') + of_bool (holder (Deliverer pc' bo)) = pending_count c (disk s) + of_bool (holder (Deliverer pc bo)) + k
    \<and> ((depth s' = depth s \<and> k = int (case pc of RemovingFile n \<Rightarrow> if n \<in> dom (queue_of c (disk s')) then 1 else 0 | _ \<Rightarrow> 0))
      \<or> (k = -1 \<and> (\<exists>r. pc = Freeing r) \<and> depth s' = (if 0 < depth s then depth s - 1 else depth s)))"
proof -
  have same: "pending_count c (disk s') = pending_count c (disk s)" if "fwd_paths c pc = {}"
  proof -
    have "queue_of c (disk s') = queue_of c (disk s)"
      using that by (intro queue_touches [OF fwd_step_touches(1) [OF assms(1)] assms(2)]) auto
    then show ?thesis by (simp add: pending_count_def)
  qed
  show ?thesis
  proof (cases pc)
    case (RemovingFile n)
    note r = fwd_remove_step [OF assms(1) [unfolded RemovingFile] assms(2)]
    have n: "n \<in> dom (queue_of c (disk s))" using assms(3) RemovingFile by auto
    have "depth s' = depth s" using assms(1) RemovingFile by (auto simp: on_disk_def split: prod.splits)
    moreover have "pending_count c (disk s') + 1 = pending_count c (disk s) + (if n \<in> dom (queue_of c (disk s')) then 1 else 0)"
      using r
    proof (elim conjE disjE)
      assume "queue_of c (disk s') = (queue_of c (disk s))(n := None)"
      then show ?thesis using pending_delete [OF n] by simp
    qed (use n in \<open>simp add: pending_count_def\<close>)
    ultimately show ?thesis using r RemovingFile by simp
  next
    case (Burying n)
    then obtain b where b: "queue_of c (disk s) n = Some b" using assms(3) by auto
    then have n: "n \<in> dom (queue_of c (disk s))" by auto
    have "depth s' = depth s" using assms(1) Burying by (auto simp: on_disk_def split: prod.splits sum.splits)
    with fwd_bury_step [OF assms(1) [unfolded Burying] b] show ?thesis
    proof (elim conjE disjE)
      assume "pc' = Attempted (True, None)" "queue_of c (disk s') = queue_of c (disk s)"
      then show ?thesis using Burying \<open>depth s' = depth s\<close> by (simp add: pending_count_def)
    next
      assume "pc' = Freeing None" "queue_of c (disk s') = (queue_of c (disk s))(n := None)"
      then show ?thesis using Burying \<open>depth s' = depth s\<close> pending_delete [OF n] by simp
    qed
  next
    case (Freeing r)
    then show ?thesis using assms(1) same by (intro exI [of _ "-1"]) (auto simp: release_def)
  qed (use assms(1) same in \<open>auto simp: on_disk_def release_def emit_def split: sum.splits prod.splits list.splits option.splits if_splits\<close>)
qed

lemma counted_reach:
  assumes "par_reach (proc_step c perm (confirming forward) (apfst onDead) (dom old)) (spool_start c old w0) P \<sigma>"
  shows "counted c (int (card (dom old))) P \<sigma>"
  using assms
proof (rule spool_threads.reach_invariant)
  fix P and \<sigma> :: "('a \<times> bytes list) world"
  assume st: "spool_start c old w0 P \<sigma>"
  then obtain now d d' where n: "New c now d = (Inr (sp \<sigma>), d')" "wf_fs d" "old = queue_of c d"
    and P: "P = (\<lambda>i. Caller Idle)(0 := Deliverer Top second)" "unremoved \<sigma> = 0" by (auto simp: spool_start_def)
  have "holders P = {}" by (simp add: holders_def crew_def P(1))
  with New_facts [OF n(1,2)] n(3) P(2) show "counted c (int (card (dom old))) P \<sigma>"
    by (simp add: counted_def pending_count_def)
next
  fix P and \<sigma> \<sigma>' :: "('a \<times> bytes list) world" and i p'
  assume sh: "shared_ok c (dom old) \<sigma>" and own: "\<And>j. own_ok c (dom old) (P j) \<sigma>" and J: "counted c (int (card (dom old))) P \<sigma>"
    and st: "proc_step c perm (confirming forward) (apfst onDead) (dom old) (P i) \<sigma> p' \<sigma>'"
  have wf: "wf_fs (disk (sp \<sigma>))" using sh by (simp add: shared_ok_def)
  show "counted c (int (card (dom old))) (P(i := p')) \<sigma>'"
    using st
  proof cases
    case (call b)
    show ?thesis by (rule counted_step [OF J, of _ 0]) (use call in auto)
  next
    case (enqueue now pc pc' s')
    have o: "own_ok c (dom old) (Caller pc) \<sigma>" using own [of i] enqueue(1) by simp
    show ?thesis
    proof (cases pc)
      case (Reserving b)
      from reserve_cases [of c now "sp \<sigma>"] show ?thesis
      proof (elim disjE conjE)
        assume "reserve c now (sp \<sigma>) = (Inl ErrFull, sp \<sigma>)"
        then show ?thesis using enqueue Reserving by (intro counted_step [OF J, of _ 0]) auto
      next
        assume "reserve c now (sp \<sigma>) = (Inr (spool_name now (seq (sp \<sigma>) + 1)), sp \<sigma>\<lparr>depth := depth (sp \<sigma>) + 1, seq := seq (sp \<sigma>) + 1\<rparr>)"
          "depth (sp \<sigma>) < maxDepth c"
        then show ?thesis using enqueue Reserving by (intro counted_step [OF J, of _ 1]) auto
      qed
    next
      case (At ph n b)
      obtain ph' where a: "enq_at_step c n b ph (sp \<sigma>) = (ph', s')" and pc': "pc' = At ph' n b"
        using enqueue(4) At by (auto split: prod.splits)
      have n: "issued (seq (sp \<sigma>)) n" "at_ok c (disk (sp \<sigma>)) (set (snd (dest \<sigma>))) n b ph" using o At by auto
      from at_step_counts [OF a n(2) wf issued_pending [OF n(1)]] show ?thesis
      proof (elim disjE conjE)
        assume "depth s' = depth (sp \<sigma>)"
          "pending_count c (disk s') + of_bool (holds ph') = pending_count c (disk (sp \<sigma>)) + of_bool (holds ph)"
        then show ?thesis using enqueue At pc' by (intro counted_step [OF J, of _ 0]) auto
      next
        assume "depth s' = (if 0 < depth (sp \<sigma>) then depth (sp \<sigma>) - 1 else depth (sp \<sigma>))"
          "pending_count c (disk s') + of_bool (holds ph') = pending_count c (disk (sp \<sigma>)) + of_bool (holds ph) - 1"
        then show ?thesis using enqueue At pc' by (intro counted_step [OF J, of _ "-1"]) auto
      qed
    qed (use enqueue in \<open>auto intro!: counted_step [OF J, of _ 0]\<close>)
  next
    case (deliver now pc pc' s' w' u bo)
    have o: "fwd_ok (queue_of c (disk (sp \<sigma>))) (set (snd (dest \<sigma>))) pc" using own [of i] deliver(1) by simp
    from fwd_step_counts [OF deliver(4) wf o, of bo] obtain k where k:
      "pending_count c (disk s') + of_bool (holder (Deliverer pc' bo)) = pending_count c (disk (sp \<sigma>)) + of_bool (holder (Deliverer pc bo)) + k"
      "(depth s' = depth (sp \<sigma>) \<and> k = int u)
        \<or> (k = -1 \<and> (\<exists>r. pc = Freeing r) \<and> depth s' = (if 0 < depth (sp \<sigma>) then depth (sp \<sigma>) - 1 else depth (sp \<sigma>)))"
      unfolding deliver(5) by blast
    show ?thesis
    proof (rule counted_step [OF J])
      show "pending_count c (disk (sp \<sigma>')) + of_bool (holder p') = pending_count c (disk (sp \<sigma>)) + of_bool (holder (P i)) + k"
        using k(1) deliver(1-3) by simp
    qed (use k(2) deliver in auto)
  next
    case (pause res bo p bo')
    then show ?thesis by (intro counted_step [OF J, of _ 0]) (cases p; auto)+
  qed (intro counted_step [OF J, of _ 0]; auto)+
qed

section \<open>The wake-up\<close>

text \<open>The loop has found the queue empty and has not looked since.\<close>

fun found_empty :: "proc \<Rightarrow> bool" where
  "found_empty (Deliverer (Updating ps) bo) = (ps = [])"
| "found_empty (Deliverer (AgeHook ps t) bo) = (ps = [])"
| "found_empty (Deliverer (Attempted r) bo) = (r = (False, None))"
| "found_empty (Deliverer (AwaitingWork d) bo) = True"
| "found_empty p = False"

text \<open>A call has committed the signal and will still nudge the loop.\<close>

fun will_nudge :: "bytes \<Rightarrow> proc \<Rightarrow> bool" where
  "will_nudge n (Caller (At ph m b)) = (m = n \<and> (ph = Nudging \<or> ph = ReadingDepth None \<or> (\<exists>d. ph = DepthHook None d)))"
| "will_nudge n p = False"

definition awake :: "spool_cfg \<Rightarrow> (nat \<Rightarrow> proc) \<Rightarrow> 'w world \<Rightarrow> bool" where
  "awake c P \<sigma> \<longleftrightarrow> (\<forall>i. found_empty (P i) \<longrightarrow>
     (\<forall>n \<in> dom (queue_of c (disk (sp \<sigma>))). wake (sp \<sigma>) \<or> (\<exists>j. will_nudge n (P j))))"

lemma awakeI:
  assumes "awake c P \<sigma>" "found_empty p' \<Longrightarrow> found_empty (P i)"
    and "wake (sp \<sigma>) \<Longrightarrow> wake (sp \<sigma>') \<or> is_deliverer p' \<and> \<not> found_empty p' \<and> (\<forall>j. j \<noteq> i \<longrightarrow> \<not> is_deliverer (P j))"
    and "\<And>n. n \<in> dom (queue_of c (disk (sp \<sigma>'))) \<Longrightarrow> n \<in> dom (queue_of c (disk (sp \<sigma>))) \<or> will_nudge n p'"
    and "\<And>n. will_nudge n (P i) \<Longrightarrow> will_nudge n p' \<or> wake (sp \<sigma>')"
  shows "awake c (P(i := p')) \<sigma>'"
  unfolding awake_def
proof (intro allI impI ballI)
  fix k n
  assume k: "found_empty ((P(i := p')) k)" and n: "n \<in> dom (queue_of c (disk (sp \<sigma>')))"
  have del: "is_deliverer p" if "found_empty p" for p using that by (cases p) auto
  have old: "found_empty (P k)" using k assms(2) by (cases "k = i") auto
  show "wake (sp \<sigma>') \<or> (\<exists>j. will_nudge n ((P(i := p')) j))"
  proof (cases "will_nudge n p'")
    case True
    then show ?thesis by (metis fun_upd_same)
  next
    case False
    then have "n \<in> dom (queue_of c (disk (sp \<sigma>)))" using assms(4) [OF n] by blast
    then consider "wake (sp \<sigma>)" | j where "will_nudge n (P j)" using assms(1) old unfolding awake_def by blast
    then show ?thesis
    proof cases
      case 1
      have "\<not> (is_deliverer p' \<and> \<not> found_empty p' \<and> (\<forall>j. j \<noteq> i \<longrightarrow> \<not> is_deliverer (P j)))"
        using k del [OF old] by (cases "k = i") auto
      then show ?thesis using assms(3) [OF 1] by blast
    next
      case 2
      then show ?thesis using assms(5) [of n] False by (cases "j = i") (auto intro: exI [of _ j])
    qed
  qed
qed

lemma at_step_wake:
  assumes "enq_at_step c n b ph s = (ph', s')"
  shows "wake s \<longrightarrow> wake s'" "will_nudge m (Caller (At ph n b)) \<Longrightarrow> will_nudge m (Caller (At ph' n b)) \<or> wake s'"
  using assms by (cases ph; auto simp: on_disk_def release_def emit_def recordDirFsyncFailure_def recordDirFsyncSuccess_def
      split: sum.splits prod.splits option.splits if_splits)+

lemma fwd_step_wake:
  assumes "fwd_step c perm (confirming forward) (apfst onDead) now (pc, s, w) = (pc', s', w')"
  shows "wake s' = wake s"
  using assms by (cases pc; auto simp: on_disk_def release_def emit_def report_age_def report_delivered_def
      split: sum.splits prod.splits option.splits if_splits)

lemma run_pause_idle: "run_pause res bo = (p, bo') \<Longrightarrow> found_empty (Deliverer (after_pause p) b1) \<Longrightarrow> res = (False, None)"
  by (auto simp: run_pause_def split: prod.splits bool.splits option.splits)

text \<open>A step of the loop into the places after an empty listing.\<close>

lemma fwd_step_empty:
  assumes "fwd_step c perm (confirming forward) (apfst onDead) now (pc, s, w) = (pc', s', w')"
    and "found_empty (Deliverer pc' bo)" "wf_fs (disk s)"
  shows "found_empty (Deliverer pc bo) \<or> dom (queue_of c (disk s')) = {}"
proof (cases pc)
  case Top
  obtain r d where r: "listPending c (disk s) = (r, d)" by fastforce
  note lp = listPending_result [OF r assms(3)]
  have "queue_of c (disk s) = Map.empty" if "r = Inr []" using lp(2) [OF that] by (metis dom_eq_empty_conv list.set(1))
  then show ?thesis using assms(1,2) Top r lp(1) by (cases r) (auto simp: on_disk_def)
qed (use assms(1,2) in \<open>auto simp: on_disk_def split: sum.splits prod.splits list.splits option.splits if_splits\<close>)

lemma awake_reach:
  assumes "par_reach (proc_step c perm (confirming forward) (apfst onDead) (dom old)) (spool_start c old w0) P \<sigma>"
  shows "awake c P \<sigma>"
  using assms
proof (rule spool_threads.reach_invariant)
  fix P and \<sigma> :: "('a \<times> bytes list) world"
  assume "spool_start c old w0 P \<sigma>"
  then show "awake c P \<sigma>" by (auto simp: spool_start_def awake_def split: if_splits)
next
  fix P and \<sigma> \<sigma>' :: "('a \<times> bytes list) world" and i p'
  assume sh: "shared_ok c (dom old) \<sigma>" and own: "\<And>j. own_ok c (dom old) (P j) \<sigma>" and ap: "\<And>j k. j \<noteq> k \<Longrightarrow> apart_ok (P j) (P k)"
    and J: "awake c P \<sigma>" and st: "proc_step c perm (confirming forward) (apfst onDead) (dom old) (P i) \<sigma> p' \<sigma>'"
  have wf: "wf_fs (disk (sp \<sigma>))" using sh by (simp add: shared_ok_def)
  show "awake c (P(i := p')) \<sigma>'"
    using st
  proof cases
    case (enqueue now pc pc' s')
    have o: "own_ok c (dom old) (Caller pc) \<sigma>" using own [of i] enqueue(1) by simp
    show ?thesis
    proof (cases pc)
      case (Reserving b)
      from reserve_cases [of c now "sp \<sigma>"] enqueue Reserving show ?thesis
        by (intro awakeI [OF J]) auto
    next
      case (At ph n b)
      obtain ph' where a: "enq_at_step c n b ph (sp \<sigma>) = (ph', s')" and pc': "pc' = At ph' n b"
        using enqueue(4) At by (auto split: prod.splits)
      have n: "issued (seq (sp \<sigma>)) n" "at_ok c (disk (sp \<sigma>)) (set (snd (dest \<sigma>))) n b ph" using o At by auto
      note k = at_step_ok [OF a n(2) wf issued_pending [OF n(1)]]
      have new: "m \<in> dom (queue_of c (disk (sp \<sigma>))) \<or> will_nudge m p'" if "m \<in> dom (queue_of c (disk s'))" for m
      proof (cases "ph = Renaming")
        case True
        have tmp: "tmp_ok c (disk (sp \<sigma>)) n b Renaming" "n \<notin> dom (queue_of c (disk (sp \<sigma>)))"
          using n(2) True by (simp_all add: at_ok_def)
        from rename_step [OF a [unfolded True] tmp(1) issued_pending [OF n(1)] tmp(2), of "{}"] that show ?thesis
          using enqueue(2) pc' by (auto split: if_splits)
      next
        case False
        have tmp: "tmp_ok c (disk (sp \<sigma>)) n b ph" using n(2) by (simp add: at_ok_def)
        have "queue_of c (disk s') = queue_of c (disk (sp \<sigma>))"
          using False by (intro queue_touches [OF enq_at_touches(1) [OF a tmp] wf]) (auto simp: enq_paths_def)
        with that show ?thesis by simp
      qed
      show ?thesis
      proof (rule awakeI [OF J])
        show "found_empty p' \<Longrightarrow> found_empty (P i)" using enqueue(2) by simp
        show "wake (sp \<sigma>) \<Longrightarrow> wake (sp \<sigma>') \<or> is_deliverer p' \<and> \<not> found_empty p' \<and> (\<forall>j. j \<noteq> i \<longrightarrow> \<not> is_deliverer (P j))"
          using at_step_wake(1) [OF a] enqueue(3) by simp
        show "m \<in> dom (queue_of c (disk (sp \<sigma>'))) \<Longrightarrow> m \<in> dom (queue_of c (disk (sp \<sigma>))) \<or> will_nudge m p'" for m
          using new enqueue(3) by simp
        show "will_nudge m (P i) \<Longrightarrow> will_nudge m p' \<or> wake (sp \<sigma>')" for m
          using at_step_wake(2) [OF a, of m] enqueue(1-3) At pc' by simp
      qed
    qed (use enqueue in \<open>auto intro!: awakeI [OF J]\<close>)
  next
    case (deliver now pc pc' s' w' u bo)
    have o: "fwd_ok (queue_of c (disk (sp \<sigma>))) (set (snd (dest \<sigma>))) pc" using own [of i] deliver(1) by simp
    show ?thesis
    proof (cases "dom (queue_of c (disk s')) = {}")
      case True
      then show ?thesis using deliver(3) by (simp add: awake_def)
    next
      case False
      have sub: "m \<in> dom (queue_of c (disk (sp \<sigma>)))" if "m \<in> dom (queue_of c (disk s'))" for m
        using that fwd_step_ok(2) [OF deliver(4) wf o] by (auto split: if_splits)
      show ?thesis
      proof (rule awakeI [OF J])
        show "found_empty p' \<Longrightarrow> found_empty (P i)" using fwd_step_empty [OF deliver(4) _ wf] False deliver(1,2) by auto
      qed (use sub fwd_step_wake [OF deliver(4)] deliver(1-3) in auto)
    qed
  next
    case (pause res bo p bo')
    then show ?thesis using run_pause_idle [OF pause(4)] by (intro awakeI [OF J]) auto
  next
    case (woken d bo)
    have "\<not> is_deliverer (P j)" if "j \<noteq> i" for j using ap [OF that] woken(1) by (auto simp: apart_ok_def)
    then show ?thesis using woken by (intro awakeI [OF J]) auto
  qed (auto intro!: awakeI [OF J])
qed

section \<open>The end of a call\<close>

text \<open>The number of steps a call still takes at most.\<close>

fun steps_left :: "enq_pc \<Rightarrow> nat" where
  "steps_left (Reserving b) = 14"
| "steps_left (At Opening n b) = 13"
| "steps_left (At (Writing f) n b) = 12"
| "steps_left (At (Fsyncing f) n b) = 11"
| "steps_left (At Closing n b) = 10"
| "steps_left (At Renaming n b) = 9"
| "steps_left (At (ReadingDepth r) n b) = (if r = None then 8 else 2)"
| "steps_left (At (DepthHook r d) n b) = (if r = None then 7 else 1)"
| "steps_left (At Nudging n b) = 6"
| "steps_left (At SyncOpening n b) = 5"
| "steps_left (At (ClosingFailed e) n b) = 5"
| "steps_left (At (Removing e) n b) = 4"
| "steps_left (At (Releasing e) n b) = 3"
| "steps_left (At SyncingDir n b) = 4"
| "steps_left (At (SyncClosing r) n b) = 3"
| "steps_left (At (RecordingFailure e) n b) = 2"
| "steps_left (At (FailureHook e) n b) = 1"
| "steps_left (At RecordingSuccess n b) = 1"
| "steps_left pc = 0"

text \<open>The control states of one call whose steps meet the shared states \<open>envs\<close>, whatever these are.\<close>

fun run_among :: "spool_cfg \<Rightarrow> (instant \<times> Spool) list \<Rightarrow> enq_pc \<Rightarrow> enq_pc" where
  "run_among c [] pc = pc"
| "run_among c ((now, s) # envs) pc = run_among c envs (fst (enq_step c now (pc, s)))"

lemma steps_left_step: "steps_left (fst (enq_step c now (pc, s))) \<le> steps_left pc - 1"
proof (cases pc)
  case (At ph n b)
  show ?thesis unfolding At
    by (cases ph) (auto simp: on_disk_def recordDirFsyncFailure_def split: sum.splits prod.splits option.splits)
qed (auto split: sum.splits prod.splits)

lemma run_among_left: "steps_left (run_among c envs pc) \<le> steps_left pc - length envs"
proof (induction envs arbitrary: pc)
  case (Cons e envs)
  obtain now s where e: "e = (now, s)" by fastforce
  have "steps_left (run_among c (e # envs) pc) \<le> steps_left (fst (enq_step c now (pc, s))) - length envs"
    using Cons by (simp add: e)
  also have "\<dots> \<le> steps_left pc - 1 - length envs" using steps_left_step by (rule diff_le_mono)
  finally show ?case by simp
qed simp

lemma steps_left_done: "steps_left pc = 0 \<Longrightarrow> pc \<noteq> Idle \<Longrightarrow> \<exists>r. enq_result pc = Some r"
  by (cases pc rule: steps_left.cases) (auto split: if_splits)

lemma run_among_started: "pc \<noteq> Idle \<Longrightarrow> run_among c envs pc \<noteq> Idle"
proof (induction envs arbitrary: pc)
  case (Cons e envs)
  have "fst (enq_step c (fst e) (pc, snd e)) \<noteq> Idle" using Cons.prems by (cases pc) (auto split: sum.splits prod.splits)
  with Cons.IH show ?case by (cases e) simp
qed simp

section \<open>What the start found\<close>

text \<open>The signals pending at the start are accounted for too.\<close>

definition old_kept :: "spool_cfg \<Rightarrow> (bytes \<rightharpoonup> bytes) \<Rightarrow> ('w \<times> bytes list) world \<Rightarrow> bool" where
  "old_kept c old \<sigma> \<longleftrightarrow> (\<forall>n b. old n = Some b \<longrightarrow> b \<in> set (snd (dest \<sigma>))
     \<or> (if n \<in> dom (queue_of c (disk (sp \<sigma>))) then queue_of c (disk (sp \<sigma>)) n = Some b
        else dead_of c (disk (sp \<sigma>)) n = Some b))"

lemma old_kept_step:
  assumes "old_kept c old \<sigma>" "set (snd (dest \<sigma>)) \<subseteq> set (snd (dest \<sigma>'))"
    and "\<And>n. n \<in> dom old \<Longrightarrow>
      (queue_of c (disk (sp \<sigma>')) n = queue_of c (disk (sp \<sigma>)) n \<and> dead_of c (disk (sp \<sigma>')) n = dead_of c (disk (sp \<sigma>)) n)
      \<or> (\<exists>a. queue_of c (disk (sp \<sigma>)) n = Some a \<and> (a \<in> set (snd (dest \<sigma>'))
           \<or> queue_of c (disk (sp \<sigma>')) n = None \<and> dead_of c (disk (sp \<sigma>')) n = Some a))"
  shows "old_kept c old \<sigma>'"
  unfolding old_kept_def
proof (intro allI impI)
  fix n b
  assume n: "old n = Some b"
  then have "n \<in> dom old" by blast
  note e = assms(3) [OF this]
  have "b \<in> set (snd (dest \<sigma>)) \<or> (if n \<in> dom (queue_of c (disk (sp \<sigma>)))
      then queue_of c (disk (sp \<sigma>)) n = Some b else dead_of c (disk (sp \<sigma>)) n = Some b)"
    using assms(1) n unfolding old_kept_def by blast
  with e assms(2) show "b \<in> set (snd (dest \<sigma>')) \<or> (if n \<in> dom (queue_of c (disk (sp \<sigma>')))
      then queue_of c (disk (sp \<sigma>')) n = Some b else dead_of c (disk (sp \<sigma>')) n = Some b)"
    by (auto simp: domIff split: if_splits)
qed

lemma old_kept_reach:
  assumes "par_reach (proc_step c perm (confirming forward) (apfst onDead) (dom old)) (spool_start c old w0) P \<sigma>"
  shows "old_kept c old \<sigma>"
  using assms
proof (rule spool_threads.reach_invariant)
  fix P and \<sigma> :: "('a \<times> bytes list) world"
  assume "spool_start c old w0 P \<sigma>"
  then obtain now d d' where n: "New c now d = (Inr (sp \<sigma>), d')" "wf_fs d" "old = queue_of c d"
    by (auto simp: spool_start_def)
  have "queue_of c (disk (sp \<sigma>)) = old" using New_facts [OF n(1,2)] n(3) by simp
  then show "old_kept c old \<sigma>" by (auto simp: old_kept_def)
next
  fix P and \<sigma> \<sigma>' :: "('a \<times> bytes list) world" and i p'
  assume sh: "shared_ok c (dom old) \<sigma>" and own: "\<And>j. own_ok c (dom old) (P j) \<sigma>" and J: "old_kept c old \<sigma>"
    and st: "proc_step c perm (confirming forward) (apfst onDead) (dom old) (P i) \<sigma> p' \<sigma>'"
  have wf: "wf_fs (disk (sp \<sigma>))" using sh by (simp add: shared_ok_def)
  show "old_kept c old \<sigma>'"
    using st
  proof cases
    case (enqueue now pc pc' s')
    have o: "own_ok c (dom old) (Caller pc) \<sigma>" using own [of i] enqueue(1) by simp
    have eq: "(queue_of c (disk s') n = queue_of c (disk (sp \<sigma>)) n) \<and> dead_of c (disk s') = dead_of c (disk (sp \<sigma>))"
      if "n \<in> dom old" for n
    proof (cases pc)
      case (Reserving b)
      then show ?thesis using enqueue(4) reserve_cases [of c now "sp \<sigma>"] by auto
    next
      case (At ph m b)
      obtain ph' where a: "enq_at_step c m b ph (sp \<sigma>) = (ph', s')" using enqueue(4) At by (auto split: prod.splits)
      have m: "m \<notin> dom old" "issued (seq (sp \<sigma>)) m" "at_ok c (disk (sp \<sigma>)) (set (snd (dest \<sigma>))) m b ph"
        using o At by auto
      have tmp: "tmp_ok c (disk (sp \<sigma>)) m b ph" using m(3) by (simp add: at_ok_def)
      have "dead_of c (disk s') = dead_of c (disk (sp \<sigma>))"
        by (rule dead_touches [OF enq_at_touches(1) [OF a tmp] wf]) (simp add: enq_paths_def)
      moreover have "queue_of c (disk s') n = queue_of c (disk (sp \<sigma>)) n"
        using at_step_ok(2) [OF a m(3) wf issued_pending [OF m(2)], of n] m(1) that by auto
      ultimately show ?thesis by simp
    qed (use enqueue(4) in auto)
    show ?thesis using eq enqueue(3) by (intro old_kept_step [OF J]) auto
  next
    case (deliver now pc pc' s' w' u bo)
    have o: "fwd_ok (queue_of c (disk (sp \<sigma>))) (set (snd (dest \<sigma>))) pc" using own [of i] deliver(1) by simp
    note t = fwd_step_touches [OF deliver(4)]
    show ?thesis
    proof (cases "\<exists>n. pc = RemovingFile n \<or> pc = Burying n")
      case False
      then have "fwd_paths c pc = {}" by (cases pc) auto
      then have "queue_of c (disk s') = queue_of c (disk (sp \<sigma>))" "dead_of c (disk s') = dead_of c (disk (sp \<sigma>))"
        by (auto intro!: queue_touches [OF t(1) wf] dead_touches [OF t(1) wf])
      then show ?thesis using t(3) deliver(3) by (intro old_kept_step [OF J]) auto
    next
      case True
      then obtain n where n: "pc = RemovingFile n \<or> pc = Burying n" by blast
      then obtain a where q: "queue_of c (disk (sp \<sigma>)) n = Some a" "pc = RemovingFile n \<longrightarrow> a \<in> set (snd (dest \<sigma>))"
        using o by auto
      show ?thesis
      proof (cases "pc = RemovingFile n")
        case True
        have "dead_of c (disk s') = dead_of c (disk (sp \<sigma>))"
          by (rule dead_touches [OF t(1) wf]) (simp add: True)
        with fwd_remove_step [OF deliver(4) [unfolded True] wf] q True deliver(3) show ?thesis
          by (intro old_kept_step [OF J]) auto
      next
        case False
        with n have "pc = Burying n" by simp
        from fwd_bury_step [OF deliver(4) [unfolded this] q(1)] q(1) deliver(3) show ?thesis
          by (intro old_kept_step [OF J]) auto
      qed
    qed
  qed (intro old_kept_step [OF J]; auto)+
qed

text \<open>What every delivery and every dead letter keeps of the destination, every run keeps.\<close>

lemma reach_destination:
  assumes "par_reach (proc_step c perm (confirming forward) (apfst onDead) (dom old)) (spool_start c old w0) P \<sigma>"
    and "I (w0, [])" "\<And>b w r w'. I w \<Longrightarrow> confirming forward b w = (r, w') \<Longrightarrow> I w'" "\<And>w. I w \<Longrightarrow> I (apfst onDead w)"
  shows "I (dest \<sigma>)"
  using assms(1)
proof (rule spool_threads.reach_invariant)
  fix P and \<sigma> \<sigma>' :: "('a \<times> bytes list) world" and i p'
  assume J: "I (dest \<sigma>)" and st: "proc_step c perm (confirming forward) (apfst onDead) (dom old) (P i) \<sigma> p' \<sigma>'"
  show "I (dest \<sigma>')"
    using st
  proof cases
    case (deliver now pc pc' s' w' u bo)
    have "I w'"
      using deliver(4) J assms(3) [OF J] assms(4) [OF J]
      by (cases pc) (auto split: sum.splits prod.splits option.splits)
    then show ?thesis using deliver(3) by simp
  qed (use J in simp_all)
qed (use assms(2) in \<open>auto simp: spool_start_def\<close>)

end
