(* ===== verification/GoDuration.thy ===== *)
theory GoDuration
  imports GoFloat
begin

text \<open>
  \<^verbatim>\<open>time.Duration\<close>, an \<^verbatim>\<open>int64\<close> number of nanoseconds, and the conversions of it the
  gateway uses. Go's integer division truncates towards zero, as does the conversion of a
  \<^verbatim>\<open>float64\<close> to an integer.
\<close>

definition tdiv :: "int \<Rightarrow> int \<Rightarrow> int" where
  "tdiv a b = (if a < 0 then - (- a div b) else a div b)"

definition tmod :: "int \<Rightarrow> int \<Rightarrow> int" where
  "tmod a b = a - b * tdiv a b"

lemma tdiv_nonneg [simp]: "0 \<le> a \<Longrightarrow> tdiv a b = a div b" "0 \<le> a \<Longrightarrow> tmod a b = a mod b"
  by (simp_all add: tdiv_def tmod_def minus_mult_div_eq_mod)

definition Microseconds :: "int \<Rightarrow> int" where "Microseconds d = tdiv d 1000"
definition Milliseconds :: "int \<Rightarrow> int" where "Milliseconds d = tdiv d 1000000"

definition Seconds :: "int \<Rightarrow> f64" where
  "Seconds d = fadd (f64_of_int (tdiv d 1000000000)) (fdiv_fin (f64_of_int (tmod d 1000000000)) 1000000000)"

text \<open>The rational of a finite value, and the truncation of one; no other value is converted.\<close>

fun f64_rat :: "f64 \<Rightarrow> rat" where
  "f64_rat (Fin q) = q"
| "f64_rat _ = 0"

definition f64_trunc :: "f64 \<Rightarrow> int" where
  "f64_trunc x = (if 0 \<le> f64_rat x then \<lfloor>f64_rat x\<rfloor> else \<lceil>f64_rat x\<rceil>)"

text \<open>Division of two integers as \<^verbatim>\<open>float64\<close> values, the divisor not zero.\<close>

definition fratio :: "int \<Rightarrow> int \<Rightarrow> f64" where
  "fratio a b = fdiv_fin (f64_of_int a) (f64_rat (f64_of_int b))"

lemma fround_zero [simp]: "fround 0 = Fin 0"
  by (simp add: fround_def)

lemma Seconds_whole:
  assumes "0 \<le> k" "k < 2 ^ 53"
  shows "Seconds (k * 1000000000) = Fin (of_int k)"
proof -
  have "f64_of_int k = Fin (of_int k)" using assms by simp
  then have "fround (of_int k) = Fin (of_int k)" by (simp only: f64_of_int_def)
  with assms show ?thesis by (simp add: Seconds_def f64_of_int_def)
qed

lemma f64_trunc_int [simp]: "f64_trunc (Fin (of_int k)) = k"
  by (simp add: f64_trunc_def)

section \<open>The error of a division\<close>

lemma round_half_even_close: "\<bar>of_int (round_half_even x) - x\<bar> \<le> 1 / 2"
proof -
  define f where "f = \<lfloor>x\<rfloor>"
  define d where "d = x - of_int f"
  have d: "0 \<le> d" "d < 1" "x = of_int f + d" unfolding d_def f_def by linarith+
  have "round_half_even x = (if d < 1 / 2 then f else if 1 / 2 < d then f + 1 else if even f then f else f + 1)"
    unfolding round_half_even_def Let_def d_def f_def ..
  moreover have "d < 1 / 2 \<or> 1 / 2 < d \<or> d = 1 / 2" by linarith
  ultimately show ?thesis using d by (elim disjE) auto
qed

lemma fround_close:
  assumes "two_pow (- 1022) \<le> q" "q \<le> two_pow 1000"
  obtains r where "fround q = Fin r" "\<bar>r - q\<bar> \<le> q / 2 ^ 53"
proof -
  have q: "0 < q" using assms(1) two_pow_pos [of "- 1022"] by linarith
  let ?u = "two_pow (max (ilog2 q) (- 1022) - 52)"
  let ?r = "of_int (round_half_even (q / ?u)) * ?u"
  have le: "two_pow (max (ilog2 q) (- 1022)) \<le> q" using ilog2_lower [OF q] assms(1) by (simp add: max_def)
  have u: "?u = two_pow (max (ilog2 q) (- 1022)) / 2 ^ 52"
    using two_pow_divide [of "max (ilog2 q) (- 1022)" 52] by (simp add: two_pow_def [of 52])
  have "?r - q = (of_int (round_half_even (q / ?u)) - q / ?u) * ?u" by (simp add: left_diff_distrib)
  then have "\<bar>?r - q\<bar> = \<bar>of_int (round_half_even (q / ?u)) - q / ?u\<bar> * ?u"
    by (simp only: abs_mult abs_of_pos [OF two_pow_pos])
  also have "\<dots> \<le> 1 / 2 * ?u" by (rule mult_right_mono [OF round_half_even_close]) (simp add: less_imp_le)
  also have "\<dots> \<le> q / 2 ^ 53" using le by (simp add: u)
  finally have close: "\<bar>?r - q\<bar> \<le> q / 2 ^ 53" .
  then have "?r \<le> 2 * q" "0 \<le> ?r" using q by (simp_all only: abs_le_iff) (simp_all add: field_simps)
  moreover have "2 * two_pow 1000 < f64_limit" by (simp add: two_pow_def f64_limit_def)
  ultimately have "\<not> f64_limit \<le> ?r" "\<not> ?r \<le> - f64_limit" using assms(2) q by linarith+
  then have "fround q = Fin ?r" using q by (simp add: fround_def Let_def)
  with close that show thesis by blast
qed

end
