(* ===== verification/Metrics.thy ===== *)
theory Metrics
  imports GoDuration SpoolLaws
begin

text \<open>
  internal/adapters/metrics.go: the counters, gauges and delivery latency behind
  \<^verbatim>\<open>/metrics\<close>, and the hooks of cmd/gateway/main.go that feed them from the spool. A
  counter is an \<^verbatim>\<open>int64\<close> cell created at its first use, so a map of 64-bit words; the mutexes
  and atomics make each operation one step.
\<close>

record metrics =
  counters :: "string \<rightharpoonup> 64 word"
  gauges :: "string \<rightharpoonup> 64 word"
  lastDeliveryUnixNano :: int
  ewmaInitialized :: bool
  ewmaValueMs :: f64

definition no_metrics :: metrics where
  "no_metrics = \<lparr>counters = Map.empty, gauges = Map.empty, lastDeliveryUnixNano = 0,
     ewmaInitialized = False, ewmaValueMs = Fin 0\<rparr>"

text \<open>\<^verbatim>\<open>1 - deliveryLatencyEWMAAlpha\<close> is a constant expression, exact before its conversion.\<close>

definition deliveryLatencyEWMAAlpha :: rat where
  "deliveryLatencyEWMAAlpha = 2 / 10"

definition updateDeliveryLatencyEWMA :: "f64 \<Rightarrow> metrics \<Rightarrow> metrics" where
  "updateDeliveryLatencyEWMA sampleMs m =
     (if \<not> ewmaInitialized m then m\<lparr>ewmaValueMs := sampleMs, ewmaInitialized := True\<rparr>
      else m\<lparr>ewmaValueMs := fadd (fmul (f64_lit deliveryLatencyEWMAAlpha) sampleMs)
                            (fmul (f64_lit (1 - deliveryLatencyEWMAAlpha)) (ewmaValueMs m))\<rparr>)"

definition deliveryLatencyEWMA :: "metrics \<Rightarrow> f64 \<times> bool" where
  "deliveryLatencyEWMA m = (ewmaValueMs m, ewmaInitialized m)"

definition RecordMetric :: "string \<Rightarrow> int \<Rightarrow> metrics \<Rightarrow> metrics" where
  "RecordMetric name value m =
     (let old = (case counters m name of None \<Rightarrow> 0 | Some c \<Rightarrow> c)
      in m\<lparr>counters := (counters m)(name \<mapsto> old + word_of_int value)\<rparr>)"

definition SetGauge :: "string \<Rightarrow> int \<Rightarrow> metrics \<Rightarrow> metrics" where
  "SetGauge name value m = m\<lparr>gauges := (gauges m)(name \<mapsto> word_of_int value)\<rparr>"

definition RecordDelivery :: "instant \<Rightarrow> int \<Rightarrow> metrics \<Rightarrow> metrics" where
  "RecordDelivery now queueTime m0 =
     (let m = RecordMetric ''signals_forwarded'' 1 (m0\<lparr>lastDeliveryUnixNano := now\<rparr>)
      in if 0 < queueTime then
           (let msFloat = fdiv_fin (f64_of_int (Microseconds queueTime)) 1000
            in updateDeliveryLatencyEWMA msFloat
                 (RecordMetric ''delivery_latency_count'' 1
                   (RecordMetric ''delivery_latency_ms_sum'' (Milliseconds queueTime) m)))
         else m)"

text \<open>
  The map \<^verbatim>\<open>/metrics\<close> renders as JSON. \<open>uptime\<close> is
  \<^verbatim>\<open>time.Since(startTime)\<close>; the last delivery is measured on the wall clock.
\<close>

datatype metric_value = MInt int | MFloat f64 | MText bytes | MNull

definition counter_value :: "string \<Rightarrow> metrics \<Rightarrow> int" where
  "counter_value name m = (case counters m name of None \<Rightarrow> 0 | Some c \<Rightarrow> sint c)"

definition stored_values :: "(string \<rightharpoonup> 64 word) \<Rightarrow> (string \<rightharpoonup> metric_value)" where
  "stored_values f name = map_option (\<lambda>c. MInt (sint c)) (f name)"

definition MetricsHandler :: "instant \<Rightarrow> int \<Rightarrow> instant \<Rightarrow> metrics \<Rightarrow> (string \<rightharpoonup> metric_value)" where
  "MetricsHandler startTime uptime now m =
     (let result = [''uptime_seconds'' \<mapsto> MInt (f64_trunc (Seconds uptime)),
                    ''started_at'' \<mapsto> MText (format_rfc3339 startTime)]
            ++ stored_values (counters m) ++ stored_values (gauges m);
          latencySum = counter_value ''delivery_latency_ms_sum'' m;
          latencyCount = counter_value ''delivery_latency_count'' m;
          result = result(''seconds_since_last_delivery'' \<mapsto>
            (if lastDeliveryUnixNano m \<noteq> 0 then MFloat (Seconds (sub_time now (lastDeliveryUnixNano m))) else MNull))
      in if 0 < latencyCount then
           (let result = result(''delivery_latency_ms_lifetime_avg'' \<mapsto> MFloat (fratio latencySum latencyCount))
            in case deliveryLatencyEWMA m of
                 (ewma, ok) \<Rightarrow> if ok then result(''delivery_latency_ms_ewma'' \<mapsto> MFloat ewma) else result)
         else result)"

text \<open>The hooks \<^verbatim>\<open>main\<close> hands to the spool, with the clock at the call.\<close>

fun run_hook :: "instant \<Rightarrow> spool_event \<Rightarrow> metrics \<Rightarrow> metrics" where
  "run_hook now (OnDelivered queueTime) m = RecordDelivery now queueTime m"
| "run_hook now OnDead m = RecordMetric ''signals_dead_lettered'' 1 m"
| "run_hook now OnFailed m = RecordMetric ''delivery_attempt_failures'' 1 m"
| "run_hook now (OnDepth d) m = SetGauge ''spool_depth'' d m"
| "run_hook now (OnOldestPendingAge age) m =
     SetGauge ''spool_oldest_pending_age_seconds'' (f64_trunc (Seconds age)) m"
| "run_hook now OnDirFsyncFailure m = RecordMetric ''spool_dir_fsync_failures'' 1 m"

definition run_hooks :: "(instant \<times> spool_event) list \<Rightarrow> metrics \<Rightarrow> metrics" where
  "run_hooks es m = foldl (\<lambda>m (now, e). run_hook now e m) m es"

section \<open>Laws\<close>

text \<open>The content of a counter, zero before its first use.\<close>

definition cell :: "string \<Rightarrow> metrics \<Rightarrow> 64 word" where
  "cell name m = (case counters m name of None \<Rightarrow> 0 | Some c \<Rightarrow> c)"

lemma counter_value_cell: "counter_value name m = sint (cell name m)"
  by (simp add: counter_value_def cell_def split: option.split)

lemma RecordMetric_simps [simp]:
  "cell name (RecordMetric n v m) = cell name m + (if name = n then word_of_int v else 0)"
  "gauges (RecordMetric n v m) = gauges m" "ewmaInitialized (RecordMetric n v m) = ewmaInitialized m"
  "dom (counters (RecordMetric n v m)) = insert n (dom (counters m))"
  by (auto simp: RecordMetric_def cell_def Let_def)

lemma SetGauge_simps [simp]:
  "cell name (SetGauge n v m) = cell name m" "gauges (SetGauge n v m) = (gauges m)(n \<mapsto> word_of_int v)"
  "ewmaInitialized (SetGauge n v m) = ewmaInitialized m" "counters (SetGauge n v m) = counters m"
  by (simp_all add: SetGauge_def cell_def)

lemma update_ewma_simps [simp]:
  "cell name (updateDeliveryLatencyEWMA x m) = cell name m" "gauges (updateDeliveryLatencyEWMA x m) = gauges m"
  "ewmaInitialized (updateDeliveryLatencyEWMA x m)" "counters (updateDeliveryLatencyEWMA x m) = counters m"
  by (simp_all add: updateDeliveryLatencyEWMA_def cell_def)

lemma last_delivery_simps [simp]:
  "cell name (m\<lparr>lastDeliveryUnixNano := t\<rparr>) = cell name m"
  by (simp add: cell_def)

text \<open>What each event counts for in each counter.\<close>

fun is_delivered :: "spool_event \<Rightarrow> bool" where
  "is_delivered (OnDelivered q) = True" | "is_delivered _ = False"

fun is_timed :: "spool_event \<Rightarrow> bool" where
  "is_timed (OnDelivered q) = (0 < q)" | "is_timed _ = False"

definition occurrences :: "(spool_event \<Rightarrow> bool) \<Rightarrow> (instant \<times> spool_event) list \<Rightarrow> nat" where
  "occurrences f es = length (filter (\<lambda>e. f (snd e)) es)"

lemma occurrences_simps [simp]:
  "occurrences f [] = 0" "occurrences f (es @ [e]) = occurrences f es + (if f (snd e) then 1 else 0)"
  by (simp_all add: occurrences_def)

lemma run_hooks_simps [simp]:
  "run_hooks [] m = m" "run_hooks (es @ [(now, e)]) m = run_hook now e (run_hooks es m)"
  by (simp_all add: run_hooks_def)

definition counted_by :: "(string \<times> (spool_event \<Rightarrow> bool)) list" where
  "counted_by = [(''signals_forwarded'', is_delivered), (''signals_dead_lettered'', \<lambda>e. e = OnDead),
     (''delivery_attempt_failures'', \<lambda>e. e = OnFailed), (''spool_dir_fsync_failures'', \<lambda>e. e = OnDirFsyncFailure),
     (''delivery_latency_count'', is_timed)]"

lemma hook_counts_all:
  "list_all (\<lambda>(name, f). cell name (run_hook now e m) = cell name m + (if f e then 1 else 0)) counted_by"
  by (cases e) (simp_all add: counted_by_def RecordDelivery_def Let_def)

lemma hook_counts:
  "(name, f) \<in> set counted_by \<Longrightarrow> cell name (run_hook now e m) = cell name m + (if f e then 1 else 0)"
  using hook_counts_all [of now e m] unfolding list_all_iff by fastforce

lemma hooks_count:
  assumes "(name, f) \<in> set counted_by"
  shows "cell name (run_hooks es m) = cell name m + of_nat (occurrences f es)"
proof (induction es rule: rev_induct)
  case (snoc e es)
  then show ?case by (cases e) (simp add: hook_counts [OF assms])
qed simp

lemma hooks_ewma: "ewmaInitialized (run_hooks es m) \<longleftrightarrow> ewmaInitialized m \<or> 0 < occurrences is_timed es"
proof (induction es rule: rev_induct)
  case (snoc e es)
  have "ewmaInitialized (run_hook now x m) \<longleftrightarrow> ewmaInitialized m \<or> is_timed x" for now x m
    by (cases x) (simp_all add: RecordDelivery_def Let_def)
  with snoc show ?case by (cases e) auto
qed simp

text \<open>The last depth the spool reported.\<close>

fun depth_of :: "spool_event \<Rightarrow> int option" where
  "depth_of (OnDepth d) = Some d" | "depth_of _ = None"

definition last_depth :: "spool_event list \<Rightarrow> int option" where
  "last_depth es = foldl (\<lambda>r e. case depth_of e of None \<Rightarrow> r | Some d \<Rightarrow> Some d) None es"

lemma last_depth_snoc [simp]:
  "last_depth (es @ [e]) = (case depth_of e of None \<Rightarrow> last_depth es | Some d \<Rightarrow> Some d)"
  by (simp add: last_depth_def split: option.split)

lemma hooks_depth:
  "gauges (run_hooks es m) ''spool_depth'' =
    (case last_depth (map snd es) of None \<Rightarrow> gauges m ''spool_depth'' | Some d \<Rightarrow> Some (word_of_int d))"
proof (induction es rule: rev_induct)
  case Nil
  then show ?case by (simp add: last_depth_def)
next
  case (snoc e es)
  have "gauges (run_hook now x m) ''spool_depth'' =
      (case depth_of x of None \<Rightarrow> gauges m ''spool_depth'' | Some d \<Rightarrow> Some (word_of_int d))" for now x m
    by (cases x) (simp_all add: RecordDelivery_def Let_def)
  with snoc show ?case by (cases e) (simp split: option.split)
qed

definition reported :: "Spool \<Rightarrow> bool" where
  "reported s \<longleftrightarrow> last_depth (events s) = Some (depth s)"

lemma reported_steps [simp]:
  "reported (reportDepth s)" "reported (decDepth s)"
  "depth_of e = None \<Longrightarrow> reported (emit e s) = reported s"
  "reported (s\<lparr>wake := b\<rparr>) = reported s" "reported (updateOldestPending now ps s) = reported s"
  by (simp_all add: reported_def reportDepth_def decDepth_def release_def emit_def updateOldestPending_def report_age_def Let_def)

lemma reported_on_disk: "on_disk f s = (r, s') \<Longrightarrow> reported s' = reported s"
  by (auto simp: on_disk_def reported_def split: prod.splits)

lemma reported_Enqueue:
  assumes "reported s" "Enqueue c now b s = (r, s')"
  shows "reported s'"
proof -
  have "reported (abandon c name t)" for name t by (simp add: abandon_def)
  moreover have "reported t'" if "commit c name t = (Inr u, t')" for name t u t'
    using that by (auto simp: commit_def split: sum.splits prod.splits)
  moreover have "reported t'" if "dir_sync c t = (q, t')" "reported t" for t q t'
    using that reported_on_disk [of "Sync (dir c)" t]
    by (auto simp: dir_sync_def recordDirFsyncFailure_def recordDirFsyncSuccess_def reported_def emit_def
        split: if_splits sum.splits prod.splits)
  ultimately show ?thesis
    using assms by (auto simp: Enqueue_def reserve_def Let_def split: if_splits sum.splits prod.splits)
qed

lemma reported_forward:
  assumes "reported s" "forwardOldest c perm forward onDead now s w = (res, s', w')"
  shows "reported s'"
proof -
  have dl: "reported t'" if "dead_letter_with c onDead name t v = (q, t', v')" "reported t" for name t v q t' v'
    using that reported_on_disk [of "os_rename (dir c, name) (dead_dir c, name)" t]
    by (auto simp: dead_letter_with_def deadLetter_def split: sum.splits prod.splits)
  have fin: "reported (finish_delivery c now name t)" for name t by (simp add: finish_delivery_def report_delivered_def)
  have "reported t'" if "forward_head c perm forward onDead now name t v = (q, t', v')" "reported t" for name t v q t' v'
    using that fin reported_on_disk [of "os_read_file (dir c, name)" t]
    by (auto simp: forward_head_def dest: dl split: sum.splits prod.splits option.splits if_splits)
  then show ?thesis
    using assms reported_on_disk [of "listPending c" s]
    by (auto simp: forwardOldest_def Let_def split: sum.splits prod.splits list.splits)
qed

lemma reported_reach: "spool_reach c perm forward onDead s w \<Longrightarrow> reported s"
proof (induction rule: spool_reach.induct)
  case (reach_new now d s d' w)
  then show ?case by (auto simp: New_def split: sum.splits prod.splits)
qed (auto intro: reported_Enqueue reported_forward)

text \<open>The names the hooks use.\<close>

definition names :: "metrics \<Rightarrow> string set" where
  "names m = dom (counters m) \<union> dom (gauges m)"

definition hook_keys :: "string set" where
  "hook_keys = {''signals_forwarded'', ''delivery_latency_count'', ''delivery_latency_ms_sum'', ''signals_dead_lettered'',
     ''delivery_attempt_failures'', ''spool_dir_fsync_failures'', ''spool_depth'', ''spool_oldest_pending_age_seconds''}"

lemma names_simps [simp]:
  "names (RecordMetric n v m) = insert n (names m)" "names (SetGauge n v m) = insert n (names m)"
  "names (updateDeliveryLatencyEWMA x m) = names m" "names (m\<lparr>lastDeliveryUnixNano := t\<rparr>) = names m"
  by (simp_all add: names_def)

lemma hook_names: "names (run_hook now e m) \<subseteq> names m \<union> hook_keys"
  by (cases e) (auto simp: RecordDelivery_def Let_def hook_keys_def)

lemma hooks_names: "names (run_hooks es no_metrics) \<subseteq> hook_keys"
proof (induction es rule: rev_induct)
  case Nil
  then show ?case by (simp add: no_metrics_def names_def)
next
  case (snoc e es)
  then show ?case using hook_names [of "fst e" "snd e" "run_hooks es no_metrics"] by (cases e) auto
qed

section \<open>Properties\<close>

text \<open>
  In every state the spool can reach, the gauge \<^verbatim>\<open>spool_depth\<close> shows its depth: every
  operation reports the depth it leaves, error paths included.
\<close>

theorem depth_gauge_is_current:
  assumes "spool_reach c perm forward onDead s w" "map snd es = events s"
  shows "gauges (run_hooks es m) ''spool_depth'' = Some (word_of_int (depth s))"
  using reported_reach [OF assms(1)] assms(2) by (simp add: hooks_depth reported_def)

theorem depth_gauge_is_current_witness:
  "\<exists>s d es. New cfg1 5 (empty_fs []) = (Inr s, d) \<and> map snd es = events s
    \<and> gauges (run_hooks es no_metrics) ''spool_depth'' = Some (word_of_int (depth s))"
proof -
  obtain s d where n: "New cfg1 5 (empty_fs []) = (Inr s, d)"
    by (auto simp: New_def os_plain_def syscall_def listPending_def os_read_dir_def next_fault_def empty_fs_def
        pop_fault_def dir_names_def)
  have r: "spool_reach cfg1 (\<lambda>e. False) (\<lambda>b (). (None, ())) id s ()" by (rule reach_new [OF n]) simp
  have "map snd (map (Pair 0) (events s)) = events s" by (simp add: comp_def)
  with depth_gauge_is_current [OF r this, of no_metrics] n show ?thesis by blast
qed

text \<open>
  The counters fed by the spool count its events and nothing else, modulo the width of the
  counter: deliveries, dead letters, failed attempts and directory fsync failures.
\<close>

theorem counters_count_events:
  "cell ''signals_forwarded'' (run_hooks es m) = cell ''signals_forwarded'' m + of_nat (occurrences is_delivered es)
   \<and> cell ''signals_dead_lettered'' (run_hooks es m) = cell ''signals_dead_lettered'' m + of_nat (occurrences (\<lambda>e. e = OnDead) es)
   \<and> cell ''delivery_attempt_failures'' (run_hooks es m)
       = cell ''delivery_attempt_failures'' m + of_nat (occurrences (\<lambda>e. e = OnFailed) es)
   \<and> cell ''spool_dir_fsync_failures'' (run_hooks es m)
       = cell ''spool_dir_fsync_failures'' m + of_nat (occurrences (\<lambda>e. e = OnDirFsyncFailure) es)"
proof -
  have "(''signals_forwarded'', is_delivered) \<in> set counted_by" "(''signals_dead_lettered'', \<lambda>e. e = OnDead) \<in> set counted_by"
    "(''delivery_attempt_failures'', \<lambda>e. e = OnFailed) \<in> set counted_by"
    "(''spool_dir_fsync_failures'', \<lambda>e. e = OnDirFsyncFailure) \<in> set counted_by" by (simp_all add: counted_by_def)
  from this [THEN hooks_count [of _ _ es m]] show ?thesis by simp
qed

text \<open>
  \<^verbatim>\<open>/metrics\<close> shows the moving average of the delivery latency from the first delivery
  with a positive queue time on, however short, and not before; in particular an average of zero
  milliseconds is shown.
\<close>

theorem latency_shown_once_sampled:
  assumes "occurrences is_timed es < 2 ^ 63"
  shows "MetricsHandler startTime uptime now (run_hooks es no_metrics) ''delivery_latency_ms_ewma''
    = (if 0 < occurrences is_timed es then Some (MFloat (ewmaValueMs (run_hooks es no_metrics))) else None)"
proof -
  let ?m = "run_hooks es no_metrics"
  let ?n = "occurrences is_timed es"
  have "(''delivery_latency_count'', is_timed) \<in> set counted_by" by (simp add: counted_by_def)
  from hooks_count [OF this, of es no_metrics] have "cell ''delivery_latency_count'' ?m = of_nat ?n"
    by (simp add: cell_def no_metrics_def)
  then have n: "counter_value ''delivery_latency_count'' ?m = int ?n"
    using assms by (simp add: counter_value_cell sint_uint unsigned_of_nat take_bit_nat_eq_self signed_take_bit_int_eq_self)
  have e: "ewmaInitialized ?m \<longleftrightarrow> 0 < ?n" by (simp add: hooks_ewma) (simp add: no_metrics_def)
  have "''delivery_latency_ms_ewma'' \<notin> names ?m" using hooks_names [of es] by (auto simp: hook_keys_def)
  then have "counters ?m ''delivery_latency_ms_ewma'' = None" "gauges ?m ''delivery_latency_ms_ewma'' = None"
    by (simp_all add: names_def domIff)
  with n e show ?thesis
    by (simp add: MetricsHandler_def Let_def deliveryLatencyEWMA_def stored_values_def map_add_def)
qed

theorem latency_shown_once_sampled_witness:
  "MetricsHandler 0 0 0 (run_hooks [(7, OnDelivered 999)] no_metrics) ''delivery_latency_ms_ewma'' = Some (MFloat (Fin 0))"
  using latency_shown_once_sampled [of "[(7, OnDelivered 999)]" 0 0 0]
  by (simp add: occurrences_def run_hooks_def RecordDelivery_def Let_def updateDeliveryLatencyEWMA_def RecordMetric_def
      no_metrics_def Microseconds_def)

end
