(* ===== verification/SpoolRuns.thy ===== *)
theory SpoolRuns
  imports SpoolThreads Metrics
begin

text \<open>
  Runs of the spool with all its goroutines, \<open>spool_run\<close>: every state that any interleaving of calls of
  \<^verbatim>\<open>Enqueue\<close> and of the delivery loop reaches from a start. The properties of the concurrent spool are
  stated over them; their witnesses are runs built step by step.
\<close>

section \<open>Runs\<close>

definition spool_run ::
  "spool_cfg \<Rightarrow> (goerr \<Rightarrow> bool) \<Rightarrow> (bytes \<Rightarrow> 'w \<Rightarrow> gores \<times> 'w) \<Rightarrow> ('w \<Rightarrow> 'w) \<Rightarrow> (bytes \<rightharpoonup> bytes)
    \<Rightarrow> 'w \<Rightarrow> (nat \<Rightarrow> proc) \<Rightarrow> ('w \<times> bytes list) world \<Rightarrow> bool" where
  "spool_run c perm forward onDead old w0 =
     par_reach (proc_step c perm (confirming forward) (apfst onDead) (dom old)) (spool_start c old w0)"

lemma run_step:
  "spool_run c perm forward onDead old w0 P \<sigma> \<Longrightarrow> proc_step c perm (confirming forward) (apfst onDead) (dom old) (P i) \<sigma> p' \<sigma>' \<Longrightarrow>
    spool_run c perm forward onDead old w0 (P(i := p')) \<sigma>'"
  unfolding spool_run_def by (rule par_reach.advance)

text \<open>Several steps of one call in a row, and of the loop.\<close>

lemma not_reserving: "(\<And>b. pc \<noteq> Reserving b) \<Longrightarrow> fst (enq_step c now (pc, s)) \<noteq> Reserving b"
  by (cases pc) (auto split: prod.splits)

lemma run_call_steps:
  assumes "spool_run c perm forward onDead old w0 P \<sigma>" "P i = Caller pc" "(enq_step c now ^^ k) (pc, sp \<sigma>) = (pc', s')"
    and "\<And>b. pc \<noteq> Reserving b"
  shows "spool_run c perm forward onDead old w0 (P(i := Caller pc')) (\<sigma>\<lparr>sp := s'\<rparr>)"
  using assms
proof (induction k arbitrary: pc P \<sigma>)
  case 0
  then have "P(i := Caller pc') = P" "\<sigma>\<lparr>sp := s'\<rparr> = \<sigma>" by auto
  with 0(1) show ?case by (simp only:)
next
  case (Suc k)
  obtain pc1 s1 where 1: "enq_step c now (pc, sp \<sigma>) = (pc1, s1)" by fastforce
  have "proc_step c perm (confirming forward) (apfst onDead) (dom old) (P i) \<sigma> (Caller pc1) (\<sigma>\<lparr>sp := s1\<rparr>)"
    unfolding Suc.prems(2) by (rule proc_step.enqueue [OF 1]) (use Suc.prems(4) in blast)
  from run_step [OF Suc.prems(1) this] have r: "spool_run c perm forward onDead old w0 (P(i := Caller pc1)) (\<sigma>\<lparr>sp := s1\<rparr>)" .
  have "spool_run c perm forward onDead old w0 ((P(i := Caller pc1))(i := Caller pc')) ((\<sigma>\<lparr>sp := s1\<rparr>)\<lparr>sp := s'\<rparr>)"
    by (rule Suc.IH [OF r]) (use Suc.prems(3) 1 not_reserving [OF Suc.prems(4), of c now "sp \<sigma>"] in \<open>simp_all add: run_Suc del: funpow.simps\<close>)
  then show ?case by (simp del: fun_upd_apply)
qed

lemma run_call_start:
  assumes "spool_run c perm forward onDead old w0 P \<sigma>" "P i = Caller Idle"
    and "reserve c now (sp \<sigma>) = (Inr n, s')" "clock_ok (dom old) now (sp \<sigma>)"
  shows "spool_run c perm forward onDead old w0 (P(i := Caller (At Opening n b))) (\<sigma>\<lparr>sp := s'\<rparr>)"
proof -
  have "proc_step c perm (confirming forward) (apfst onDead) (dom old) (P i) \<sigma> (Caller (Reserving b)) \<sigma>"
    unfolding assms(2) by (rule proc_step.call)
  from run_step [OF assms(1) this] have r: "spool_run c perm forward onDead old w0 (P(i := Caller (Reserving b))) \<sigma>" .
  have "enq_step c now (Reserving b, sp \<sigma>) = (At Opening n b, s')" using assms(3) by simp
  from proc_step.enqueue [where old = "dom old" and perm = perm and forward = "confirming forward" and onDead = "apfst onDead", OF this] assms(4)
  have "proc_step c perm (confirming forward) (apfst onDead) (dom old) ((P(i := Caller (Reserving b))) i) \<sigma>
      (Caller (At Opening n b)) (\<sigma>\<lparr>sp := s'\<rparr>)" by simp
  from run_step [OF r this] show ?thesis by (simp only: fun_upd_upd)
qed

lemma run_loop_steps:
  assumes "spool_run c perm forward onDead old w0 P \<sigma>" "P i = Deliverer pc bo"
    and "(fwd_step c perm (confirming forward) (apfst onDead) now ^^ k) (pc, sp \<sigma>, dest \<sigma>) = (pc', s', w')"
  shows "\<exists>u. spool_run c perm forward onDead old w0 (P(i := Deliverer pc' bo)) \<lparr>sp = s', dest = w', unremoved = u\<rparr>"
  using assms
proof (induction k arbitrary: pc P \<sigma>)
  case 0
  then have "P(i := Deliverer pc' bo) = P" "\<lparr>sp = s', dest = w', unremoved = unremoved \<sigma>\<rparr> = \<sigma>" by auto
  with 0 show ?case by (metis)
next
  case (Suc k)
  obtain pc1 s1 w1 where 1: "fwd_step c perm (confirming forward) (apfst onDead) now (pc, sp \<sigma>, dest \<sigma>) = (pc1, s1, w1)"
    by (metis prod_cases3)
  from proc_step.deliver [where old = "dom old", OF 1 refl] obtain u where
    "proc_step c perm (confirming forward) (apfst onDead) (dom old) (P i) \<sigma> (Deliverer pc1 bo) \<lparr>sp = s1, dest = w1, unremoved = u\<rparr>"
    unfolding Suc.prems(2) by blast
  from run_step [OF Suc.prems(1) this] have r: "spool_run c perm forward onDead old w0 (P(i := Deliverer pc1 bo))
      \<lparr>sp = s1, dest = w1, unremoved = u\<rparr>" .
  have "\<exists>u. spool_run c perm forward onDead old w0 ((P(i := Deliverer pc1 bo))(i := Deliverer pc' bo)) \<lparr>sp = s', dest = w', unremoved = u\<rparr>"
    by (rule Suc.IH [OF r]) (use Suc.prems(3) 1 in \<open>simp_all add: run_Suc del: funpow.simps\<close>)
  then show ?case by (simp only: fun_upd_upd)
qed

section \<open>An acknowledged signal\<close>

lemma answered_kept:
  assumes "spool_run c perm forward onDead old w0 P \<sigma>" "P i = Caller (At (Answered None) n b)"
    and "fsyncEnabled c" "crash (disk (sp \<sigma>)) d"
  shows "queue_of c d n = Some b \<or> dead_of c (disk (sp \<sigma>)) n = Some b \<or> b \<in> set (snd (dest \<sigma>))"
proof -
  have "own_ok c (dom old) (P i) \<sigma>" by (rule spool_threads.reach_own [OF assms(1) [unfolded spool_run_def]])
  with assms(2) have n: "is_pending_name n" and k: "kept True c (disk (sp \<sigma>)) (set (snd (dest \<sigma>))) n b"
    using issued_pending by (auto simp: at_ok_def)
  have "queue_of c d n = Some b" if s: "stored True c (disk (sp \<sigma>)) n b"
  proof -
    from s assms(3) obtain f where "durable_file (disk (sp \<sigma>)) (dir c, n) f" "fs_data (disk (sp \<sigma>)) f = b" "fs_stable (disk (sp \<sigma>)) f = b"
      by (auto simp: stored_def)
    from crash_lists [OF assms(4) this n] show ?thesis .
  qed
  with k show ?thesis by (auto simp: kept_def split: if_splits)
qed

text \<open>A signal pending at the start is, at any later moment, pending, a dead letter, or confirmed.\<close>

lemma pending_kept:
  assumes "spool_run c perm forward onDead old w0 P \<sigma>" "old n = Some b"
  shows "queue_of c (disk (sp \<sigma>)) n = Some b \<or> dead_of c (disk (sp \<sigma>)) n = Some b \<or> b \<in> set (snd (dest \<sigma>))"
  using old_kept_reach [OF assms(1) [unfolded spool_run_def]] assms(2) by (auto simp: old_kept_def split: if_splits)

section \<open>Properties\<close>

text \<open>The processes at the start, and a spool opened on an empty directory, for the witnesses.\<close>

definition procs0 :: "nat \<Rightarrow> proc" where
  "procs0 = (\<lambda>i. Caller Idle)(0 := Deliverer Top second)"

definition fresh_spool :: "fault list \<Rightarrow> Spool" where
  "fresh_spool fl = (case New cfg1 5 (empty_fs fl) of (Inr s, d) \<Rightarrow> s | (Inl e, d) \<Rightarrow> spool1)"

lemma queue_empty_fs: "queue_of c (empty_fs fl) = Map.empty"
  by (simp add: queue_of_def file_content_def empty_fs_def lookup_path_def fun_eq_iff)

lemma run_fresh:
  assumes "take 2 fl = [NoFault, NoFault]"
  shows "spool_run cfg1 perm forward onDead Map.empty w procs0 \<lparr>sp = fresh_spool fl, dest = (w, []), unremoved = 0\<rparr>"
proof -
  from assms obtain fl' where fl: "fl = NoFault # NoFault # fl'"
    by (cases fl; cases "tl fl") auto
  obtain s d where n: "New cfg1 5 (empty_fs fl) = (Inr s, d)"
    by (auto simp: fl New_def os_plain_def syscall_def listPending_def os_read_dir_def next_fault_def empty_fs_def
        pop_fault_def dir_names_def)
  then have "New cfg1 5 (empty_fs fl) = (Inr (fresh_spool fl), d) \<and> wf_fs (empty_fs fl) \<and> Map.empty = queue_of cfg1 (empty_fs fl)"
    by (simp add: fresh_spool_def queue_empty_fs)
  then have "spool_start cfg1 Map.empty w procs0 \<lparr>sp = fresh_spool fl, dest = (w, []), unremoved = 0\<rparr>"
    unfolding spool_start_def procs0_def by fastforce
  then show ?thesis unfolding spool_run_def by (rule par_reach.start)
qed

lemma clock_ok_empty: "0 \<le> now \<Longrightarrow> unat (seq s) < 100 \<Longrightarrow> clock_ok {} now s"
  by (simp add: clock_ok_def)

text \<open>Under every interleaving of any number of calls of \<^verbatim>\<open>Enqueue\<close> with each other and with the
  delivery loop, a signal whose call has returned nil is safe at every later moment: it is pending on stable
  storage, so that every crash leaves it pending and complete, or it is a dead letter, or the destination
  has confirmed it.\<close>

theorem concurrent_ack_is_safe:
  assumes "spool_run c perm forward onDead old w0 P \<sigma>" "P i = Caller (At (Answered None) n b)"
    and "fsyncEnabled c" "crash (disk (sp \<sigma>)) d"
  shows "queue_of c d n = Some b \<or> dead_of c (disk (sp \<sigma>)) n = Some b \<or> b \<in> set (snd (dest \<sigma>))"
  using answered_kept [OF assms] .

lemma one_call_run:
  "spool_run cfg1 perm forward onDead Map.empty w (procs0(1 := Caller (At (Answered None) (spool_name 6 1) ''x'')))
     \<lparr>sp = snd ((enq_step cfg1 6 ^^ 14) (Reserving ''x'', fresh_spool [NoFault, NoFault])), dest = (w, []), unremoved = 0\<rparr>"
proof -
  let ?s = "fresh_spool [NoFault, NoFault]"
  let ?t = "?s\<lparr>depth := 1, seq := 1\<rparr>"
  have "depth ?s = 0" "seq ?s = 0" by code_simp+
  then have r: "reserve cfg1 6 ?s = (Inr (spool_name 6 1), ?t)" by (simp add: reserve_def cfg1_def)
  have c: "clock_ok {} 6 ?s" by (rule clock_ok_empty) (simp, code_simp)
  note st = run_call_start [OF run_fresh [of "[NoFault, NoFault]" perm forward onDead w], of 1 6 "spool_name 6 1" ?t "''x''"]
  have s1: "spool_run cfg1 perm forward onDead Map.empty w (procs0(1 := Caller (At Opening (spool_name 6 1) ''x'')))
      \<lparr>sp = ?t, dest = (w, []), unremoved = 0\<rparr>"
    using st r c by (simp add: procs0_def)
  have f: "fst ((enq_step cfg1 6 ^^ 13) (At Opening (spool_name 6 1) ''x'', ?t)) = At (Answered None) (spool_name 6 1) ''x''"
    by code_simp
  have e: "(enq_step cfg1 6 ^^ 14) (Reserving ''x'', ?s) = (enq_step cfg1 6 ^^ 13) (At Opening (spool_name 6 1) ''x'', ?t)"
    using r by (subst run_pred) simp_all
  from run_call_steps [OF s1, of 1 "At Opening (spool_name 6 1) ''x''" 13 6 "At (Answered None) (spool_name 6 1) ''x''"
      "snd ((enq_step cfg1 6 ^^ 14) (Reserving ''x'', ?s))"] f
  show ?thesis by (simp add: e prod_eq_iff del: fun_upd_apply) simp
qed

lemma concurrent_ack_is_safe_witness:
  "\<exists>d. crash (disk (snd ((enq_step cfg1 6 ^^ 14) (Reserving ''x'', fresh_spool [NoFault, NoFault])))) d
    \<and> queue_of cfg1 d (spool_name 6 1) = Some ''x''"
proof -
  let ?s = "snd ((enq_step cfg1 6 ^^ 14) (Reserving ''x'', fresh_spool [NoFault, NoFault]))"
  note r = one_call_run [where perm = "\<lambda>e. False" and forward = "\<lambda>b (). (None, ())" and onDead = id and w = "()"]
  have "shared_ok cfg1 (dom (Map.empty :: bytes \<rightharpoonup> bytes)) \<lparr>sp = ?s, dest = ((), []), unremoved = 0\<rparr>"
    using spool_threads.reach_shared [OF r [unfolded spool_run_def]] .
  then have wf: "wf_fs (disk ?s)" by (simp add: shared_ok_def)
  have "lookup_path (disk ?s) p \<in> possible_entries (disk ?s) p" for p using current_possible [OF wf] .
  then have c: "crash (disk ?s) (disk ?s)" by (simp add: crash_def crash_content_def)
  have "dead_of cfg1 (disk ?s) (spool_name 6 1) = None" by code_simp
  with concurrent_ack_is_safe [OF r, of 1 "spool_name 6 1" "''x''" "disk ?s"] c show ?thesis
    by (auto simp: cfg1_def)
qed

text \<open>C5. The limit holds under concurrency: in every reachable state the depth counter is at most the larger
  of \<^verbatim>\<open>maxDepth\<close> and what the start found, it never exceeds the pending files and the calls under way
  together, and it falls short of them by no more than the deliveries whose file could not be removed. While
  there are none of these, no interleaving of reservations lets the queue outgrow the limit.\<close>

theorem limit_holds_under_concurrency:
  assumes "spool_run c perm forward onDead old w0 P \<sigma>"
  shows "0 \<le> depth (sp \<sigma>) \<and> depth (sp \<sigma>) \<le> max (maxDepth c) (int (card (dom old)))
    \<and> depth (sp \<sigma>) \<le> pending_count c (disk (sp \<sigma>)) + int (card (holders P))
    \<and> pending_count c (disk (sp \<sigma>)) + int (card (holders P)) \<le> depth (sp \<sigma>) + int (unremoved \<sigma>)"
  using counted_reach [OF assms [unfolded spool_run_def]] by (simp add: counted_def)

lemma limit_holds_under_concurrency_witness:
  "pending_count cfg1 (disk (snd ((enq_step cfg1 6 ^^ 14) (Reserving ''x'', fresh_spool [NoFault, NoFault])))) \<le> 100"
  using limit_holds_under_concurrency [OF one_call_run [where perm = "\<lambda>e. False" and forward = "\<lambda>b (). (None, ())" and onDead = id and w = "()"]]
  by (simp add: cfg1_def)

text \<open>C6. No wake-up is lost: while the delivery loop waits for work after an empty listing and a signal is
  pending, the wake channel holds its token, or the call that committed the signal has still to send it. The
  loop's two-second timer is not needed for a signal the channel announced.\<close>

theorem no_wakeup_is_lost:
  assumes "spool_run c perm forward onDead old w0 P \<sigma>" "P i = Deliverer (AwaitingWork d) bo"
    and "n \<in> dom (queue_of c (disk (sp \<sigma>)))"
  shows "wake (sp \<sigma>) \<or> (\<exists>j. will_nudge n (P j))"
proof -
  have "found_empty (P i)" by (simp add: assms(2))
  with awake_reach [OF assms(1) [unfolded spool_run_def]] assms(3) show ?thesis unfolding awake_def by blast
qed

text \<open>The loop waiting, then a call up to its rename.\<close>

definition waiting :: Spool where
  "waiting = fst (snd ((fwd_step cfg1 (\<lambda>e. False) (confirming (\<lambda>b (). (None, ()))) (apfst id) 5 ^^ 10)
     (Top, fresh_spool [NoFault, NoFault], ((), []))))"

lemma waiting_run:
  "\<exists>u. spool_run cfg1 (\<lambda>e. False) (\<lambda>b (). (None, ())) id Map.empty () (procs0(0 := Deliverer (AwaitingWork (2 * second)) second))
     \<lparr>sp = waiting, dest = ((), []), unremoved = u\<rparr>"
proof -
  let ?f = "fwd_step cfg1 (\<lambda>e. False) (confirming (\<lambda>b (). (None, ()))) (apfst id) 5"
  have "fst ((?f ^^ 10) (Top, fresh_spool [NoFault, NoFault], ((), []))) = Attempted (False, None)"
    "snd (snd ((?f ^^ 10) (Top, fresh_spool [NoFault, NoFault], ((), [])))) = ((), [])" by code_simp+
  then have "(?f ^^ 10) (Top, fresh_spool [NoFault, NoFault], ((), [])) = (Attempted (False, None), waiting, ((), []))"
    by (simp add: waiting_def prod_eq_iff)
  then obtain u where r: "spool_run cfg1 (\<lambda>e. False) (\<lambda>b (). (None, ())) id Map.empty () (procs0(0 := Deliverer (Attempted (False, None)) second))
      \<lparr>sp = waiting, dest = ((), []), unremoved = u\<rparr>"
    using run_loop_steps [OF run_fresh [of "[NoFault, NoFault]" "\<lambda>e. False" "\<lambda>b (). (None, ())" id "()"], of 0 Top second 10 5
      "Attempted (False, None)" waiting "((), [])"] by (auto simp: procs0_def)
  have p: "run_pause (False, None) second = (AwaitWork (2 * second), second)" by (simp add: run_pause_def)
  have "proc_step cfg1 (\<lambda>e. False) (confirming (\<lambda>b (). (None, ()))) (apfst id) (dom Map.empty)
      ((procs0(0 := Deliverer (Attempted (False, None)) second)) 0) \<lparr>sp = waiting, dest = ((), []), unremoved = u\<rparr>
      (Deliverer (AwaitingWork (2 * second)) second) \<lparr>sp = waiting, dest = ((), []), unremoved = u\<rparr>"
    using proc_step.pause [OF p] by simp
  from run_step [OF r this] show ?thesis unfolding fun_upd_upd by blast
qed

lemma no_wakeup_is_lost_witness:
  "\<exists>s :: Spool. wake s \<and> spool_name 6 1 \<in> dom (queue_of cfg1 (disk s)) \<and> depth s = 1"
proof -
  let ?t = "waiting\<lparr>depth := 1, seq := 1\<rparr>"
  let ?P = "procs0(0 := Deliverer (AwaitingWork (2 * second)) second)"
  let ?s = "snd ((enq_step cfg1 6 ^^ 13) (At Opening (spool_name 6 1) ''x'', ?t))"
  obtain u where r: "spool_run cfg1 (\<lambda>e. False) (\<lambda>b (). (None, ())) id Map.empty () ?P \<lparr>sp = waiting, dest = ((), []), unremoved = u\<rparr>"
    using waiting_run by blast
  have "depth waiting = 0" "seq waiting = 0" by code_simp+
  then have "reserve cfg1 6 waiting = (Inr (spool_name 6 1), ?t)" "clock_ok {} 6 waiting"
    by (simp_all add: reserve_def cfg1_def clock_ok_def)
  then have s1: "spool_run cfg1 (\<lambda>e. False) (\<lambda>b (). (None, ())) id Map.empty () (?P(1 := Caller (At Opening (spool_name 6 1) ''x'')))
      \<lparr>sp = ?t, dest = ((), []), unremoved = u\<rparr>"
    using run_call_start [OF r, of 1 6 "spool_name 6 1" ?t "''x''"] by (simp add: procs0_def del: fun_upd_apply) simp
  have f: "fst ((enq_step cfg1 6 ^^ 13) (At Opening (spool_name 6 1) ''x'', ?t)) = At (Answered None) (spool_name 6 1) ''x''"
    by code_simp
  have "spool_run cfg1 (\<lambda>e. False) (\<lambda>b (). (None, ())) id Map.empty () (?P(1 := Caller (At (Answered None) (spool_name 6 1) ''x'')))
      \<lparr>sp = ?s, dest = ((), []), unremoved = u\<rparr>"
    using run_call_steps [OF s1, of 1 "At Opening (spool_name 6 1) ''x''" 13 6 "At (Answered None) (spool_name 6 1) ''x''" ?s] f
    by (simp add: prod_eq_iff del: fun_upd_apply) simp
  note w = no_wakeup_is_lost [OF this, of 0 "2 * second" second "spool_name 6 1"]
  have q: "queue_of cfg1 (disk ?s) (spool_name 6 1) = Some ''x''" and d: "depth ?s = 1" by code_simp+
  from q have dom: "spool_name 6 1 \<in> dom (queue_of cfg1 (disk ?s))" by blast
  have "\<not> will_nudge m ((?P(1 := Caller (At (Answered None) k a))) j)" for m k a j
    by (simp add: procs0_def)
  moreover have "(?P(1 := Caller (At (Answered None) k a))) 0 = Deliverer (AwaitingWork (2 * second)) second" for k a
    by simp
  ultimately have "wake ?s" using w dom by (metis world.select_convs(1))
  with dom d show ?thesis by (intro exI [of _ ?s] conjI)
qed

text \<open>The operations of the spool are their steps run without interruption: a call of
  \<^verbatim>\<open>Enqueue\<close> returns after at most fourteen, \<^verbatim>\<open>forwardOldest\<close> after at most ten, with the
  result and in the state of the sequential definitions.\<close>

theorem operations_are_their_steps:
  "(case (enq_step c now ^^ 14) (Reserving b, s) of (pc, s') \<Rightarrow> (enq_result pc, s'))
     = (case Enqueue c now b s of (r, s') \<Rightarrow> (Some r, s'))
   \<and> (fwd_step c perm forward onDead now ^^ 10) (Top, s, w) =
     (case forwardOldest c perm forward onDead now s w of (res, s', w') \<Rightarrow> (Attempted res, s', w'))"
  by (rule conjI [OF Enqueue_in_steps forwardOldest_in_steps])

text \<open>Every call returns: fourteen steps of its own bring any call of \<^verbatim>\<open>Enqueue\<close> to an answer,
  whatever the other goroutines have made of the shared state before each of them. No call waits for another.\<close>

theorem every_call_returns:
  assumes "pc \<noteq> Idle" "14 \<le> length envs"
  shows "\<exists>r. enq_result (run_among c envs pc) = Some r"
proof -
  have "steps_left pc \<le> 14" by (cases pc rule: steps_left.cases) auto
  then have "steps_left (run_among c envs pc) = 0" using run_among_left [of c envs pc] assms(2) by simp
  then show ?thesis using steps_left_done run_among_started [OF assms(1)] by blast
qed

lemma every_call_returns_witness:
  "\<exists>r. enq_result (run_among cfg1 (replicate 14 (6, spool1)) (Reserving ''x'')) = Some r"
  by (rule every_call_returns) simp_all

text \<open>C9. A call that returns an error leaves either nothing or a signal the queue keeps: an
  abandoned call has no pending file, and after a failed directory fsync the signal is pending, or a dead
  letter, or confirmed, as an acknowledged one.\<close>

theorem concurrent_error_is_clean:
  assumes "spool_run c perm forward onDead old w0 P \<sigma>" "P i = Caller (At ph n b)" "enq_result (At ph n b) = Some (Some e)"
  shows "if ph = Abandoned e then n \<notin> dom (queue_of c (disk (sp \<sigma>)))
    else queue_of c (disk (sp \<sigma>)) n = Some b \<or> dead_of c (disk (sp \<sigma>)) n = Some b \<or> b \<in> set (snd (dest \<sigma>))"
proof -
  have "own_ok c (dom old) (P i) \<sigma>" by (rule spool_threads.reach_own [OF assms(1) [unfolded spool_run_def]])
  with assms(2) have n: "is_pending_name n" and k: "at_ok c (disk (sp \<sigma>)) (set (snd (dest \<sigma>))) n b ph"
    using issued_pending by auto
  show ?thesis using assms(3) k stored_queue [OF _ n, of _ c "disk (sp \<sigma>)" b]
    by (cases ph) (auto simp: at_ok_def kept_def split: if_splits)
qed

text \<open>
  Two calls that race with their reports: the first commits and reads the depth, two; the second finds the
  disk full, gives its place back and reports one; then the first makes its report.
\<close>

definition race0 :: Spool where
  "race0 = fresh_spool (replicate 7 NoFault @ [Fault ''ENOSPC''])"

definition race1 :: Spool where
  "race1 = snd ((enq_step cfg1 6 ^^ 5) (At Opening (spool_name 6 1) ''a'', race0\<lparr>depth := 1, seq := 1\<rparr>))"

definition race2 :: Spool where
  "race2 = snd ((enq_step cfg1 6 ^^ 5) (At Opening (spool_name 6 2) ''b'', race1\<lparr>depth := 2, seq := 2\<rparr>))"

definition race3 :: Spool where
  "race3 = snd ((enq_step cfg1 6 ^^ 8) (At (DepthHook None 2) (spool_name 6 1) ''a'', race2))"

definition disk_full :: goerr where
  "disk_full = Wrapf ''failed to create spool temp file'' (Leaf ''ENOSPC'')"

definition procs_race :: "nat \<Rightarrow> proc" where
  "procs_race = procs0(1 := Caller (At (Answered None) (spool_name 6 1) ''a''),
     2 := Caller (At (Abandoned disk_full) (spool_name 6 2) ''b''))"

lemma race_run:
  "spool_run cfg1 perm forward onDead Map.empty w procs_race \<lparr>sp = race3, dest = (w, []), unremoved = 0\<rparr>"
proof -
  let ?w = "\<lambda>s. \<lparr>sp = s, dest = (w, []), unremoved = 0\<rparr>"
  let ?run = "spool_run cfg1 perm forward onDead Map.empty w"
  let ?a = "\<lambda>ph. Caller (At ph (spool_name 6 1) ''a'')" and ?b = "\<lambda>ph. Caller (At ph (spool_name 6 2) ''b'')"
  have step: "?run (P(i := Caller (At ph' n x))) (?w s')"
    if "?run P (?w s)" "P i = Caller (At ph n x)" "fst ((enq_step cfg1 6 ^^ k) (At ph n x, s)) = At ph' n x"
      "snd ((enq_step cfg1 6 ^^ k) (At ph n x, s)) = s'" for P i ph n x k s s' ph'
    using run_call_steps [OF that(1,2), of k 6 "At ph' n x" s'] that(3,4) by (simp add: prod_eq_iff)
  have start: "?run (P(i := Caller (At Opening n x))) (?w (s\<lparr>depth := d, seq := q\<rparr>))"
    if "?run P (?w s)" "P i = Caller Idle" "d = depth s + 1" "q = seq s + 1" "n = spool_name 6 q" "depth s < 100" "unat (seq s) < 100"
    for P i n x s d q
    using run_call_start [OF that(1,2), of 6 n "s\<lparr>depth := d, seq := q\<rparr>" x] that(3-7)
    by (simp add: reserve_def cfg1_def clock_ok_def)
  have 0: "?run procs0 (?w race0)" unfolding race0_def by (rule run_fresh) (simp add: numeral_2_eq_2)
  have "depth race0 = 0" "seq race0 = 0" by code_simp+
  then have 1: "?run (procs0(1 := ?a Opening)) (?w (race0\<lparr>depth := 1, seq := 1\<rparr>))"
    by (intro start [OF 0]) (simp_all add: procs0_def)
  have "fst ((enq_step cfg1 6 ^^ 5) (At Opening (spool_name 6 1) ''a'', race0\<lparr>depth := 1, seq := 1\<rparr>))
      = At (ReadingDepth None) (spool_name 6 1) ''a''" by code_simp
  from step [OF 1 _ this race1_def [symmetric], of 1]
  have 2: "?run (procs0(1 := ?a (ReadingDepth None))) (?w race1)" by (simp del: fun_upd_apply) simp
  have "depth race1 = 1" "seq race1 = 1" by code_simp+
  then have 3: "?run (procs0(1 := ?a (ReadingDepth None), 2 := ?b Opening)) (?w (race1\<lparr>depth := 2, seq := 2\<rparr>))"
    by (intro start [OF 2]) (simp_all add: procs0_def)
  from step [OF 3, of 1 "ReadingDepth None" "spool_name 6 1" "''a''" 1 "DepthHook None 2" "race1\<lparr>depth := 2, seq := 2\<rparr>"]
  have 4: "?run (procs0(1 := ?a (DepthHook None 2), 2 := ?b Opening)) (?w (race1\<lparr>depth := 2, seq := 2\<rparr>))"
    by (simp add: fun_upd_twist del: fun_upd_apply) simp
  have "fst ((enq_step cfg1 6 ^^ 5) (At Opening (spool_name 6 2) ''b'', race1\<lparr>depth := 2, seq := 2\<rparr>))
      = At (Abandoned disk_full) (spool_name 6 2) ''b''" by code_simp
  from step [OF 4 _ this race2_def [symmetric], of 2]
  have 5: "?run (procs0(1 := ?a (DepthHook None 2), 2 := ?b (Abandoned disk_full))) (?w race2)" by (simp del: fun_upd_apply) simp
  have "fst ((enq_step cfg1 6 ^^ 8) (At (DepthHook None 2) (spool_name 6 1) ''a'', race2))
      = At (Answered None) (spool_name 6 1) ''a''" by code_simp
  from step [OF 5 _ this race3_def [symmetric], of 1] show ?thesis
    by (simp add: procs_race_def fun_upd_twist del: fun_upd_apply) simp
qed

lemma concurrent_error_is_clean_witness:
  "spool_name 6 2 \<notin> dom (queue_of cfg1 (disk race3))"
  using concurrent_error_is_clean [OF race_run [where perm = "\<lambda>e. False" and forward = "\<lambda>b (). (None, ())" and onDead = id and w = "()"],
      of 2 "Abandoned disk_full" "spool_name 6 2" "''b''" disk_full]
  by (simp add: procs_race_def)

text \<open>C40. The depth gauge can be left wrong: \<^verbatim>\<open>reportDepth\<close> reads the depth under the mutex and calls
  the hook after releasing it, so two reports can arrive in the wrong order. In a reachable state in which
  every call has returned, \<^verbatim>\<open>/metrics\<close> shows \<^verbatim>\<open>spool_depth\<close> two while the depth, and the
  number of pending files, is one; it stays so until the next report.\<close>

theorem gauge_can_go_stale:
  "\<exists>P \<sigma>. spool_run cfg1 perm forward onDead Map.empty w P \<sigma>
     \<and> (\<forall>i. P i = Deliverer Top second \<or> P i = Caller Idle \<or> (\<exists>pc r. P i = Caller pc \<and> enq_result pc = Some r))
     \<and> Depth (sp \<sigma>) = 1 \<and> pending_count cfg1 (disk (sp \<sigma>)) = 1
     \<and> gauges (run_hooks (map (Pair now) (events (sp \<sigma>))) no_metrics) ''spool_depth'' = Some 2"
proof (intro exI conjI)
  show "spool_run cfg1 perm forward onDead Map.empty w procs_race \<lparr>sp = race3, dest = (w, []), unremoved = 0\<rparr>"
    by (rule race_run)
  show "\<forall>i. procs_race i = Deliverer Top second \<or> procs_race i = Caller Idle
      \<or> (\<exists>pc r. procs_race i = Caller pc \<and> enq_result pc = Some r)"
    by (simp add: procs_race_def procs0_def)
  have e: "depth race3 = 1" "last_depth (events race3) = Some 2" by code_simp+
  then show "Depth (sp \<lparr>sp = race3, dest = (w, []), unremoved = 0\<rparr>) = 1" by simp
  have "map snd (map (Pair now) (events race3)) = events race3" by (simp add: comp_def)
  with e show "gauges (run_hooks (map (Pair now) (events (sp \<lparr>sp = race3, dest = (w, []), unremoved = 0\<rparr>))) no_metrics)
      ''spool_depth'' = Some 2" by (simp only: hooks_depth world.select_convs) simp
  have "length (remdups (filter is_pending_name (dir_names (dir cfg1) (disk race3)))) = 1" by code_simp
  then show "pending_count cfg1 (disk (sp \<lparr>sp = race3, dest = (w, []), unremoved = 0\<rparr>)) = 1"
    by (simp only: pending_count_def queue_dom_names world.select_convs length_remdups_card_conv)
qed

end
