(* ===== verification/SpoolQueue.thy ===== *)
theory SpoolQueue
  imports SpoolRuns
begin

text \<open>
  The concurrent spool against its specification: an abstract queue with five atomic actions. Each step
  of a goroutine is one of them or is not seen, so a call of \<^verbatim>\<open>Enqueue\<close> takes effect in its
  rename, a delivery in the answer of the destination and in the removal of the file, and nothing else
  changes what is pending, dead or confirmed.
\<close>

section \<open>The specification\<close>

record queue =
  pending :: "bytes \<rightharpoonup> bytes"
  dead :: "bytes \<rightharpoonup> bytes"
  delivered :: "bytes list"

datatype action = Unseen | Put bytes bytes | Confirm bytes bytes | Take bytes bytes | Bury bytes bytes

text \<open>Only a confirmed signal may be taken, and \<open>Put\<close> never replaces a pending one.\<close>

inductive queue_act :: "action \<Rightarrow> queue \<Rightarrow> queue \<Rightarrow> bool" where
  unseen: "queue_act Unseen q q"
| put: "pending q n = None \<Longrightarrow> queue_act (Put n b) q (q\<lparr>pending := (pending q)(n \<mapsto> b)\<rparr>)"
| confirm: "pending q n = Some b \<Longrightarrow> queue_act (Confirm n b) q (q\<lparr>delivered := delivered q @ [b]\<rparr>)"
| take: "pending q n = Some b \<Longrightarrow> b \<in> set (delivered q) \<Longrightarrow> queue_act (Take n b) q (q\<lparr>pending := (pending q)(n := None)\<rparr>)"
| bury: "pending q n = Some b \<Longrightarrow>
    queue_act (Bury n b) q (q\<lparr>pending := (pending q)(n := None), dead := (dead q)(n \<mapsto> b)\<rparr>)"

inductive_cases queue_actE: "queue_act a q q'"

definition queue_run :: "queue \<Rightarrow> queue \<Rightarrow> bool" where
  "queue_run = (\<lambda>q q'. \<exists>a. queue_act a q q')\<^sup>*\<^sup>*"

section \<open>The abstraction\<close>

definition queue_view :: "spool_cfg \<Rightarrow> ('w \<times> bytes list) world \<Rightarrow> queue" where
  "queue_view c \<sigma> = \<lparr>pending = queue_of c (disk (sp \<sigma>)), dead = dead_of c (disk (sp \<sigma>)), delivered = snd (dest \<sigma>)\<rparr>"

text \<open>The place in the program where a goroutine may do an action.\<close>

fun may_do :: "proc \<Rightarrow> action \<Rightarrow> bool" where
  "may_do p Unseen = True"
| "may_do p (Put n b) = (p = Caller (At Renaming n b))"
| "may_do p (Confirm n b) = (\<exists>bo. p = Deliverer (Forwarding n b) bo)"
| "may_do p (Take n b) = (\<exists>bo. p = Deliverer (RemovingFile n) bo)"
| "may_do p (Bury n b) = (\<exists>bo. p = Deliverer (Burying n) bo)"

section \<open>Refinement\<close>

lemma view_unseen:
  assumes "queue_of c (disk (sp \<sigma>')) = queue_of c (disk (sp \<sigma>))" "dead_of c (disk (sp \<sigma>')) = dead_of c (disk (sp \<sigma>))"
    and "snd (dest \<sigma>') = snd (dest \<sigma>)"
  shows "\<exists>a. may_do p a \<and> queue_act a (queue_view c \<sigma>) (queue_view c \<sigma>')"
  using assms queue_act.unseen [of "queue_view c \<sigma>"] by (intro exI [of _ Unseen]) (simp add: queue_view_def)

lemma call_refines:
  assumes "enq_step c now (pc, sp \<sigma>) = (pc', s')" "wf_fs (disk (sp \<sigma>))" "own_ok c old (Caller pc) \<sigma>"
  shows "\<exists>a. may_do (Caller pc) a \<and> queue_act a (queue_view c \<sigma>) (queue_view c (\<sigma>\<lparr>sp := s'\<rparr>))"
proof (cases "\<exists>ph n b. pc = At ph n b")
  case False
  then have "disk s' = disk (sp \<sigma>)"
    using assms(1) reserve_cases [of c now "sp \<sigma>"] by (cases pc) auto
  then show ?thesis by (intro view_unseen) simp_all
next
  case True
  then obtain ph n b where pc: "pc = At ph n b" by blast
  then obtain ph' where st: "enq_at_step c n b ph (sp \<sigma>) = (ph', s')" using assms(1) by (auto split: prod.splits)
  have own: "issued (seq (sp \<sigma>)) n" "at_ok c (disk (sp \<sigma>)) (set (snd (dest \<sigma>))) n b ph" using assms(3) pc by auto
  note n = issued_pending [OF own(1)]
  have tmp: "tmp_ok c (disk (sp \<sigma>)) n b ph" using own(2) by (simp add: at_ok_def)
  note t = enq_at_touches(1) [OF st tmp]
  have d: "dead_of c (disk s') = dead_of c (disk (sp \<sigma>))"
    by (rule dead_touches [OF t assms(2)]) (auto simp: enq_paths_def)
  show ?thesis
  proof (cases "ph = Renaming")
    case False
    then have "queue_of c (disk s') = queue_of c (disk (sp \<sigma>))"
      by (intro queue_touches [OF t assms(2)]) (auto simp: enq_paths_def)
    with d show ?thesis by (intro view_unseen) simp_all
  next
    case True
    then have free: "n \<notin> dom (queue_of c (disk (sp \<sigma>)))" using own(2) by (simp add: at_ok_def)
    have "queue_of c (disk s') = (queue_of c (disk (sp \<sigma>)))(n \<mapsto> b) \<or> queue_of c (disk s') = queue_of c (disk (sp \<sigma>))"
      using rename_step [OF st [unfolded True] tmp [unfolded True] n free] by blast
    then show ?thesis
    proof
      assume "queue_of c (disk s') = (queue_of c (disk (sp \<sigma>)))(n \<mapsto> b)"
      then have "queue_act (Put n b) (queue_view c \<sigma>) (queue_view c (\<sigma>\<lparr>sp := s'\<rparr>))"
        using queue_act.put [of "queue_view c \<sigma>" n b] free d by (simp add: queue_view_def domIff)
      then show ?thesis using pc True by (intro exI [of _ "Put n b"]) simp
    next
      assume "queue_of c (disk s') = queue_of c (disk (sp \<sigma>))"
      with d show ?thesis by (intro view_unseen) simp_all
    qed
  qed
qed

lemma loop_refines:
  assumes "fwd_step c perm (confirming forward) (apfst onDead) now (pc, sp \<sigma>, dest \<sigma>) = (pc', s', w')"
    and "wf_fs (disk (sp \<sigma>))" "fwd_ok (queue_of c (disk (sp \<sigma>))) (set (snd (dest \<sigma>))) pc"
  shows "\<exists>a. may_do (Deliverer pc bo) a \<and> queue_act a (queue_view c \<sigma>) (queue_view c \<lparr>sp = s', dest = w', unremoved = u\<rparr>)"
proof -
  let ?q = "queue_view c \<sigma>" and ?q' = "queue_view c \<lparr>sp = s', dest = w', unremoved = u\<rparr>"
  note t = fwd_step_touches(1) [OF assms(1)]
  have q: "queue_of c (disk s') = queue_of c (disk (sp \<sigma>))" if "fwd_paths c pc = {}"
    using that by (intro queue_touches [OF t assms(2)]) auto
  have d: "dead_of c (disk s') = dead_of c (disk (sp \<sigma>))" if "\<And>n. pc \<noteq> Burying n"
    using that by (intro dead_touches [OF t assms(2)]) (cases pc; auto)
  have quiet: ?thesis if "fwd_paths c pc = {}" "snd w' = snd (dest \<sigma>)"
  proof -
    have "\<And>n. pc \<noteq> Burying n" using that(1) by auto
    with q d that show ?thesis by (intro view_unseen) simp_all
  qed
  show ?thesis
  proof (cases pc)
    case (Forwarding n b)
    have n: "pending ?q n = Some b" using assms(3) Forwarding by (simp add: queue_view_def)
    have same: "queue_of c (disk s') = queue_of c (disk (sp \<sigma>))" "dead_of c (disk s') = dead_of c (disk (sp \<sigma>))"
      using q d Forwarding by simp_all
    have "snd w' = snd (dest \<sigma>) \<or> snd w' = snd (dest \<sigma>) @ [b]"
      using assms(1) Forwarding by (auto simp: confirming_def split: prod.splits option.splits)
    then show ?thesis
    proof
      assume "snd w' = snd (dest \<sigma>) @ [b]"
      then have "?q' = ?q\<lparr>delivered := delivered ?q @ [b]\<rparr>" using same by (simp add: queue_view_def)
      with queue_act.confirm [OF n] Forwarding show ?thesis by (intro exI [of _ "Confirm n b"]) simp
    qed (use quiet Forwarding in simp)
  next
    case (RemovingFile n)
    then obtain b where b: "pending ?q n = Some b" "b \<in> set (delivered ?q)" using assms(3) by (auto simp: queue_view_def)
    have dd: "dead_of c (disk s') = dead_of c (disk (sp \<sigma>))" using d RemovingFile by simp
    from fwd_remove_step [OF assms(1) [unfolded RemovingFile] assms(2)]
    have "w' = dest \<sigma>" "queue_of c (disk s') = queue_of c (disk (sp \<sigma>)) \<or> queue_of c (disk s') = (queue_of c (disk (sp \<sigma>)))(n := None)"
      by simp_all
    then have "?q' = ?q \<or> ?q' = ?q\<lparr>pending := (pending ?q)(n := None)\<rparr>" using dd by (auto simp: queue_view_def)
    then show ?thesis
    proof
      assume "?q' = ?q"
      then show ?thesis by (intro exI [of _ Unseen]) (simp add: queue_act.unseen)
    next
      assume "?q' = ?q\<lparr>pending := (pending ?q)(n := None)\<rparr>"
      with queue_act.take [OF b] RemovingFile show ?thesis by (intro exI [of _ "Take n b"]) simp
    qed
  next
    case (Burying n)
    then obtain b where b: "queue_of c (disk (sp \<sigma>)) n = Some b" using assms(3) by auto
    then have "pending ?q n = Some b" by (simp add: queue_view_def)
    note act = queue_act.bury [OF this]
    from fwd_bury_step [OF assms(1) [unfolded Burying] b]
    have "?q' = ?q \<or> ?q' = ?q\<lparr>pending := (pending ?q)(n := None), dead := (dead ?q)(n \<mapsto> b)\<rparr>"
      by (auto simp: queue_view_def)
    then show ?thesis
    proof
      assume "?q' = ?q"
      then show ?thesis by (intro exI [of _ Unseen]) (simp add: queue_act.unseen)
    next
      assume "?q' = ?q\<lparr>pending := (pending ?q)(n := None), dead := (dead ?q)(n \<mapsto> b)\<rparr>"
      with act Burying show ?thesis by (intro exI [of _ "Bury n b"]) simp
    qed
  next
    case (FinalHook r)
    then show ?thesis using assms(1) by (intro quiet) (auto split: option.splits)
  qed (use assms(1) in \<open>intro quiet; auto split: prod.splits sum.splits\<close>)+
qed

lemma proc_refines:
  assumes "shared_ok c old \<sigma>" "own_ok c old p \<sigma>"
    and "proc_step c perm (confirming forward) (apfst onDead) old p \<sigma> p' \<sigma>'"
  shows "\<exists>a. may_do p a \<and> queue_act a (queue_view c \<sigma>) (queue_view c \<sigma>')"
proof -
  have wf: "wf_fs (disk (sp \<sigma>))" using assms(1) by (simp add: shared_ok_def)
  from assms(3) show ?thesis
  proof cases
    case (enqueue now pc pc' s')
    with call_refines [OF enqueue(4) wf] assms(2) show ?thesis by simp
  next
    case (deliver now pc pc' s' w' u bo)
    with loop_refines [OF deliver(4) wf] assms(2) show ?thesis by simp
  qed (auto intro!: view_unseen)
qed

lemma run_refines:
  assumes "spool_run c perm forward onDead old w0 P \<sigma>"
  shows "\<exists>d. queue_run \<lparr>pending = old, dead = d, delivered = []\<rparr> (queue_view c \<sigma>)"
  using assms [unfolded spool_run_def]
proof (rule spool_threads.reach_invariant)
  fix P and \<sigma> :: "('a \<times> bytes list) world"
  assume "spool_start c old w0 P \<sigma>"
  then obtain now d d' where n: "New c now d = (Inr (sp \<sigma>), d')" "wf_fs d" and o: "old = queue_of c d" "dest \<sigma> = (w0, [])"
    by (auto simp: spool_start_def)
  from New_facts [OF n] o have "queue_view c \<sigma> = \<lparr>pending = old, dead = dead_of c (disk (sp \<sigma>)), delivered = []\<rparr>"
    by (simp add: queue_view_def)
  then show "\<exists>d. queue_run \<lparr>pending = old, dead = d, delivered = []\<rparr> (queue_view c \<sigma>)" by (auto simp: queue_run_def)
next
  fix P i p' and \<sigma> \<sigma>' :: "('a \<times> bytes list) world"
  assume "shared_ok c (dom old) \<sigma>" "\<And>j. own_ok c (dom old) (P j) \<sigma>"
    and r: "\<exists>d. queue_run \<lparr>pending = old, dead = d, delivered = []\<rparr> (queue_view c \<sigma>)"
    and st: "proc_step c perm (confirming forward) (apfst onDead) (dom old) (P i) \<sigma> p' \<sigma>'"
  with proc_refines [OF _ _ st] have "\<exists>a. queue_act a (queue_view c \<sigma>) (queue_view c \<sigma>')" by blast
  with r show "\<exists>d. queue_run \<lparr>pending = old, dead = d, delivered = []\<rparr> (queue_view c \<sigma>')"
    unfolding queue_run_def by (blast intro: rtranclp.rtrancl_into_rtrancl)
qed

section \<open>Properties\<close>

text \<open>
  C4. The concurrent spool is an atomic queue: whatever the interleaving, the state of the disk and of the
  destination is one the abstract queue reaches from what was pending at the start, and the next step of any
  goroutine is one of the five actions, done only where the program may do it: a signal enters the queue in the
  rename of its own call, is confirmed in the answer to its own delivery, and leaves by being removed after
  that or by being moved to the dead letters.
\<close>

theorem concurrent_spool_refines_queue:
  assumes "spool_run c perm forward onDead old w0 P \<sigma>"
  shows "(\<exists>d. queue_run \<lparr>pending = old, dead = d, delivered = []\<rparr> (queue_view c \<sigma>))
    \<and> (\<forall>i p' \<sigma>'. proc_step c perm (confirming forward) (apfst onDead) (dom old) (P i) \<sigma> p' \<sigma>'
        \<longrightarrow> (\<exists>a. may_do (P i) a \<and> queue_act a (queue_view c \<sigma>) (queue_view c \<sigma>')))"
proof -
  have own: "own_ok c (dom old) (P i) \<sigma>" for i by (rule spool_threads.reach_own [OF assms [unfolded spool_run_def]])
  have "shared_ok c (dom old) \<sigma>" by (rule spool_threads.reach_shared [OF assms [unfolded spool_run_def]])
  with run_refines [OF assms] proc_refines [OF _ own] show ?thesis by blast
qed

lemma concurrent_spool_refines_queue_witness:
  "\<exists>d. queue_run \<lparr>pending = Map.empty, dead = d, delivered = []\<rparr>
     (queue_view cfg1 \<lparr>sp = snd ((enq_step cfg1 6 ^^ 14) (Reserving ''x'', fresh_spool [NoFault, NoFault])), dest = ((), []), unremoved = 0\<rparr>)"
  using concurrent_spool_refines_queue [OF one_call_run [where perm = "\<lambda>e. False" and forward = "\<lambda>b (). (None, ())" and onDead = id and w = "()"]]
  by blast

end
