(* ===== verification/DayLog.thy ===== *)
theory DayLog
  imports FileSys GoTime
begin

text \<open>
  What internal/auditlog/auditlog.go and cmd/gateway/sink.go share: newline-delimited lines appended
  to one file per UTC day, with an fsync per line and a directory fsync when a day file is created.
  The state is the open handle with its day and the disk; the immutable part of the Go structs (the
  directory) and the texts in which the two components differ are in \<open>log_cfg\<close>. The mutex of
  the code is held through the whole append, so one call is one step.
\<close>

record log_cfg =
  log_dir :: bytes
  log_prefix :: bytes
  open_failed :: string
  dirsync_failed :: string
  write_failed :: string

record day_log =
  log_disk :: fs
  log_day :: bytes
  log_f :: "inode option"

definition day_path :: "log_cfg \<Rightarrow> bytes \<Rightarrow> path" where
  "day_path c day = (log_dir c, log_prefix c @ day @ ''.ndjson'')"

text \<open>The error of closing the file of the previous day is ignored.\<close>

definition close_previous :: "day_log \<Rightarrow> day_log" where
  "close_previous s = (if log_f s = None then s else s\<lparr>log_disk := snd (os_plain (log_disk s))\<rparr>)"

definition open_day :: "log_cfg \<Rightarrow> bytes \<Rightarrow> day_log \<Rightarrow> (goerr + unit) \<times> day_log" where
  "open_day c day s0 =
     (let s = close_previous s0
      in case OpenAppendFile (day_path c day) (log_disk s) of
           (Inl e, d) \<Rightarrow> (Inl (Wrapf (open_failed c) e), s\<lparr>log_disk := d, log_f := None\<rparr>)
         | (Inr (f, creating), d) \<Rightarrow>
             (let s1 = s\<lparr>log_disk := d, log_day := day, log_f := Some f\<rparr>
              in if \<not> creating then (Inr (), s1)
                 else case Sync (log_dir c) d of
                        (Inl e, d1) \<Rightarrow> (Inl (Wrapf (dirsync_failed c) e), s1\<lparr>log_disk := d1\<rparr>)
                      | (Inr _, d1) \<Rightarrow> (Inr (), s1\<lparr>log_disk := d1\<rparr>)))"

definition ensure_day :: "log_cfg \<Rightarrow> bytes \<Rightarrow> day_log \<Rightarrow> (goerr + unit) \<times> day_log" where
  "ensure_day c day s = (if log_f s = None \<or> log_day s \<noteq> day then open_day c day s else (Inr (), s))"

definition write_line :: "log_cfg \<Rightarrow> bytes \<Rightarrow> inode \<Rightarrow> day_log \<Rightarrow> gores \<times> day_log" where
  "write_line c line f s =
     (case os_write f line (log_disk s) of
        (Inl e, d) \<Rightarrow> (Some (Wrapf (write_failed c) e), s\<lparr>log_disk := d\<rparr>)
      | (Inr _, d) \<Rightarrow>
          (case os_fsync f d of
             (Inl e, d1) \<Rightarrow> (Some e, s\<lparr>log_disk := d1\<rparr>)
           | (Inr _, d1) \<Rightarrow> (None, s\<lparr>log_disk := d1\<rparr>)))"

definition append_line :: "log_cfg \<Rightarrow> bytes \<Rightarrow> bytes \<Rightarrow> day_log \<Rightarrow> gores \<times> day_log" where
  "append_line c day line s =
     (case ensure_day c day s of
        (Inl e, s1) \<Rightarrow> (Some e, s1)
      | (Inr _, s1) \<Rightarrow> (case log_f s1 of None \<Rightarrow> (Some (Wrapf (write_failed c) (Leaf ''invalid argument'')), s1) | Some f \<Rightarrow> write_line c line f s1))"

definition close_log :: "day_log \<Rightarrow> gores \<times> day_log" where
  "close_log s =
     (if log_f s = None then (None, s)
      else case os_plain (log_disk s) of
        (Inl e, d) \<Rightarrow> (Some e, s\<lparr>log_disk := d, log_f := None\<rparr>)
      | (Inr _, d) \<Rightarrow> (None, s\<lparr>log_disk := d, log_f := None\<rparr>))"

section \<open>What OpenAppendFile did\<close>

lemma OpenAppendFile_err:
  assumes "OpenAppendFile p s = (Inl e, s')"
  shows "touches {} s s'"
proof -
  obtain r1 s1 where 1: "os_open_excl p s = (r1, s1)" by fastforce
  obtain e1 where r1: "r1 = Inl e1" using assms by (cases r1) (auto simp: OpenAppendFile_def 1)
  have "s1 = pop_fault s"
    using 1 r1 by (auto simp: os_open_excl_def syscall_def split: fault.splits if_splits prod.splits)
  then have t: "touches {} s s1" by simp
  have "s' = s1 \<or> s' = snd (os_open_append p s1)"
    using assms by (auto simp: OpenAppendFile_def 1 r1 split: if_splits sum.splits prod.splits)
  with t touches_trans [OF t touches_calls(2)] show ?thesis by metis
qed

lemma OpenAppendFile_ok:
  assumes "OpenAppendFile p s = (Inr (i, creating), s')"
  shows "creating \<Longrightarrow> lookup_path s p = None \<and> create_file p (pop_fault s) = (i, s')"
    "\<not> creating \<Longrightarrow> lookup_path s p = Some i \<and> s' = pop_fault (pop_fault s)"
proof -
  obtain r1 s1 where 1: "os_open_excl p s = (r1, s1)" by fastforce
  show "lookup_path s p = None \<and> create_file p (pop_fault s) = (i, s')" if creating
    using assms that 1
    by (auto simp: OpenAppendFile_def os_open_excl_def syscall_def split: sum.splits if_splits prod.splits fault.splits)
  show "lookup_path s p = Some i \<and> s' = pop_fault (pop_fault s)" if "\<not> creating"
    using assms that 1
    by (auto simp: OpenAppendFile_def os_open_excl_def os_open_append_def syscall_def
        split: sum.splits if_splits prod.splits fault.splits option.splits)
qed

section \<open>One append\<close>

text \<open>
  \<open>log_ok\<close>: the open handle is the file of its day. \<open>day_content\<close> is what the file of a day
  holds (nothing when there is none), \<open>day_durable\<close> that a crash cannot take its name away, and
  \<open>written\<close> that the text \<open>b\<close> is the beginning of the file and fsynced.
\<close>

definition log_ok :: "log_cfg \<Rightarrow> day_log \<Rightarrow> bool" where
  "log_ok c s \<longleftrightarrow> wf_fs (log_disk s)
     \<and> (\<forall>f. log_f s = Some f \<longrightarrow> lookup_path (log_disk s) (day_path c (log_day s)) = Some f)"

definition day_content :: "log_cfg \<Rightarrow> fs \<Rightarrow> bytes \<Rightarrow> bytes" where
  "day_content c d day = (case file_content d (day_path c day) of None \<Rightarrow> [] | Some b \<Rightarrow> b)"

definition day_durable :: "log_cfg \<Rightarrow> fs \<Rightarrow> bytes \<Rightarrow> bool" where
  "day_durable c d day \<longleftrightarrow> (\<forall>i. lookup_path d (day_path c day) = Some i \<longrightarrow> durable_file d (day_path c day) i)"

definition written :: "log_cfg \<Rightarrow> fs \<Rightarrow> bytes \<Rightarrow> bytes \<Rightarrow> bool" where
  "written c d day b \<longleftrightarrow>
     (\<exists>i. lookup_path d (day_path c day) = Some i \<and> prefix b (fs_stable d i) \<and> prefix (fs_stable d i) (fs_data d i))"

lemma day_path_inj [simp]: "day_path c a = day_path c b \<longleftrightarrow> a = b"
  by (simp add: day_path_def)

lemma day_content_unaffected: "unaffected (day_path c day) d d' \<Longrightarrow> day_content c d' day = day_content c d day"
  by (simp add: day_content_def unaffected_content)

lemma day_durable_unaffected: "unaffected (day_path c day) d d' \<Longrightarrow> day_durable c d day \<Longrightarrow> day_durable c d' day"
  by (simp add: day_durable_def unaffected_def)

lemma written_unaffected: "unaffected (day_path c day) d d' \<Longrightarrow> written c d day b \<Longrightarrow> written c d' day b"
  unfolding written_def unaffected_def by (metis prefix_order.refl prefix_order.trans)

lemma log_okI_unaffected:
  assumes "touches {} (log_disk s) (log_disk s')" "log_ok c s" "log_f s' = log_f s" "log_day s' = log_day s"
  shows "log_ok c s'"
  using assms(2) touches_wf [OF assms(1)] touches_unaffected [OF assms(1)]
  by (simp add: log_ok_def assms(3,4) unaffected_def)

lemma close_previous_facts:
  "touches {} (log_disk s) (log_disk (close_previous s))" "log_f (close_previous s) = log_f s"
  "log_day (close_previous s) = log_day s"
  using touches_calls(5) [of "log_disk s"] by (simp_all add: close_previous_def)

text \<open>
  After \<open>ensure_day\<close> the contents are as before; when it reports no error the handle is the file of
  the day. A durable directory stays durable unless the directory fsync for a new file has failed.
\<close>

definition dirsync_error :: "log_cfg \<Rightarrow> bytes \<Rightarrow> day_log \<Rightarrow> gores \<Rightarrow> bool" where
  "dirsync_error c day s r \<longleftrightarrow>
     lookup_path (log_disk s) (day_path c day) = None \<and> (\<exists>e. r = Some (Wrapf (dirsync_failed c) e))"

definition same_days :: "log_cfg \<Rightarrow> bytes \<Rightarrow> fs \<Rightarrow> fs \<Rightarrow> bool" where
  "same_days c day d d' \<longleftrightarrow> touches {day_path c day} d d' \<and> day_content c d' day = day_content c d day
     \<and> (\<forall>b. written c d day b \<longrightarrow> written c d' day b)"

lemma same_days_touches: "touches {} d d' \<Longrightarrow> wf_fs d \<Longrightarrow> same_days c day d d'"
  using touches_unaffected [of "{}" d d' "day_path c day"] touches_mono [of "{}" d d' "{day_path c day}"]
  by (simp add: same_days_def day_content_unaffected written_unaffected)

lemma same_days_trans: "same_days c day d e \<Longrightarrow> same_days c day e f \<Longrightarrow> same_days c day d f"
  unfolding same_days_def using touches_trans by metis

lemma same_days_create:
  assumes "create_file (day_path c day) d = (i, d')" "wf_fs d" "lookup_path d (day_path c day) = None"
  shows "same_days c day d d'" "lookup_path d' (day_path c day) = Some i"
proof -
  note c = wf_create_file [OF assms(2,1)]
  show "lookup_path d' (day_path c day) = Some i" by (simp add: c(3))
  have "day_content c d' day = day_content c d day"
    using assms(3) by (simp add: day_content_def file_content_def c(3,4))
  then show "same_days c day d d'"
    using touches_create_file [OF assms(1)] assms(3) by (simp add: same_days_def written_def)
qed

definition opened :: "log_cfg \<Rightarrow> bytes \<Rightarrow> day_log \<Rightarrow> day_log \<Rightarrow> bool" where
  "opened c day s s' \<longleftrightarrow> log_day s' = day \<and> (\<exists>f. log_f s' = Some f \<and> lookup_path (log_disk s') (day_path c day) = Some f)
     \<and> (day_durable c (log_disk s) day \<longrightarrow> day_durable c (log_disk s') day)"

lemma opened_log_ok: "opened c day s s' \<Longrightarrow> wf_fs (log_disk s') \<Longrightarrow> log_ok c s'"
  by (auto simp: opened_def log_ok_def)

definition open_outcome :: "log_cfg \<Rightarrow> bytes \<Rightarrow> day_log \<Rightarrow> goerr + unit \<Rightarrow> day_log \<Rightarrow> bool" where
  "open_outcome c day s r s' \<longleftrightarrow> log_ok c s' \<and> same_days c day (log_disk s) (log_disk s')
     \<and> (r = Inr () \<longrightarrow> opened c day s s')
     \<and> (day_durable c (log_disk s) day \<longrightarrow>
          day_durable c (log_disk s') day \<or> (\<exists>e. r = Inl e \<and> dirsync_error c day s (Some e)))"

lemma open_outcome_before:
  assumes "open_outcome c day s r s'" "touches {} (log_disk s0) (log_disk s)" "wf_fs (log_disk s0)"
  shows "open_outcome c day s0 r s'"
proof -
  have u: "unaffected q (log_disk s0) (log_disk s)" for q using touches_unaffected [OF assms(2,3)] by simp
  have "lookup_path (log_disk s) (day_path c day) = lookup_path (log_disk s0) (day_path c day)"
    using u [of "day_path c day"] by (simp add: unaffected_def)
  moreover note same_days_trans [OF same_days_touches [OF assms(2,3)], of c day "log_disk s'"]
    and day_durable_unaffected [OF u, of c day]
  ultimately show ?thesis
    using assms(1) by (simp add: open_outcome_def opened_def dirsync_error_def)
qed

lemma open_outcome_failed:
  assumes "touches {} (log_disk s) d" "wf_fs (log_disk s)"
  shows "open_outcome c day s (Inl e) (s\<lparr>log_disk := d, log_f := None\<rparr>)"
  using touches_wf [OF assms] same_days_touches [OF assms] day_durable_unaffected [OF touches_unaffected [OF assms]]
  by (simp add: open_outcome_def log_ok_def)

lemma open_outcome_existing:
  assumes "touches {} (log_disk s) d" "wf_fs (log_disk s)" "lookup_path (log_disk s) (day_path c day) = Some i"
  shows "open_outcome c day s (Inr ()) (s\<lparr>log_disk := d, log_day := day, log_f := Some i\<rparr>)"
proof -
  have u: "unaffected q (log_disk s) d" for q using touches_unaffected [OF assms(1,2)] by simp
  then have "lookup_path d (day_path c day) = Some i" using assms(3) by (simp add: unaffected_def)
  then show ?thesis
    using touches_wf [OF assms(1,2)] same_days_touches [OF assms(1,2)] day_durable_unaffected [OF u]
    by (simp add: open_outcome_def opened_def log_ok_def)
qed

lemma open_outcome_created:
  assumes "create_file (day_path c day) (pop_fault (log_disk s)) = (i, d)" "wf_fs (log_disk s)"
    and "lookup_path (log_disk s) (day_path c day) = None" and y: "Sync (log_dir c) d = (rs, d1)"
  shows "open_outcome c day s (case rs of Inl e \<Rightarrow> Inl (Wrapf (dirsync_failed c) e) | Inr _ \<Rightarrow> Inr ())
    (s\<lparr>log_disk := d1, log_day := day, log_f := Some i\<rparr>)"
proof -
  let ?p = "day_path c day"
  have wfp: "wf_fs (pop_fault (log_disk s))" using assms(2) by simp
  note sc = same_days_create [OF assms(1) wfp]
  have wfd: "wf_fs d" using wf_create_file [OF wfp assms(1)] by simp
  have t1: "touches {} d d1" using touches_Sync [of d "log_dir c"] y by simp
  have lp: "lookup_path d ?p = Some i" using sc assms(3) by simp
  then have l1: "lookup_path d1 ?p = Some i"
    using touches_unaffected [OF t1 wfd, of ?p] by (simp add: unaffected_def)
  have "same_days c day (log_disk s) d1"
    using same_days_trans [OF same_days_trans [OF same_days_touches [OF touches_pop_fault assms(2)] sc(1)]
        same_days_touches [OF t1 wfd]] assms(3) by simp
  moreover have "day_durable c d1 day" if "rs = Inr v" for v
    using Sync_ok_durable [OF y [unfolded that] wfd lp [unfolded day_path_def]] l1 by (simp add: day_durable_def day_path_def)
  ultimately show ?thesis
    using touches_wf [OF t1 wfd] l1 assms(3)
    by (cases rs) (simp_all add: open_outcome_def opened_def log_ok_def dirsync_error_def)
qed

lemma open_day_outcome:
  assumes "open_day c day s0 = (r, s')" "wf_fs (log_disk s0)"
  shows "open_outcome c day s0 r s'"
proof -
  define s where "s = close_previous s0"
  have t0: "touches {} (log_disk s0) (log_disk s)" using close_previous_facts by (simp add: s_def)
  note wf = touches_wf [OF t0 assms(2)]
  obtain ro d where o: "OpenAppendFile (day_path c day) (log_disk s) = (ro, d)" by fastforce
  have "open_outcome c day s r s'"
  proof (cases ro)
    case (Inl e)
    then have "r = Inl (Wrapf (open_failed c) e)" "s' = s\<lparr>log_disk := d, log_f := None\<rparr>"
      using assms(1) by (simp_all add: open_day_def s_def [symmetric] o)
    with open_outcome_failed [OF OpenAppendFile_err [OF o [unfolded Inl]] wf] show ?thesis by simp
  next
    case (Inr p)
    obtain i creating where p: "p = (i, creating)" by fastforce
    note ok = OpenAppendFile_ok [OF o [unfolded Inr p]]
    obtain rs d1 where y: "Sync (log_dir c) d = (rs, d1)" by fastforce
    show ?thesis
    proof (cases creating)
      case True
      then have "open_day c day s0 = (case rs of Inl e \<Rightarrow> Inl (Wrapf (dirsync_failed c) e) | Inr _ \<Rightarrow> Inr (),
          s\<lparr>log_disk := d1, log_day := day, log_f := Some i\<rparr>)"
        by (cases rs) (simp_all add: open_day_def s_def [symmetric] o Inr p y Let_def)
      with assms(1) have "r = (case rs of Inl e \<Rightarrow> Inl (Wrapf (dirsync_failed c) e) | Inr _ \<Rightarrow> Inr ())"
        "s' = s\<lparr>log_disk := d1, log_day := day, log_f := Some i\<rparr>" by (simp_all split: sum.splits)
      with open_outcome_created [OF _ wf _ y] ok(1) [OF True] show ?thesis by simp
    next
      case False
      have "touches {} (log_disk s) d"
        using touches_trans [OF touches_pop_fault touches_pop_fault] ok(2) [OF False] by simp
      with open_outcome_existing [OF _ wf, of d c day i] ok(2) [OF False] False assms(1) show ?thesis
        by (simp add: open_day_def s_def [symmetric] o Inr p)
    qed
  qed
  then show ?thesis using open_outcome_before [OF _ t0 assms(2)] by simp
qed

lemma ensure_day_outcome:
  assumes "ensure_day c day s = (r, s')" "log_ok c s"
  shows "open_outcome c day s r s'"
proof (cases "log_f s = None \<or> log_day s \<noteq> day")
  case True
  with assms open_day_outcome show ?thesis by (simp add: ensure_day_def log_ok_def)
next
  case False
  with assms have "r = Inr ()" "s' = s" by (auto simp: ensure_day_def)
  with False assms(2) same_days_touches [OF touches_refl, of "log_disk s"] show ?thesis
    by (auto simp: open_outcome_def opened_def log_ok_def)
qed

lemma os_write_result:
  assumes "os_write i b s = (r, s')"
  shows "\<exists>part. prefix part b \<and> s' = append_data i part (pop_fault s) \<and> (r = Inr u \<longrightarrow> part = b)"
proof -
  have nop: "append_data i [] t = t" for t by (simp add: append_data_def)
  show ?thesis
  proof (cases "next_fault s")
    case NoFault
    then show ?thesis using assms by (intro exI [of _ b]) (simp add: os_write_def)
  next
    case (Fault m)
    then show ?thesis using assms by (intro exI [of _ "[]"]) (auto simp: os_write_def nop)
  next
    case (ShortWrite n m)
    then show ?thesis using assms by (intro exI [of _ "take n b"]) (auto simp: os_write_def take_is_prefix)
  qed
qed

lemma written_append:
  assumes "lookup_path d (day_path c day) = Some i" "written c d day b"
  shows "written c (append_data i part d) day b"
  using assms by (auto simp: written_def append_data_def intro: prefix_order.trans)

lemma written_fsync:
  assumes "lookup_path d (day_path c day) = Some i" "written c d day b"
  shows "written c (d\<lparr>fs_stable := (fs_stable d)(i := fs_data d i)\<rparr>) day b"
  using assms by (auto simp: written_def intro: prefix_order.trans)

lemma possible_data_update [simp]:
  "possible_entries (d\<lparr>fs_data := x\<rparr>) = possible_entries d" "possible_entries (d\<lparr>fs_stable := y\<rparr>) = possible_entries d"
  by (simp_all add: possible_entries_def fun_eq_iff)

text \<open>
  Outcome of a write to the open file of the day: the file has grown by the line, or by a part of it
  when an error is reported.
\<close>

definition grown :: "log_cfg \<Rightarrow> bytes \<Rightarrow> bytes \<Rightarrow> fs \<Rightarrow> fs \<Rightarrow> bool" where
  "grown c day part d d' \<longleftrightarrow> touches {day_path c day} d d' \<and> day_content c d' day = day_content c d day @ part
     \<and> (\<forall>b. written c d day b \<longrightarrow> written c d' day b) \<and> (day_durable c d day \<longrightarrow> day_durable c d' day)"

lemma write_line_disk:
  assumes "write_line c line f s = (r, s')"
  shows "\<exists>part d. prefix part line \<and> d = append_data f part (pop_fault (log_disk s))
    \<and> s' = s\<lparr>log_disk := log_disk s'\<rparr>
    \<and> (log_disk s' = d \<and> r \<noteq> None \<or> log_disk s' = pop_fault d \<and> r \<noteq> None
       \<or> part = line \<and> log_disk s' = (pop_fault d)\<lparr>fs_stable := (fs_stable d)(f := fs_data d f)\<rparr>)"
proof -
  obtain rw d where w: "os_write f line (log_disk s) = (rw, d)" by fastforce
  obtain part where part: "prefix part line" "d = append_data f part (pop_fault (log_disk s))" "rw = Inr () \<longrightarrow> part = line"
    using os_write_result [OF w, of "()"] by auto
  obtain rf d1 where y: "os_fsync f d = (rf, d1)" by fastforce
  have err: "d1 = pop_fault d" if "rf = Inl e" for e
    using y that by (auto simp: os_fsync_def syscall_def split: fault.splits)
  show ?thesis
  proof (intro exI conjI)
    show "prefix part line" "d = append_data f part (pop_fault (log_disk s))" by (fact part)+
    show "s' = s\<lparr>log_disk := log_disk s'\<rparr>"
      using assms by (auto simp: write_line_def w y split: sum.splits)
    show "log_disk s' = d \<and> r \<noteq> None \<or> log_disk s' = pop_fault d \<and> r \<noteq> None
       \<or> part = line \<and> log_disk s' = (pop_fault d)\<lparr>fs_stable := (fs_stable d)(f := fs_data d f)\<rparr>"
      using assms err os_fsync_ok [of f d _ d1] y part(3)
      by (cases rw; cases rf) (auto simp: write_line_def w)
  qed
qed

lemma grown_write:
  assumes "lookup_path d (day_path c day) = Some f"
  shows "grown c day part d (append_data f part (pop_fault d))"
proof -
  have "touches {day_path c day} d (append_data f part (pop_fault d))"
    using touches_trans [OF touches_pop_fault touches_append_data] assms by simp
  then show ?thesis
    using assms written_append [of "pop_fault d" c day f]
    by (simp add: grown_def day_content_def file_content_def append_data_def written_def day_durable_def durable_file_def)
qed

lemma grown_calls:
  assumes "grown c day part d e" "lookup_path e (day_path c day) = Some f"
  shows "grown c day part d (pop_fault e)"
    "grown c day part d ((pop_fault e)\<lparr>fs_stable := (fs_stable e)(f := fs_data e f)\<rparr>)"
proof -
  have t: "touches {day_path c day} e (pop_fault e)" by simp
  show "grown c day part d (pop_fault e)"
    using assms touches_trans [OF _ t] by (simp add: grown_def day_content_def written_def day_durable_def durable_file_def)
  have "touches {day_path c day} e ((pop_fault e)\<lparr>fs_stable := (fs_stable e)(f := fs_data e f)\<rparr>)"
    using touches_trans [OF t touches_stable, of f] by simp
  then show "grown c day part d ((pop_fault e)\<lparr>fs_stable := (fs_stable e)(f := fs_data e f)\<rparr>)"
    using assms touches_trans written_fsync [of "pop_fault e" c day f]
    by (auto simp: grown_def day_content_def file_content_def written_def day_durable_def durable_file_def)
qed

lemma lookup_append_data [simp]: "lookup_path (append_data i b d) = lookup_path d"
  by (simp add: append_data_def)

definition write_outcome :: "log_cfg \<Rightarrow> bytes \<Rightarrow> bytes \<Rightarrow> day_log \<Rightarrow> gores \<Rightarrow> day_log \<Rightarrow> bool" where
  "write_outcome c day line s r s' \<longleftrightarrow> log_ok c s'
     \<and> (\<exists>part. prefix part line \<and> grown c day part (log_disk s) (log_disk s')
          \<and> (r = None \<longrightarrow> part = line \<and> written c (log_disk s') day (day_content c (log_disk s') day)))"

lemma write_line_outcome:
  assumes "write_line c line f s = (r, s')" "wf_fs (log_disk s)" "log_f s = Some f" "log_day s = day"
    and l: "lookup_path (log_disk s) (day_path c day) = Some f"
  shows "write_outcome c day line s r s'"
proof -
  obtain part d where part: "prefix part line" "d = append_data f part (pop_fault (log_disk s))"
    and s': "s' = s\<lparr>log_disk := log_disk s'\<rparr>"
    and alt: "log_disk s' = d \<and> r \<noteq> None \<or> log_disk s' = pop_fault d \<and> r \<noteq> None
       \<or> part = line \<and> log_disk s' = (pop_fault d)\<lparr>fs_stable := (fs_stable d)(f := fs_data d f)\<rparr>"
    using write_line_disk [OF assms(1)] by auto
  have ld: "lookup_path d (day_path c day) = Some f" using l by (simp add: part(2))
  have g0: "grown c day part (log_disk s) d" using grown_write [OF l] by (simp add: part(2))
  note g = grown_calls [OF g0 ld]
  have gr: "grown c day part (log_disk s) (log_disk s')" using alt g0 g by auto
  have "lookup_path (log_disk s') (day_path c day) = Some f" using alt ld by auto
  moreover have "log_f s' = log_f s" "log_day s' = log_day s" by (subst s'; simp)+
  ultimately have "log_ok c s'"
    using touches_wf [of "{day_path c day}" "log_disk s" "log_disk s'"] gr assms(2-4) by (simp add: log_ok_def grown_def)
  moreover have "part = line \<and> written c (log_disk s') day (day_content c (log_disk s') day)" if "r = None"
  proof -
    from that alt have e: "log_disk s' = (pop_fault d)\<lparr>fs_stable := (fs_stable d)(f := fs_data d f)\<rparr>" "part = line" by auto
    then show ?thesis using ld by (simp add: written_def day_content_def file_content_def)
  qed
  ultimately show ?thesis using part(1) gr unfolding write_outcome_def by blast
qed

text \<open>
  One append, whatever fails: the file of the day grows by a part of the line and no other file of
  the log changes; without an error the whole line is there, fsynced with all that precedes it.
\<close>

definition append_outcome :: "log_cfg \<Rightarrow> bytes \<Rightarrow> bytes \<Rightarrow> day_log \<Rightarrow> gores \<Rightarrow> day_log \<Rightarrow> bool" where
  "append_outcome c day line s r s' \<longleftrightarrow> log_ok c s' \<and> touches {day_path c day} (log_disk s) (log_disk s')
     \<and> (\<exists>part. prefix part line \<and> day_content c (log_disk s') day = day_content c (log_disk s) day @ part
          \<and> (r = None \<longrightarrow> part = line \<and> written c (log_disk s') day (day_content c (log_disk s') day)))
     \<and> (\<forall>b. written c (log_disk s) day b \<longrightarrow> written c (log_disk s') day b)
     \<and> (day_durable c (log_disk s) day \<longrightarrow> day_durable c (log_disk s') day \<or> dirsync_error c day s r)"

lemma append_line_outcome:
  assumes "append_line c day line s = (r, s')" "log_ok c s"
  shows "append_outcome c day line s r s'"
proof -
  obtain r1 s1 where 1: "ensure_day c day s = (r1, s1)" by fastforce
  note o = ensure_day_outcome [OF 1 assms(2)]
  show ?thesis
  proof (cases r1)
    case (Inl e)
    then have "r = Some e" "s' = s1" using assms(1) by (simp_all add: append_line_def 1)
    with o Inl show ?thesis
      by (auto simp: append_outcome_def open_outcome_def same_days_def intro!: exI [of _ "[]"])
  next
    case (Inr u)
    with o have op: "opened c day s s1" and sd: "same_days c day (log_disk s) (log_disk s1)" and ok: "log_ok c s1"
      by (simp_all add: open_outcome_def)
    from op obtain f where f: "log_f s1 = Some f" "log_day s1 = day" "lookup_path (log_disk s1) (day_path c day) = Some f"
      by (auto simp: opened_def)
    have w: "write_line c line f s1 = (r, s')" using assms(1) by (simp add: append_line_def 1 Inr f)
    have "wf_fs (log_disk s1)" using ok by (simp add: log_ok_def)
    from write_line_outcome [OF w this f] op sd show ?thesis
      unfolding write_outcome_def append_outcome_def grown_def same_days_def opened_def
      using touches_trans [of "{day_path c day}" "log_disk s" "log_disk s1" "log_disk s'"] by auto
  qed
qed

text \<open>\<open>stored c s (day, line)\<close>: the line is in the file of its day and fsynced.\<close>

definition stored :: "log_cfg \<Rightarrow> day_log \<Rightarrow> bytes \<times> bytes \<Rightarrow> bool" where
  "stored c s l \<longleftrightarrow> (\<exists>b. written c (log_disk s) (fst l) (b @ snd l))"

lemma append_outcome_ok: "append_outcome c day line s r s' \<Longrightarrow> log_ok c s'"
  by (simp add: append_outcome_def)

lemma append_outcome_unaffected:
  "append_outcome c day line s r s' \<Longrightarrow> log_ok c s \<Longrightarrow> d \<noteq> day \<Longrightarrow> unaffected (day_path c d) (log_disk s) (log_disk s')"
  using touches_unaffected [of "{day_path c day}" "log_disk s" "log_disk s'" "day_path c d"]
  by (simp add: append_outcome_def log_ok_def)

lemma append_outcome_written:
  assumes "append_outcome c day line s r s'" "log_ok c s" "written c (log_disk s) d b"
  shows "written c (log_disk s') d b"
  using assms written_unaffected [OF append_outcome_unaffected [OF assms(1,2)]]
  by (cases "d = day") (simp_all add: append_outcome_def)

lemma append_outcome_stored: "append_outcome c day line s None s' \<Longrightarrow> stored c s' (day, line)"
  by (auto simp: append_outcome_def stored_def)

lemma append_outcome_durable:
  assumes "append_outcome c day line s r s'" "log_ok c s" "day_durable c (log_disk s) d" "\<not> dirsync_error c day s r"
  shows "day_durable c (log_disk s') d"
  using assms day_durable_unaffected [OF append_outcome_unaffected [OF assms(1,2)]]
  by (cases "d = day") (simp_all add: append_outcome_def)

lemma append_outcome_prefix:
  assumes "append_outcome c day line s r s'" "log_ok c s"
  shows "prefix (day_content c (log_disk s) d) (day_content c (log_disk s') d)"
  using assms day_content_unaffected [OF append_outcome_unaffected [OF assms]]
  by (cases "d = day") (auto simp: append_outcome_def)

text \<open>A stored line outlives a crash as long as the name of its file does.\<close>

lemma stored_survives:
  assumes "stored c s (day, line)" "crash (log_disk s) d" "day_durable c (log_disk s) day"
  shows "\<exists>pre post. file_content d (day_path c day) = Some (pre @ line @ post)"
proof -
  obtain b i where i: "lookup_path (log_disk s) (day_path c day) = Some i"
      "prefix (b @ line) (fs_stable (log_disk s) i)" "prefix (fs_stable (log_disk s) i) (fs_data (log_disk s) i)"
    using assms(1) by (auto simp: stored_def written_def)
  have "durable_file (log_disk s) (day_path c day) i" using assms(3) i(1) by (simp add: day_durable_def)
  from durable_prefix [OF assms(2) this i(2,3)] show ?thesis by (auto simp: prefix_def)
qed

section \<open>Logs as an interface\<close>

text \<open>
  What the callers rely on: an append that reports no error has stored its entry, and no later
  append, failed or not, loses it.
\<close>

fun append_all :: "('l \<Rightarrow> 's \<Rightarrow> gores \<times> 's) \<Rightarrow> 'l list \<Rightarrow> 's \<Rightarrow> gores list \<times> 's" where
  "append_all f [] s = ([], s)"
| "append_all f (l # ls) s =
     (case f l s of (r, s1) \<Rightarrow> case append_all f ls s1 of (rs, s2) \<Rightarrow> (r # rs, s2))"

locale entry_log =
  fixes append_entry :: "'l \<Rightarrow> 's \<Rightarrow> gores \<times> 's"
    and log_inv :: "'s \<Rightarrow> bool"
    and holds_entry :: "'s \<Rightarrow> 'l \<Rightarrow> bool"
  assumes append_inv: "log_inv s \<Longrightarrow> append_entry l s = (r, s') \<Longrightarrow> log_inv s'"
    and append_holds: "log_inv s \<Longrightarrow> append_entry l s = (None, s') \<Longrightarrow> holds_entry s' l"
    and append_keeps: "log_inv s \<Longrightarrow> append_entry l s = (r, s') \<Longrightarrow> holds_entry s m \<Longrightarrow> holds_entry s' m"
begin

lemma all_keep: "append_all append_entry ls s = (rs, s') \<Longrightarrow> log_inv s \<Longrightarrow> log_inv s' \<and> (\<forall>m. holds_entry s m \<longrightarrow> holds_entry s' m)"
proof (induction ls arbitrary: s rs)
  case (Cons l ls)
  obtain r s1 where 1: "append_entry l s = (r, s1)" by fastforce
  obtain rs1 where 2: "append_all append_entry ls s1 = (rs1, s')"
    using Cons.prems(1) by (auto simp: 1 split: prod.splits)
  from Cons.IH [OF 2 append_inv [OF Cons.prems(2) 1]] append_keeps [OF Cons.prems(2) 1] show ?case by simp
qed simp

lemma acknowledged_kept:
  "append_all append_entry ls s = (rs, s') \<Longrightarrow> log_inv s \<Longrightarrow> i < length ls \<Longrightarrow> rs ! i = None \<Longrightarrow> holds_entry s' (ls ! i)"
proof (induction ls arbitrary: s rs i)
  case (Cons l ls)
  obtain r s1 where 1: "append_entry l s = (r, s1)" by fastforce
  obtain rs1 where 2: "append_all append_entry ls s1 = (rs1, s')" and eq: "rs = r # rs1"
    using Cons.prems(1) by (auto simp: 1 split: prod.splits)
  note inv = append_inv [OF Cons.prems(2) 1]
  show ?case
  proof (cases i)
    case 0
    then have "append_entry l s = (None, s1)" using Cons.prems(4) 1 eq by simp
    from append_holds [OF Cons.prems(2) this] all_keep [OF 2 inv] show ?thesis by (simp add: 0 eq)
  next
    case (Suc j)
    with Cons.IH [OF 2 inv, of j] Cons.prems(3,4) eq show ?thesis by simp
  qed
qed simp

end

interpretation line_log: entry_log "\<lambda>l. append_line c (fst l) (snd l)" "log_ok c" "stored c" for c
proof
  fix s l r s' m
  assume ok: "log_ok c s" and a: "append_line c (fst l) (snd l) s = (r, s')"
  note o = append_line_outcome [OF a ok]
  show "log_ok c s'" using append_outcome_ok [OF o] .
  show "stored c s' m" if "stored c s m"
    using that append_outcome_written [OF o ok] by (auto simp: stored_def)
next
  fix s l s'
  assume "log_ok c s" "append_line c (fst l) (snd l) s = (None, s')"
  from append_outcome_stored [OF append_line_outcome [OF this(2,1)]] show "stored c s' l" by simp
qed

section \<open>Acknowledged lines and power losses\<close>

text \<open>An acknowledged line is durable: its file's name has reached the disk unless an earlier call of the
  same day, the one that created the file, reported that the directory fsync had failed.\<close>

definition dirsync_failure :: "log_cfg \<Rightarrow> gores \<Rightarrow> bool" where
  "dirsync_failure c r \<longleftrightarrow> (\<exists>e. r = Some (Wrapf (dirsync_failed c) e))"

lemma append_line_durable:
  assumes "append_line c day line s = (r, s')" "log_ok c s" "day_durable c (log_disk s) d"
    and "day = d \<Longrightarrow> dirsync_failure c r \<Longrightarrow> lookup_path (log_disk s) (day_path c d) \<noteq> None"
  shows "day_durable c (log_disk s') d"
proof -
  note o = append_line_outcome [OF assms(1,2)]
  show ?thesis
  proof (cases "d = day")
    case True
    then show ?thesis
      using append_outcome_durable [OF o assms(2,3)] assms(4) by (auto simp: dirsync_error_def dirsync_failure_def)
  next
    case False
    then have "unaffected (day_path c d) (log_disk s) (log_disk s')" using append_outcome_unaffected [OF o assms(2)] by simp
    from day_durable_unaffected [OF this assms(3)] show ?thesis .
  qed
qed

lemma stored_exists: "stored c s (day, line) \<Longrightarrow> lookup_path (log_disk s) (day_path c day) \<noteq> None"
  by (auto simp: stored_def written_def)

lemma existing_stays_durable:
  assumes "append_all (\<lambda>l. append_line c (fst l) (snd l)) ls s = (rs, s')" "log_ok c s"
    and "stored c s (d, line)" "day_durable c (log_disk s) d"
  shows "day_durable c (log_disk s') d"
  using assms
proof (induction ls arbitrary: s rs)
  case (Cons l ls)
  obtain r s1 where 1: "append_line c (fst l) (snd l) s = (r, s1)" by fastforce
  obtain rs1 where 2: "append_all (\<lambda>l. append_line c (fst l) (snd l)) ls s1 = (rs1, s')"
    using Cons.prems(1) by (auto simp: 1 split: prod.splits)
  show ?case
    using Cons.IH [OF 2] line_log.append_inv [OF Cons.prems(2) 1] line_log.append_keeps [OF Cons.prems(2) 1 Cons.prems(3)]
      append_line_durable [OF 1 Cons.prems(2,4)] stored_exists [OF Cons.prems(3)] by blast
qed simp

lemma acknowledged_durable:
  assumes "append_all (\<lambda>l. append_line c (fst l) (snd l)) ls s = (rs, s')" "log_ok c s"
    and "i < length ls" "rs ! i = None" "ls ! i = (d, line)" "day_durable c (log_disk s) d"
    and "\<And>j. j < i \<Longrightarrow> fst (ls ! j) = d \<Longrightarrow> \<not> dirsync_failure c (rs ! j)"
  shows "day_durable c (log_disk s') d"
  using assms
proof (induction ls arbitrary: s rs i)
  case (Cons l ls)
  obtain r s1 where 1: "append_line c (fst l) (snd l) s = (r, s1)" by fastforce
  obtain rs1 where 2: "append_all (\<lambda>l. append_line c (fst l) (snd l)) ls s1 = (rs1, s')" and rs: "rs = r # rs1"
    using Cons.prems(1) by (auto simp: 1 split: prod.splits)
  note ok = line_log.append_inv [OF Cons.prems(2) 1]
  show ?case
  proof (cases i)
    case 0
    then have l: "l = (d, line)" "r = None" using Cons.prems(4,5) by (simp_all add: rs)
    have "day_durable c (log_disk s1) d"
      using append_line_durable [OF 1 Cons.prems(2,6)] by (simp add: l dirsync_failure_def)
    moreover have "stored c s1 (d, line)" using line_log.append_holds [OF Cons.prems(2), of l s1] 1 by (simp add: l)
    ultimately show ?thesis using existing_stays_durable [OF 2 ok] by blast
  next
    case (Suc k)
    have "day_durable c (log_disk s1) d"
      using append_line_durable [OF 1 Cons.prems(2,6)] Cons.prems(7) [of 0] by (auto simp: Suc rs)
    moreover have "\<not> dirsync_failure c (rs1 ! j)" if "j < k" "fst (ls ! j) = d" for j
      using Cons.prems(7) [of "Suc j"] that by (simp add: Suc rs)
    ultimately show ?thesis using Cons.IH [OF 2 ok, of k] Cons.prems(3-5) by (simp add: Suc rs)
  qed
qed simp

lemma append_all_map: "append_all f (map g ls) s = append_all (\<lambda>l. f (g l)) ls s"
  by (induction ls arbitrary: s) (simp_all split: prod.split)

section \<open>Failed writes\<close>

text \<open>
  What two failures leave behind on a new log: a short write whose line is then appended again, and
  a failed directory fsync after which the handle stays open.
\<close>

definition fresh_log :: "fault list \<Rightarrow> day_log" where
  "fresh_log faults = \<lparr>log_disk = empty_fs faults, log_day = [], log_f = None\<rparr>"

lemmas io_defs = append_line_def ensure_day_def open_day_def close_previous_def write_line_def OpenAppendFile_def
  os_open_excl_def os_open_append_def os_write_def os_fsync_def os_plain_def os_fsync_dir_def Sync_def syscall_def
  next_fault_def pop_fault_def create_file_def set_entry_def lookup_path_def append_data_def sync_entries_def
  file_content_def day_path_def Let_def

lemma torn_append:
  assumes "append_line c day line (fresh_log (replicate 4 NoFault @ [ShortWrite n m])) = (r1, s1)"
    and "append_line c day line s1 = (r2, s2)"
  shows "r1 = Some (Wrapf (write_failed c) (Leaf m))" "r2 = None"
    "day_content c (log_disk s2) day = take n line @ line"
proof -
  have 4: "replicate 4 NoFault = [NoFault, NoFault, NoFault, NoFault]" by (simp add: eval_nat_numeral)
  show "r1 = Some (Wrapf (write_failed c) (Leaf m))" "r2 = None"
    "day_content c (log_disk s2) day = take n line @ line"
    using assms by (auto simp: io_defs 4 fresh_log_def empty_fs_def day_content_def)
qed

lemma unsynced_append:
  assumes "append_line c day line (fresh_log [NoFault, NoFault, Fault m]) = (r1, s1)"
    and "append_line c day line s1 = (r2, s2)"
  shows "r1 = Some (Wrapf (dirsync_failed c) (Leaf m))" "r2 = None"
    "fs_log (log_disk s2) = [(day_path c day, Some 0)]" "fs_synced (log_disk s2) = []"
    "fs_data (log_disk s2) = fs_stable (log_disk s2)"
  using assms by (auto simp: io_defs fresh_log_def empty_fs_def)

lemma unsynced_lost:
  assumes "fs_log s = [(p, Some i)]" "fs_synced s = []" "fs_data s = fs_stable s"
  shows "crash s ((empty_fs [])\<lparr>fs_data := fs_data s\<rparr>)"
  using assms by (simp add: crash_def possible_entries_def lookup_path_def empty_fs_def crash_content_def)

lemma fresh_append:
  assumes "append_line c day line (fresh_log []) = (r, s)"
  shows "r = None"
  using assms by (auto simp: io_defs fresh_log_def empty_fs_def)

lemma fresh_log_ok: "log_ok c (fresh_log fl)" "day_durable c (log_disk (fresh_log fl)) day"
  by (simp_all add: log_ok_def fresh_log_def day_durable_def empty_fs_def lookup_path_def wf_empty_fs [unfolded empty_fs_def])

text \<open>A crash can leave things as they are.\<close>

lemma crash_refl: "wf_fs s \<Longrightarrow> crash s s"
  unfolding crash_def by (auto simp: crash_content_def intro: current_possible)

lemma settled_durable:
  assumes "wf_fs d" "fs_log d = []"
  shows "day_durable c d day"
  using wf_logged [OF assms(1)] assms(2)
  by (auto simp: day_durable_def durable_file_def possible_entries_def logged_entry_def)

end
