(* ===== verification/JsonText.thy ===== *)
theory JsonText
  imports GoJson
begin

text \<open>
  Compact JSON texts as \<^verbatim>\<open>json.Marshal\<close> writes them, and the round trip: the parser of
  GoJson reads back every value the gateway writes, for any strings in it.
\<close>

section \<open>Encoding values\<close>

text \<open>
  The compact text of a value, as \<^verbatim>\<open>json.Marshal\<close> writes it: no white space, object members
  in the given order. \<open>JNum\<close> holds the text of a number.
\<close>

fun encode :: "json \<Rightarrow> string" where
  "encode JNull = ''null''"
| "encode (JBool b) = (if b then ''true'' else ''false'')"
| "encode (JNum s) = s"
| "encode (JStr s) = json_string s"
| "encode (JArr vs) = CHR ''['' # str_join '','' (map encode vs) @ '']''"
| "encode (JObj ms) = CHR ''{'' # str_join '','' (map (\<lambda>m. json_string (fst m) @ CHR '':'' # encode (snd m)) ms) @ ''}''"

text \<open>What reading gives back: strings with \<^verbatim>\<open>U+FFFD\<close> for invalid bytes.\<close>

definition valid_text :: "bytes \<Rightarrow> bytes" where
  "valid_text s = utf8_encode (utf8_decode s)"

fun normal :: "json \<Rightarrow> json" where
  "normal (JStr s) = JStr (valid_text s)"
| "normal (JArr vs) = JArr (map normal vs)"
| "normal (JObj ms) = JObj (map (\<lambda>m. (valid_text (fst m), normal (snd m))) ms)"
| "normal v = v"

text \<open>Values whose numbers are integers, and their nesting.\<close>

fun plain_json :: "json \<Rightarrow> bool" where
  "plain_json (JNum s) = (\<exists>i. s = show_int i)"
| "plain_json (JArr vs) = (\<forall>v \<in> set vs. plain_json v)"
| "plain_json (JObj ms) = (\<forall>m \<in> set ms. plain_json (snd m))"
| "plain_json v = True"

fun nesting :: "json \<Rightarrow> nat" where
  "nesting (JArr vs) = Suc (Max (insert 0 (nesting ` set vs)))"
| "nesting (JObj ms) = Suc (Max (insert 0 ((\<lambda>m. nesting (snd m)) ` set ms)))"
| "nesting v = 0"

text \<open>What may follow a value so that a number ends there.\<close>

definition value_end :: "bytes \<Rightarrow> bool" where
  "value_end t \<longleftrightarrow> (case t of [] \<Rightarrow> True | c # _ \<Rightarrow> json_space c \<or> c \<in> {CHR '','', CHR '']'', CHR ''}''})"

lemma value_end_Cons [simp]: "value_end (CHR '','' # t)" "value_end (CHR '']'' # t)" "value_end (CHR ''}'' # t)" "value_end []"
  by (simp_all add: value_end_def)

lemma takeWhile_digits:
  assumes "list_all is_digit ds" "value_end t"
  shows "read_digits (ds @ t) = (ds, t)"
proof -
  have "takeWhile is_digit t = []" "dropWhile is_digit t = t"
    using assms(2) by (cases t; auto simp: value_end_def json_space_def is_digit_def)+
  with assms(1) show ?thesis by (induction ds) (simp_all add: read_digits_def)
qed

lemma show_nat_head: "show_nat n = CHR ''0'' # ds \<Longrightarrow> ds = []"
proof (induction n arbitrary: ds rule: show_nat.induct)
  case (1 n)
  show ?case
  proof (cases "n < 10")
    case True
    with 1(2) show ?thesis by (simp add: show_nat.simps [of n])
  next
    case False
    then have s: "show_nat (n div 10) @ [digit_char (n mod 10)] = CHR ''0'' # ds" using 1(2) by (simp add: show_nat.simps [of n])
    then obtain e where e: "show_nat (n div 10) = CHR ''0'' # e" by (cases "show_nat (n div 10)") auto
    have "n div 10 = digits_val (show_nat (n div 10))" by simp
    also have "\<dots> = digits_val ''0''" using 1(1) [OF False e] e by simp
    also have "\<dots> = 0" by (simp add: digits_val_def digit_val_def)
    finally have "n div 10 = 0" .
    with False show ?thesis by simp
  qed
qed

lemma read_int_show_nat: "value_end t \<Longrightarrow> read_int_part (show_nat n @ t) = Some (show_nat n, t)"
  using show_nat_head [of n]
  by (auto simp: read_int_part_def takeWhile_digits split: list.split)

lemma read_number_tail: "value_end t \<Longrightarrow> read_frac_part t = Some ([], t) \<and> read_exp_part t = Some ([], t)"
  by (cases t) (auto simp: value_end_def json_space_def read_frac_part_def read_exp_part_def)

lemma show_nat_cons: "\<exists>c ds. show_nat n = c # ds \<and> is_digit c"
  using show_nat_digits [of n] show_nat_not_Nil [of n] by (cases "show_nat n") auto

lemma read_number_show_int:
  assumes "value_end t"
  shows "read_number (show_int i @ t) = Some (show_int i, t)"
proof -
  obtain c ds where c: "show_nat (nat i) = c # ds" "is_digit c" using show_nat_cons by blast
  then have "c \<noteq> CHR ''-''" by (auto simp: is_digit_def)
  then have pos: "(case show_nat (nat i) @ t of c # u \<Rightarrow> if c = CHR ''-'' then ([c], u) else ([], show_nat (nat i) @ t)
      | [] \<Rightarrow> ([], show_nat (nat i) @ t)) = ([], show_nat (nat i) @ t)" using c by simp
  show ?thesis
    using read_int_show_nat [OF assms] read_number_tail [OF assms] pos
    by (cases "i < 0") (simp_all add: read_number_def show_int_def)
qed

text \<open>How a value begins.\<close>

definition starts :: "bytes \<Rightarrow> bool" where
  "starts s \<longleftrightarrow> (case s of [] \<Rightarrow> False | c # _ \<Rightarrow> \<not> json_space c \<and> c \<noteq> CHR '']'' \<and> c \<noteq> CHR ''}'')"

lemma skip_ws_starts [simp]: "starts s \<Longrightarrow> skip_ws (s @ t) = s @ t"
  by (cases s) (auto simp: starts_def skip_ws_def)

lemma skip_ws_Cons [simp]: "\<not> json_space c \<Longrightarrow> skip_ws (c # s) = c # s"
  by (simp add: skip_ws_def)

lemma not_space [simp]:
  "\<not> json_space (CHR '','')" "\<not> json_space (CHR '':'')" "\<not> json_space (CHR '']'')" "\<not> json_space (CHR ''}'')"
  "\<not> json_space (CHR 0x22)" "\<not> json_space (CHR ''['')" "\<not> json_space (CHR ''{'')"
  by (simp_all add: json_space_def)

lemma starts_show_int: "\<exists>c u. show_int i = c # u \<and> (is_digit c \<or> c = CHR ''-'')"
  using show_nat_cons [of "nat i"] by (auto simp: show_int_def)

lemma starts_encode: "plain_json v \<Longrightarrow> starts (encode v)"
proof (induction v)
  case (JNum s)
  then obtain i where "s = show_int i" by auto
  then obtain c u where "s = c # u" "is_digit c \<or> c = CHR ''-''" using starts_show_int [of i] by auto
  then show ?case by (auto simp: starts_def json_space_def is_digit_def)
qed (auto simp: starts_def json_string_def json_space_def)

lemma parse_number_char:
  assumes "is_digit c \<or> c = CHR ''-''"
  shows "parse_value (Suc n) d (c # t) = map_option (apfst JNum) (read_number (c # t))"
proof -
  have "\<not> json_space c \<and> c \<noteq> CHR 0x22 \<and> c \<noteq> CHR ''['' \<and> c \<noteq> CHR ''{'' \<and> c \<noteq> CHR ''t'' \<and> c \<noteq> CHR ''f'' \<and> c \<noteq> CHR ''n''"
    using assms by (auto simp: json_space_def is_digit_def)
  then show ?thesis by simp
qed

lemma parse_number:
  assumes "value_end t"
  shows "parse_value (Suc n) d (show_int i @ t) = Some (JNum (show_int i), t)"
proof -
  obtain c u where c: "show_int i = c # u" "is_digit c \<or> c = CHR ''-''" using starts_show_int by blast
  with parse_number_char [OF c(2), of n d "u @ t"] read_number_show_int [OF assms, of i] show ?thesis by simp
qed

lemma json_string_Cons: "json_string s @ t = CHR 0x22 # (concat (map escape_seg (segs s)) @ CHR 0x22 # t)"
  by (simp add: json_string_def)

lemma read_json_string_body:
  "read_string (Suc (length (concat (map escape_seg (segs s)) @ CHR 0x22 # t))) (concat (map escape_seg (segs s)) @ CHR 0x22 # t)
    = Some (valid_text s, t)"
  using read_json_string [OF json_string_Cons] by (simp add: valid_text_def)

lemma parse_quote:
  "parse_value (Suc n) d (CHR 0x22 # t) = map_option (apfst JStr) (read_string (Suc (length t)) t)"
  by (simp del: read_string.simps)

lemma parse_string: "parse_value (Suc n) d (json_string s @ t) = Some (JStr (valid_text s), t)"
  unfolding json_string_Cons parse_quote read_json_string_body by simp

lemma parse_member:
  "parse_members (Suc n) d (json_string k @ CHR '':'' # s) =
    (case parse_value n d s of
       None \<Rightarrow> None
     | Some (v, t) \<Rightarrow>
         (case skip_ws t of
            c # u \<Rightarrow> if c = CHR ''}'' then Some ([(valid_text k, v)], u)
                     else if c = CHR '','' then map_option (apfst (Cons (valid_text k, v))) (parse_members n d u)
                     else None
          | [] \<Rightarrow> None))"
  unfolding json_string_Cons parse_members.simps
  by (simp only: skip_ws_Cons [OF not_space(5)] list.case not_True_eq_False if_False simp_thms
      read_json_string_body option.case prod.case skip_ws_Cons [OF not_space(2)])

text \<open>\<open>reads d v\<close>: the text of \<open>v\<close> is read back at depth \<open>d\<close>, given fuel for its length.\<close>

definition reads :: "nat \<Rightarrow> json \<Rightarrow> bool" where
  "reads d v \<longleftrightarrow> (\<forall>n t. 2 * length (encode v) \<le> n \<longrightarrow> value_end t \<longrightarrow>
     parse_value n d (encode v @ t) = Some (normal v, t))"

lemma readsD: "reads d v \<Longrightarrow> 2 * length (encode v) \<le> n \<Longrightarrow> value_end t \<Longrightarrow>
    parse_value n d (encode v @ t) = Some (normal v, t)"
  by (simp add: reads_def)

lemma encode_length: "plain_json v \<Longrightarrow> 1 \<le> length (encode v)"
  using starts_encode [of v] by (cases "encode v") (auto simp: starts_def)

lemma parse_elements_encode:
  assumes "vs \<noteq> []" "\<forall>v \<in> set vs. reads d v \<and> plain_json v" "2 * length (str_join '','' (map encode vs)) + 1 \<le> n"
  shows "parse_elements n d (str_join '','' (map encode vs) @ CHR '']'' # t) = Some (map normal vs, t)"
  using assms
proof (induction vs arbitrary: n rule: list_nonempty_induct)
  case (single v)
  then obtain m where m: "n = Suc m" "2 * length (encode v) \<le> m" by (cases n) auto
  with single readsD [of d v m "CHR '']'' # t"] show ?case by simp
next
  case (cons v vs)
  then obtain w ws where ws: "vs = w # ws" by (cases vs) auto
  obtain m where m: "n = Suc m" "2 * (length (encode v) + 1 + length (str_join '','' (map encode vs))) \<le> m"
    using cons.prems(2) by (cases n) (auto simp: ws)
  have l: "1 \<le> length (encode v)" using cons.prems(1) encode_length [of v] by simp
  have "parse_value m d (encode v @ CHR '','' # str_join '','' (map encode vs) @ CHR '']'' # t)
      = Some (normal v, CHR '','' # str_join '','' (map encode vs) @ CHR '']'' # t)"
    using cons.prems(1) m by (intro readsD) auto
  moreover have "parse_elements m d (str_join '','' (map encode vs) @ CHR '']'' # t) = Some (map normal vs, t)"
    using cons.prems(1) m by (intro cons.IH) auto
  ultimately show ?case by (simp add: m(1) ws)
qed

definition member_text :: "bytes \<times> json \<Rightarrow> string" where
  "member_text m = json_string (fst m) @ CHR '':'' # encode (snd m)"

lemma length_member_text: "length (member_text m) = length (json_string (fst m)) + 1 + length (encode (snd m))"
  by (simp add: member_text_def)

definition normal_member :: "bytes \<times> json \<Rightarrow> bytes \<times> json" where
  "normal_member m = (valid_text (fst m), normal (snd m))"

lemma parse_members_encode:
  assumes "ms \<noteq> []" "\<forall>m \<in> set ms. reads d (snd m)" "2 * length (str_join '','' (map member_text ms)) + 1 \<le> n"
  shows "parse_members n d (str_join '','' (map member_text ms) @ CHR ''}'' # t) = Some (map normal_member ms, t)"
  using assms
proof (induction ms arbitrary: n rule: list_nonempty_induct)
  case (single m)
  then obtain k where k: "n = Suc k" "2 * length (encode (snd m)) \<le> k" by (cases n) (auto simp: member_text_def)
  with single readsD [of d "snd m" k "CHR ''}'' # t"] show ?case
    by (simp add: member_text_def normal_member_def parse_member del: parse_members.simps)
next
  case (cons m ms)
  then obtain w ws where ws: "ms = w # ws" by (cases ms) auto
  obtain k where k: "n = Suc k" "2 * (length (encode (snd m)) + 1 + length (str_join '','' (map member_text ms))) \<le> k"
    using cons.prems(2) length_member_text [of m] by (cases n) (auto simp: ws)
  let ?rest = "str_join '','' (map member_text ms) @ CHR ''}'' # t"
  have "parse_value k d (encode (snd m) @ CHR '','' # ?rest) = Some (normal (snd m), CHR '','' # ?rest)"
    using cons.prems(1) k by (intro readsD) auto
  moreover have "parse_members k d ?rest = Some (map normal_member ms, t)"
    using cons.prems(1) k by (intro cons.IH) auto
  moreover have "str_join '','' (map member_text (m # ms)) @ CHR ''}'' # t =
      json_string (fst m) @ CHR '':'' # encode (snd m) @ CHR '','' # ?rest"
    by (simp add: ws member_text_def)
  moreover have "map normal_member (m # ms) = (valid_text (fst m), normal (snd m)) # map normal_member ms"
    by (simp add: normal_member_def)
  ultimately show ?case
    by (simp add: k(1) parse_member del: parse_members.simps str_join.simps list.map)
qed

lemma encode_JObj: "encode (JObj ms) = CHR ''{'' # str_join '','' (map member_text ms) @ ''}''"
  by (simp add: member_text_def cong: map_cong)

lemma starts_join:
  assumes "xs \<noteq> []" "starts (hd xs)"
  shows "starts (str_join sep xs @ t)"
  using assms by (cases xs; cases "tl xs") (auto simp: starts_def split: list.splits)

lemma skip_ws_join:
  assumes "xs \<noteq> []" "starts (hd xs)"
  shows "\<exists>c u. str_join sep xs @ t = c # u \<and> skip_ws (str_join sep xs @ t) = c # u \<and> c \<noteq> CHR '']'' \<and> c \<noteq> CHR ''}''"
  using starts_join [OF assms, of sep t] skip_ws_starts [OF starts_join [OF assms, of sep t], of "[]"]
  by (auto simp: starts_def split: list.splits)

lemma parse_array:
  assumes "skip_ws t = c # u" "c \<noteq> CHR '']''" "d < max_depth"
  shows "parse_value (Suc n) d (CHR ''['' # t) = map_option (apfst JArr) (parse_elements n (Suc d) t)"
  using assms by simp

lemma parse_object:
  assumes "skip_ws t = c # u" "c \<noteq> CHR ''}''" "d < max_depth"
  shows "parse_value (Suc n) d (CHR ''{'' # t) = map_option (apfst JObj) (parse_members n (Suc d) t)"
  using assms by simp

lemma starts_member [simp]: "starts (member_text m)"
  by (simp add: member_text_def json_string_def starts_def)

lemma nesting_elem: "v \<in> set vs \<Longrightarrow> nesting v < nesting (JArr vs)"
  by (simp add: less_Suc_eq_le)

lemma nesting_member: "m \<in> set ms \<Longrightarrow> nesting (snd m) < nesting (JObj ms)"
  by (simp add: less_Suc_eq_le)

lemma reads_array:
  assumes "\<forall>v \<in> set vs. reads (Suc d) v \<and> plain_json v" "d < max_depth"
  shows "reads d (JArr vs)"
  unfolding reads_def
proof (intro allI impI)
  fix n t
  assume n: "2 * length (encode (JArr vs)) \<le> n" and t: "value_end t"
  then obtain k where k: "n = Suc k" "2 * length (str_join '','' (map encode vs)) + 1 \<le> k" by (cases n) auto
  show "parse_value n d (encode (JArr vs) @ t) = Some (normal (JArr vs), t)"
  proof (cases "vs = []")
    case True
    then show ?thesis using assms(2) by (simp add: k(1))
  next
    case False
    then have "starts (hd (map encode vs))" using assms(1) starts_encode [of "hd vs"] by (simp add: hd_map)
    then obtain c u where "skip_ws (str_join '','' (map encode vs) @ CHR '']'' # t) = c # u" "c \<noteq> CHR '']''"
      using skip_ws_join [of "map encode vs"] False by force
    from parse_array [OF this assms(2), of k] parse_elements_encode [OF False assms(1) k(2), of t]
    show ?thesis by (simp add: k(1) del: parse_value.simps)
  qed
qed

lemma reads_object:
  assumes "\<forall>m \<in> set ms. reads (Suc d) (snd m)" "d < max_depth"
  shows "reads d (JObj ms)"
  unfolding reads_def
proof (intro allI impI)
  fix n t
  assume n: "2 * length (encode (JObj ms)) \<le> n" and t: "value_end t"
  then obtain k where k: "n = Suc k" "2 * length (str_join '','' (map member_text ms)) + 1 \<le> k"
    unfolding encode_JObj by (cases n) auto
  show "parse_value n d (encode (JObj ms) @ t) = Some (normal (JObj ms), t)"
  proof (cases "ms = []")
    case True
    then show ?thesis using assms(2) by (simp add: k(1))
  next
    case False
    then obtain c u where "skip_ws (str_join '','' (map member_text ms) @ CHR ''}'' # t) = c # u" "c \<noteq> CHR ''}''"
      using skip_ws_join [of "map member_text ms"] by (force simp: hd_map)
    from parse_object [OF this assms(2), of k] parse_members_encode [OF False assms(1) k(2), of t]
    show ?thesis unfolding encode_JObj by (simp add: k(1) normal_member_def del: parse_value.simps)
  qed
qed

lemma reads_step:
  assumes "\<And>k t. value_end t \<Longrightarrow> parse_value (Suc k) d (encode v @ t) = Some (normal v, t)" "encode v \<noteq> []"
  shows "reads d v"
  unfolding reads_def
proof (intro allI impI)
  fix n t assume "2 * length (encode v) \<le> n" "value_end t"
  moreover obtain k where "n = Suc k" using calculation(1) assms(2) by (cases n) auto
  ultimately show "parse_value n d (encode v @ t) = Some (normal v, t)" using assms(1) by simp
qed

lemma reads_literal: "reads d JNull" "reads d (JBool b)"
  by (rule reads_step; auto simp: read_literal_def has_prefix_def json_space_def)+

lemma reads_string: "reads d (JStr s)"
  by (rule reads_step) (simp_all only: encode.simps normal.simps parse_string, simp add: json_string_def)

lemma reads_number: "reads d (JNum (show_int i))"
  using starts_show_int [of i]
  by (intro reads_step) (auto simp only: encode.simps normal.simps parse_number list.simps)

lemma reads_plain: "plain_json v \<Longrightarrow> d + nesting v \<le> max_depth \<Longrightarrow> reads d v"
proof (induction v arbitrary: d rule: encode.induct)
  case (3 s)
  then show ?case using reads_number by auto
next
  case (5 vs)
  then have "\<forall>v \<in> set vs. reads (Suc d) v \<and> plain_json v" using nesting_elem [of _ vs] by fastforce
  with 5(3) show ?case by (intro reads_array) simp_all
next
  case (6 ms)
  then have "\<forall>m \<in> set ms. reads (Suc d) (snd m)" using nesting_member [of _ ms] by fastforce
  with 6(3) show ?case by (intro reads_object) simp_all
qed (simp_all only: reads_literal reads_string)

theorem parse_encode:
  assumes "plain_json v" "nesting v \<le> max_depth"
  shows "parse_json (encode v) = Some (normal v)"
proof -
  have "parse_first (encode v) = Some (normal v, [])"
    using readsD [OF reads_plain [of v 0], of "2 * length (encode v) + 2" "[]"] assms by (simp add: parse_first_def)
  then show ?thesis by (simp add: parse_json_def skip_ws_def)
qed

text \<open>
  \<^verbatim>\<open>json.RawMessage\<close> inside a marshaled value: the text is checked and copied without its
  white space, with the HTML escaping of strings. The flag tells whether the position is inside a
  string.
\<close>

fun compact :: "bool \<Rightarrow> bytes \<Rightarrow> bytes" where
  "compact b [] = []"
| "compact False (c # s) =
     (if json_space c then compact False s else c # compact (c = CHR 0x22) s)"
| "compact True (c # s) =
     (if c = CHR 0x22 then c # compact False s
      else if c = CHR 0x5C then c # (case s of [] \<Rightarrow> [] | e # s' \<Rightarrow> e # compact True s')
      else if c = CHR ''<'' \<or> c = CHR ''>'' \<or> c = CHR ''&'' then unicode_escape (of_char c) @ compact True s
      else if take 2 s = [CHR 0x80, CHR 0xA8] \<and> c = CHR 0xE2 then unicode_escape 8232 @ compact True (drop 2 s)
      else if take 2 s = [CHR 0x80, CHR 0xA9] \<and> c = CHR 0xE2 then unicode_escape 8233 @ compact True (drop 2 s)
      else c # compact True s)"

definition marshal_raw :: "bytes \<Rightarrow> (goerr + bytes)" where
  "marshal_raw s = (case parse_json s of None \<Rightarrow> Inl json_error | Some _ \<Rightarrow> Inr (compact False s))"

end
