(* ===== verification/GoCrypto.thy ===== *)
theory GoCrypto
  imports Prelude "HOL-Library.Word"
begin

text \<open>
  \<^verbatim>\<open>crypto/sha256\<close>, \<^verbatim>\<open>crypto/hmac\<close> and \<^verbatim>\<open>encoding/hex\<close>: the SHA-256
  digest of FIPS 180-4 over 32-bit words, HMAC of RFC 2104 over it, and lower-case hexadecimal.
\<close>

unbundle bit_operations_syntax

type_synonym u32 = "32 word"

section \<open>SHA-256\<close>

definition sha_k :: "u32 list" where
  "sha_k = [
    1116352408, 1899447441, 3049323471, 3921009573, 961987163, 1508970993, 2453635748, 2870763221,
    3624381080, 310598401, 607225278, 1426881987, 1925078388, 2162078206, 2614888103, 3248222580,
    3835390401, 4022224774, 264347078, 604807628, 770255983, 1249150122, 1555081692, 1996064986,
    2554220882, 2821834349, 2952996808, 3210313671, 3336571891, 3584528711, 113926993, 338241895,
    666307205, 773529912, 1294757372, 1396182291, 1695183700, 1986661051, 2177026350, 2456956037,
    2730485921, 2820302411, 3259730800, 3345764771, 3516065817, 3600352804, 4094571909, 275423344,
    430227734, 506948616, 659060556, 883997877, 958139571, 1322822218, 1537002063, 1747873779,
    1955562222, 2024104815, 2227730452, 2361852424, 2428436474, 2756734187, 3204031479, 3329325298]"

definition sha_init :: "u32 list" where
  "sha_init = [
    1779033703, 3144134277, 1013904242, 2773480762, 1359893119, 2600822924, 528734635, 1541459225]"

definition rotr :: "nat \<Rightarrow> u32 \<Rightarrow> u32" where
  "rotr n x = drop_bit n x OR push_bit (32 - n) x"

definition sha_ch :: "u32 \<Rightarrow> u32 \<Rightarrow> u32 \<Rightarrow> u32" where
  "sha_ch x y z = (x AND y) XOR (NOT x AND z)"

definition sha_maj :: "u32 \<Rightarrow> u32 \<Rightarrow> u32 \<Rightarrow> u32" where
  "sha_maj x y z = (x AND y) XOR (x AND z) XOR (y AND z)"

definition sha_big0 :: "u32 \<Rightarrow> u32" where
  "sha_big0 x = rotr 2 x XOR rotr 13 x XOR rotr 22 x"

definition sha_big1 :: "u32 \<Rightarrow> u32" where
  "sha_big1 x = rotr 6 x XOR rotr 11 x XOR rotr 25 x"

definition sha_small0 :: "u32 \<Rightarrow> u32" where
  "sha_small0 x = rotr 7 x XOR rotr 18 x XOR drop_bit 3 x"

definition sha_small1 :: "u32 \<Rightarrow> u32" where
  "sha_small1 x = rotr 17 x XOR rotr 19 x XOR drop_bit 10 x"

text \<open>The message schedule: a window of the last sixteen words, oldest first.\<close>

fun sha_schedule :: "nat \<Rightarrow> u32 list \<Rightarrow> u32 list" where
  "sha_schedule 0 w = []"
| "sha_schedule (Suc n) w =
     w ! 0 # sha_schedule n (tl w @ [sha_small1 (w ! 14) + w ! 9 + sha_small0 (w ! 1) + w ! 0])"

fun sha_round :: "u32 list \<Rightarrow> u32 \<times> u32 \<Rightarrow> u32 list" where
  "sha_round [a, b, c, d, e, f, g, h] (k, w) =
     (let t1 = h + sha_big1 e + sha_ch e f g + k + w;
          t2 = sha_big0 a + sha_maj a b c
      in [t1 + t2, a, b, c, d + t1, e, f, g])"
| "sha_round v kw = v"

definition sha_block :: "u32 list \<Rightarrow> u32 list \<Rightarrow> u32 list" where
  "sha_block h w = map2 (+) h (foldl sha_round h (zip sha_k (sha_schedule 64 w)))"

definition be32 :: "bytes \<Rightarrow> u32" where
  "be32 s = foldl (\<lambda>acc c. push_bit 8 acc OR of_char c) 0 s"

fun words_of :: "bytes \<Rightarrow> u32 list" where
  "words_of (a # b # c # d # s) = be32 [a, b, c, d] # words_of s"
| "words_of s = []"

fun blocks_of :: "u32 list \<Rightarrow> u32 list list" where
  "blocks_of w = (if length w < 16 then [] else take 16 w # blocks_of (drop 16 w))"

declare blocks_of.simps [simp del]

definition be_bytes :: "nat \<Rightarrow> int \<Rightarrow> bytes" where
  "be_bytes k n = map (\<lambda>i. char_of ((n div 256 ^ i) mod 256)) (rev [0..<k])"

definition sha_pad :: "bytes \<Rightarrow> bytes" where
  "sha_pad m =
     m @ [char_of (128 :: int)] @ replicate ((119 - length m mod 64) mod 64) (char_of (0 :: int))
       @ be_bytes 8 (8 * int (length m))"

definition sha256 :: "bytes \<Rightarrow> bytes" where
  "sha256 m = concat (map (\<lambda>w. be_bytes 4 (uint w)) (foldl sha_block sha_init (blocks_of (words_of (sha_pad m)))))"

section \<open>HMAC\<close>

definition xor_byte :: "int \<Rightarrow> char \<Rightarrow> char" where
  "xor_byte b c = char_of (of_char c XOR b)"

definition hmac_key :: "bytes \<Rightarrow> bytes" where
  "hmac_key k =
     (let k0 = (if 64 < length k then sha256 k else k)
      in k0 @ replicate (64 - length k0) (char_of (0 :: int)))"

definition hmac_sha256 :: "bytes \<Rightarrow> bytes \<Rightarrow> bytes" where
  "hmac_sha256 k m =
     sha256 (map (xor_byte 92) (hmac_key k) @ sha256 (map (xor_byte 54) (hmac_key k) @ m))"

section \<open>Hexadecimal\<close>

definition hex_digit :: "int \<Rightarrow> char" where
  "hex_digit d = (if d < 10 then char_of (48 + d) else char_of (87 + d))"

definition hex_byte :: "char \<Rightarrow> string" where
  "hex_byte c = [hex_digit (of_char c div 16), hex_digit (of_char c mod 16)]"

definition hex_encode :: "bytes \<Rightarrow> string" where
  "hex_encode s = concat (map hex_byte s)"

section \<open>Shape of the results\<close>

lemma length_be_bytes [simp]: "length (be_bytes k n) = k"
  by (simp add: be_bytes_def)

lemma length_sha_round [simp]: "length (sha_round v kw) = length v"
  by (cases "(v, kw)" rule: sha_round.cases) (simp_all add: Let_def)

lemma length_foldl_sha_round [simp]: "length (foldl sha_round v kws) = length v"
  by (induction kws arbitrary: v) simp_all

lemma length_sha_block [simp]: "length (sha_block v w) = length v"
  by (simp add: sha_block_def)

lemma length_foldl_sha_block [simp]: "length (foldl sha_block v ws) = length v"
  by (induction ws arbitrary: v) simp_all

lemma length_sha256 [simp]: "length (sha256 m) = 32"
proof -
  have "length (concat (map (\<lambda>w. be_bytes 4 (uint w)) ws)) = 4 * length ws" for ws :: "u32 list"
    by (induction ws) simp_all
  then show ?thesis by (simp add: sha256_def sha_init_def)
qed

lemma length_hmac_sha256 [simp]: "length (hmac_sha256 k m) = 32"
  by (simp add: hmac_sha256_def)

definition is_hex :: "char \<Rightarrow> bool" where
  "is_hex c \<longleftrightarrow> (48 \<le> (of_char c :: int) \<and> (of_char c :: int) \<le> 57)
     \<or> (97 \<le> (of_char c :: int) \<and> (of_char c :: int) \<le> 102)"

lemma of_char_hex_digit:
  "0 \<le> d \<Longrightarrow> d < 16 \<Longrightarrow> (of_char (hex_digit d) :: int) = (if d < 10 then 48 + d else 87 + d)"
  by (simp add: hex_digit_def)

lemma hex_digit_is_hex: "0 \<le> d \<Longrightarrow> d < 16 \<Longrightarrow> is_hex (hex_digit d)"
  unfolding is_hex_def by (simp add: of_char_hex_digit)

lemma of_char_int_bounds: "0 \<le> (of_char c :: int) \<and> (of_char c :: int) < 256"
proof -
  have "(of_char c :: int) = int (of_char c)" by (cases c) simp
  with nat_of_char_less_256 [of c] show ?thesis by linarith
qed

lemma length_hex_encode [simp]: "length (hex_encode s) = 2 * length s"
  by (induction s) (simp_all add: hex_encode_def hex_byte_def)

lemma hex_encode_is_hex: "list_all is_hex (hex_encode s)"
proof (induction s)
  case (Cons c s)
  from of_char_int_bounds [of c] have "is_hex (hex_digit (of_char c div 16))" "is_hex (hex_digit (of_char c mod 16))"
    by (auto intro!: hex_digit_is_hex)
  with Cons show ?case by (simp add: hex_encode_def hex_byte_def)
qed (simp add: hex_encode_def)

text \<open>Hexadecimal loses nothing.\<close>

lemma hex_digit_inj:
  assumes "0 \<le> d" "d < 16" "0 \<le> e" "e < 16" "hex_digit d = hex_digit e"
  shows "d = e"
proof -
  have "(if d < 10 then 48 + d else 87 + d) = (if e < 10 then 48 + e else 87 + e)"
    using of_char_hex_digit [of d] of_char_hex_digit [of e] assms by metis
  with assms(1-4) show ?thesis by (simp split: if_splits)
qed

lemma hex_byte_inj: "hex_byte c = hex_byte d \<Longrightarrow> c = d"
proof -
  assume "hex_byte c = hex_byte d"
  then have "(of_char c :: int) div 16 = of_char d div 16" "(of_char c :: int) mod 16 = of_char d mod 16"
    using of_char_int_bounds [of c] of_char_int_bounds [of d]
    by (auto simp: hex_byte_def intro!: hex_digit_inj)
  then have "(of_char c :: int) = of_char d" by (metis div_mult_mod_eq)
  then show ?thesis by simp
qed

lemma hex_encode_inj: "hex_encode s = hex_encode t \<Longrightarrow> s = t"
proof (induction s arbitrary: t)
  case Nil
  then show ?case by (cases t) (simp_all add: hex_encode_def hex_byte_def)
next
  case (Cons c s)
  then obtain d t' where t: "t = d # t'" by (cases t) (simp_all add: hex_encode_def hex_byte_def)
  with Cons.prems have "hex_byte c = hex_byte d" "hex_encode s = hex_encode t'"
    by (auto simp: hex_encode_def hex_byte_def)
  with Cons.IH t hex_byte_inj show ?case by blast
qed

end
