(* ===== verification/Features.thy ===== *)
theory Features
  imports GoFloat GoTime GoCrypto
begin

text \<open>
  The derived features and random identifiers of internal/processor/anonymizer.go: amount tiers,
  geohash zones, bucketed timestamps and UUIDv4 signal ids.
\<close>

section \<open>Amount tiers\<close>

definition TierBoundary1 :: f64 where "TierBoundary1 = Fin 500"
definition TierBoundary2 :: f64 where "TierBoundary2 = Fin 2500"
definition TierBoundary3 :: f64 where "TierBoundary3 = Fin 10000"

definition MapToTier :: "f64 \<Rightarrow> string" where
  "MapToTier amount =
     (if fle amount TierBoundary1 then ''TIER_1''
      else if fle amount TierBoundary2 then ''TIER_2''
      else if fle amount TierBoundary3 then ''TIER_3''
      else ''TIER_4'')"

section \<open>Geohash\<close>

definition base32 :: string where
  "base32 = ''0123456789bcdefghjkmnpqrstuvwxyz''"

text \<open>The variables of the loop of \<^verbatim>\<open>Geohash\<close>.\<close>

record geo =
  minLat :: f64
  maxLat :: f64
  minLon :: f64
  maxLon :: f64
  isEven :: bool
  bit_no :: nat
  ch :: int
  hash :: string

definition geo_start :: geo where
  "geo_start = \<lparr>minLat = Fin (- 90), maxLat = Fin 90, minLon = Fin (- 180), maxLon = Fin 180,
     isEven = True, bit_no = 0, ch = 0, hash = []\<rparr>"

text \<open>\<^verbatim>\<open>(a + b) / 2\<close> in floating point.\<close>

definition fmid :: "f64 \<Rightarrow> f64 \<Rightarrow> f64" where
  "fmid a b = fdiv_fin (fadd a b) 2"

definition geo_bisect :: "f64 \<Rightarrow> f64 \<Rightarrow> geo \<Rightarrow> geo" where
  "geo_bisect lat lon g =
     (if isEven g then
        (let mid = fmid (minLon g) (maxLon g)
         in if fle mid lon then g\<lparr>ch := or (ch g) (push_bit (4 - bit_no g) 1), minLon := mid\<rparr>
            else g\<lparr>maxLon := mid\<rparr>)
      else
        (let mid = fmid (minLat g) (maxLat g)
         in if fle mid lat then g\<lparr>ch := or (ch g) (push_bit (4 - bit_no g) 1), minLat := mid\<rparr>
            else g\<lparr>maxLat := mid\<rparr>))"

definition geo_flush :: "geo \<Rightarrow> geo" where
  "geo_flush g =
     (if bit_no g = 5 then g\<lparr>hash := hash g @ [base32 ! nat (ch g)], bit_no := 0, ch := 0\<rparr> else g)"

definition geo_step :: "f64 \<Rightarrow> f64 \<Rightarrow> geo \<Rightarrow> geo" where
  "geo_step lat lon g =
     (let g1 = geo_bisect lat lon g
      in geo_flush (g1\<lparr>isEven := \<not> isEven g1, bit_no := bit_no g1 + 1\<rparr>))"

fun geo_loop :: "nat \<Rightarrow> nat \<Rightarrow> f64 \<Rightarrow> f64 \<Rightarrow> geo \<Rightarrow> geo" where
  "geo_loop 0 precision lat lon g = g"
| "geo_loop (Suc fuel) precision lat lon g =
     (if length (hash g) < precision then geo_loop fuel precision lat lon (geo_step lat lon g) else g)"

definition geo_in_range :: "f64 \<Rightarrow> f64 \<Rightarrow> bool" where
  "geo_in_range lat lon \<longleftrightarrow>
     \<not> (is_nan lat \<or> is_nan lon \<or> flt lat (Fin (- 90)) \<or> flt (Fin 90) lat
        \<or> flt lon (Fin (- 180)) \<or> flt (Fin 180) lon)"

definition Geohash :: "f64 \<Rightarrow> f64 \<Rightarrow> int \<Rightarrow> string" where
  "Geohash lat lon precision =
     (if precision \<le> 0 \<or> \<not> geo_in_range lat lon then ''ZONE_UNKNOWN''
      else hash (geo_loop (5 * nat precision) (nat precision) lat lon geo_start))"

section \<open>Timestamp buckets\<close>

text \<open>\<^verbatim>\<open>15 * time.Minute\<close> in nanoseconds.\<close>

definition BucketWidth :: int where
  "BucketWidth = 15 * 60 * nanosecond_second"

definition BucketTimestamp :: "bytes \<Rightarrow> string" where
  "BucketTimestamp ts =
     (case parse_rfc3339nano ts of
        None \<Rightarrow> ''TIME_UNKNOWN''
      | Some t \<Rightarrow> format_rfc3339 (truncate_to BucketWidth t))"

section \<open>Random signal ids\<close>

text \<open>
  \<open>read\<close> is the outcome of \<^verbatim>\<open>rand.Read\<close> on a 16-byte array: an error, or the bytes.
\<close>

definition set_version :: "bytes \<Rightarrow> bytes" where
  "set_version b =
     (let b6 = b[6 := char_of (or (and (of_char (b ! 6) :: int) 0x0f) 0x40)]
      in b6[8 := char_of (or (and (of_char (b6 ! 8) :: int) 0x3f) 0x80)])"

definition slice :: "nat \<Rightarrow> nat \<Rightarrow> 'a list \<Rightarrow> 'a list" where
  "slice i j xs = take (j - i) (drop i xs)"

definition newSignalIDFrom :: "goerr + bytes \<Rightarrow> goerr + string" where
  "newSignalIDFrom read =
     (case read of
        Inl e \<Rightarrow> Inl (Wrapf ''processor: failed to read random bytes for signal_id'' e)
      | Inr b0 \<Rightarrow>
          (let b = set_version b0
           in Inr (str_join ''-'' [hex_encode (slice 0 4 b), hex_encode (slice 4 6 b),
                hex_encode (slice 6 8 b), hex_encode (slice 8 10 b), hex_encode (slice 10 16 b)])))"

section \<open>Geohash against the grid\<close>

definition grid_cell :: "rat \<Rightarrow> rat \<Rightarrow> nat \<Rightarrow> rat \<Rightarrow> int" where
  "grid_cell lo w j x = min (2 ^ j - 1) \<lfloor>(x - lo) * 2 ^ j / w\<rfloor>"

definition grid_bit :: "rat \<Rightarrow> rat \<Rightarrow> nat \<Rightarrow> int" where
  "grid_bit lat lon k =
     (if even k then grid_cell (- 180) 360 (k div 2 + 1) lon
      else grid_cell (- 90) 180 (k div 2 + 1) lat) mod 2"

definition grid_digit :: "rat \<Rightarrow> rat \<Rightarrow> nat \<Rightarrow> nat \<Rightarrow> int" where
  "grid_digit lat lon a b = foldl (\<lambda>v k. 2 * v + grid_bit lat lon k) 0 [a..<b]"

definition grid_hash :: "rat \<Rightarrow> rat \<Rightarrow> nat \<Rightarrow> string" where
  "grid_hash lat lon p = map (\<lambda>i. base32 ! nat (grid_digit lat lon (5 * i) (5 * i + 5))) [0..<p]"

lemma two_mul_floor: "\<lfloor>2 * (r :: rat)\<rfloor> = 2 * \<lfloor>r\<rfloor> + (if of_int (2 * \<lfloor>r\<rfloor> + 1) \<le> 2 * r then 1 else 0)"
proof -
  have "of_int \<lfloor>r\<rfloor> \<le> r" "r < of_int \<lfloor>r\<rfloor> + 1" by linarith+
  then show ?thesis by (auto intro!: floor_eq4 split: if_splits) linarith+
qed

lemma grid_cell_bounds:
  assumes "0 < w" "lo \<le> x"
  shows "0 \<le> grid_cell lo w j x" "grid_cell lo w j x < 2 ^ j"
  using assms by (auto simp: grid_cell_def)

lemma grid_cell_Suc:
  assumes w: "0 < w" and x: "lo \<le> x" "x \<le> lo + w"
  shows "grid_cell lo w (Suc j) x =
    2 * grid_cell lo w j x + (if lo + w * of_int (2 * grid_cell lo w j x + 1) / 2 ^ Suc j \<le> x then 1 else 0)"
proof -
  define r where "r = (x - lo) * 2 ^ j / w"
  have r: "(x - lo) * 2 ^ Suc j / w = 2 * r" by (simp add: r_def)
  have le: "lo + w * c / 2 ^ Suc j \<le> x \<longleftrightarrow> c \<le> 2 * r" for c
    using w by (simp add: r_def field_simps)
  have r0: "0 \<le> r" using w x by (simp add: r_def)
  have "(x - lo) * 2 ^ j \<le> w * 2 ^ j" using x by (intro mult_right_mono) auto
  then have r1: "r \<le> 2 ^ j" using w by (simp add: r_def pos_divide_le_eq mult.commute)
  show ?thesis
  proof (cases "r = 2 ^ j")
    case True
    then have "\<lfloor>r\<rfloor> = 2 ^ j" "\<lfloor>2 * r\<rfloor> = 2 ^ Suc j" by (simp_all add: floor_eq_iff)
    then show ?thesis unfolding grid_cell_def r le r_def [symmetric] by (simp add: True)
  next
    case False
    with r1 have "r < 2 ^ j" by simp
    then have "\<lfloor>r\<rfloor> < 2 ^ j" by (simp add: floor_less_iff)
    moreover from \<open>r < 2 ^ j\<close> have "\<lfloor>2 * r\<rfloor> < 2 ^ Suc j" by (simp add: floor_less_iff)
    ultimately have "min (2 ^ j - 1) \<lfloor>r\<rfloor> = \<lfloor>r\<rfloor>" "min (2 ^ Suc j - 1) \<lfloor>2 * r\<rfloor> = \<lfloor>2 * r\<rfloor>" by linarith+
    then show ?thesis unfolding grid_cell_def r le r_def [symmetric] by (simp add: two_mul_floor)
  qed
qed

lemma grid_cell_0: "0 < w \<Longrightarrow> lo \<le> x \<Longrightarrow> grid_cell lo w 0 x = 0"
  using grid_cell_bounds [of w lo x 0] by simp

lemma grid_cell_encloses:
  assumes w: "0 < w" and x: "lo \<le> x" "x \<le> lo + w"
  shows "lo + w * of_int (grid_cell lo w j x) / 2 ^ j \<le> x"
    "x \<le> lo + w * of_int (grid_cell lo w j x + 1) / 2 ^ j"
proof -
  define r where "r = (x - lo) * 2 ^ j / w"
  have x': "x = lo + w * r / 2 ^ j" using w by (simp add: r_def)
  have "(x - lo) * 2 ^ j \<le> w * 2 ^ j" using x by (intro mult_right_mono) auto
  then have r1: "r \<le> 2 ^ j" using w by (simp add: r_def pos_divide_le_eq mult.commute)
  have c: "grid_cell lo w j x = min (2 ^ j - 1) \<lfloor>r\<rfloor>" by (simp add: grid_cell_def r_def)
  have "of_int (min (2 ^ j - 1) \<lfloor>r\<rfloor>) \<le> r" by linarith
  then show "lo + w * of_int (grid_cell lo w j x) / 2 ^ j \<le> x"
    unfolding c by (subst x') (use w in \<open>simp add: divide_right_mono\<close>)
  have "r \<le> of_int (\<lfloor>r\<rfloor> + 1)" by linarith
  with r1 have "r \<le> of_int (min (2 ^ j - 1) \<lfloor>r\<rfloor> + 1)" by (simp add: min_def)
  then show "x \<le> lo + w * of_int (grid_cell lo w j x + 1) / 2 ^ j"
    unfolding c by (subst x') (use w in \<open>simp add: divide_right_mono\<close>)
qed

text \<open>The edges of the cells as floating-point numbers; bisection is exact while they have few bits.\<close>

definition grid_edge :: "int \<Rightarrow> int \<Rightarrow> nat \<Rightarrow> int \<Rightarrow> f64" where
  "grid_edge lo w j c = Fin (of_int lo + of_int w * of_int c / 2 ^ j)"

lemma fmid_edges:
  assumes c: "0 \<le> c" "c < 2 ^ j" and j: "j \<le> 43" and lo: "- 180 \<le> lo" "lo \<le> 0" and w: "0 < w" "w \<le> 360"
  shows "fmid (grid_edge lo w j c) (grid_edge lo w j (c + 1)) = grid_edge lo w (Suc j) (2 * c + 1)"
proof -
  let ?a = "of_int lo + of_int w * of_int c / 2 ^ j :: rat" and ?b = "of_int lo + of_int w * of_int (c + 1) / 2 ^ j :: rat"
  define m where "m = 2 * lo * 2 ^ j + w * (2 * c + 1)"
  have pow: "(2 :: int) ^ j \<le> 2 ^ 43" using j by (intro power_increasing) auto
  have "w * (2 * c + 1) \<le> 360 * (2 * 2 ^ j)"
    using c w by (intro mult_mono) auto
  moreover have "0 \<le> w * (2 * c + 1)" using c w by simp
  moreover have "- 360 * 2 ^ j \<le> 2 * lo * 2 ^ j" using lo by (intro mult_right_mono) auto
  moreover have "2 * lo * 2 ^ j \<le> 0" using lo by (simp add: mult_le_0_iff)
  ultimately have m: "\<bar>m\<bar> < 2 ^ 53"
    unfolding m_def using pow by simp
  have s: "?a + ?b = of_int m / 2 ^ j" by (simp add: m_def field_simps)
  have h: "of_int m / 2 ^ j / 2 = (of_int m / 2 ^ Suc j :: rat)" by simp
  have "fround (of_int m / 2 ^ j) = Fin (of_int m / 2 ^ j)"
    using j by (intro fround_exact [OF refl m]) simp
  moreover have "fround (of_int m / 2 ^ Suc j) = Fin (of_int m / 2 ^ Suc j)"
    using j by (intro fround_exact [OF refl m]) simp
  moreover have "of_int m / 2 ^ Suc j = (of_int lo + of_int w * of_int (2 * c + 1) / 2 ^ Suc j :: rat)"
    by (simp add: m_def field_simps)
  ultimately show ?thesis unfolding fmid_def grid_edge_def fadd.simps s by (simp only: fdiv_fin.simps h)
qed

lemma edge_refine:
  "grid_edge lo w (Suc j) (2 * c) = grid_edge lo w j c"
  "grid_edge lo w (Suc j) (2 + 2 * c) = grid_edge lo w j (c + 1)"
  by (simp_all add: grid_edge_def field_simps)

definition edge_bit :: "int \<Rightarrow> int \<Rightarrow> nat \<Rightarrow> rat \<Rightarrow> int" where
  "edge_bit lo w j x =
     (if fle (grid_edge lo w (Suc j) (2 * grid_cell (of_int lo) (of_int w) j x + 1)) (Fin x) then 1 else 0)"

lemma cell_Suc_edge:
  assumes w: "0 < w" and x: "of_int lo \<le> x" "x \<le> of_int lo + of_int w"
  shows "grid_cell (of_int lo) (of_int w) (Suc j) x = 2 * grid_cell (of_int lo) (of_int w) j x + edge_bit lo w j x"
  using grid_cell_Suc [of "of_int w" "of_int lo" x j] assms by (simp add: edge_bit_def grid_edge_def)

lemma or_push_bit_digit:
  assumes "b < 5"
  shows "or (2 ^ (4 - b) * (2 * v)) (2 ^ (4 - b)) = (2 ^ (4 - b) * (2 * v + 1) :: int)"
proof -
  have "or (2 ^ (4 - b) * (2 * v)) (2 ^ (4 - b)) = push_bit (4 - b) (or (2 * v) 1)"
    unfolding push_bit_or by (simp add: push_bit_eq_mult ac_simps)
  also have "or (2 * v) 1 = 2 * v + 1" by (simp add: or_one_eq)
  finally show ?thesis by (simp add: push_bit_eq_mult)
qed

text \<open>The variables of the loop after \<open>n\<close> bisections.\<close>

definition lon_cell :: "nat \<Rightarrow> rat \<Rightarrow> int" where
  "lon_cell j x = grid_cell (- 180) 360 j x"

definition lat_cell :: "nat \<Rightarrow> rat \<Rightarrow> int" where
  "lat_cell j x = grid_cell (- 90) 180 j x"

definition geo_state :: "rat \<Rightarrow> rat \<Rightarrow> nat \<Rightarrow> nat \<Rightarrow> nat \<Rightarrow> geo" where
  "geo_state lat lon n b k =
     (let i = (n + 1) div 2; j = n div 2; x = lon_cell i lon; y = lat_cell j lat
      in \<lparr>minLat = grid_edge (- 90) 180 j y, maxLat = grid_edge (- 90) 180 j (y + 1),
          minLon = grid_edge (- 180) 360 i x, maxLon = grid_edge (- 180) 360 i (x + 1),
          isEven = even n, bit_no = b, ch = 2 ^ (5 - b) * grid_digit lat lon (5 * k) n,
          hash = grid_hash lat lon k\<rparr>)"

lemma geo_state_0: "- 90 \<le> lat \<Longrightarrow> - 180 \<le> lon \<Longrightarrow> geo_state lat lon 0 0 0 = geo_start"
  by (simp add: geo_state_def geo_start_def grid_cell_0 grid_digit_def grid_hash_def lon_cell_def
      lat_cell_def grid_edge_def)

lemma grid_digit_Suc: "a \<le> b \<Longrightarrow> grid_digit lat lon a (Suc b) = 2 * grid_digit lat lon a b + grid_bit lat lon b"
  by (simp add: grid_digit_def)

lemma grid_hash_Suc:
  "grid_hash lat lon (Suc k) = grid_hash lat lon k @ [base32 ! nat (grid_digit lat lon (5 * k) (5 * k + 5))]"
  by (simp add: grid_hash_def)

definition in_box :: "rat \<Rightarrow> rat \<Rightarrow> bool" where
  "in_box lat lon \<longleftrightarrow> - 90 \<le> lat \<and> lat \<le> 90 \<and> - 180 \<le> lon \<and> lon \<le> 180"

lemma lon_cell_facts:
  assumes "in_box lat lon"
  shows "0 \<le> lon_cell i lon" "lon_cell i lon < 2 ^ i"
    and "lon_cell (Suc i) lon = 2 * lon_cell i lon + edge_bit (- 180) 360 i lon"
    and "edge_bit (- 180) 360 i lon =
      (if fle (grid_edge (- 180) 360 (Suc i) (2 * lon_cell i lon + 1)) (Fin lon) then 1 else 0)"
  using assms grid_cell_bounds [of 360 "- 180" lon i] cell_Suc_edge [of 360 "- 180" lon i]
  by (auto simp: lon_cell_def in_box_def edge_bit_def)

lemma lat_cell_facts:
  assumes "in_box lat lon"
  shows "0 \<le> lat_cell i lat" "lat_cell i lat < 2 ^ i"
    and "lat_cell (Suc i) lat = 2 * lat_cell i lat + edge_bit (- 90) 180 i lat"
    and "edge_bit (- 90) 180 i lat =
      (if fle (grid_edge (- 90) 180 (Suc i) (2 * lat_cell i lat + 1)) (Fin lat) then 1 else 0)"
  using assms grid_cell_bounds [of 180 "- 90" lat i] cell_Suc_edge [of 180 "- 90" lat i]
  by (auto simp: lat_cell_def in_box_def edge_bit_def)

lemma geo_bisect_state:
  assumes box: "in_box lat lon" and n: "n < 86" and b: "b < 5" and nk: "n = 5 * k + b"
  shows "geo_bisect (Fin lat) (Fin lon) (geo_state lat lon n b k) =
    (geo_state lat lon (Suc n) b k)\<lparr>isEven := even n,
        ch := 2 ^ (4 - b) * grid_digit lat lon (5 * k) (Suc n)\<rparr>"
proof -
  have digit: "grid_digit lat lon (5 * k) (Suc n) = 2 * grid_digit lat lon (5 * k) n + grid_bit lat lon n"
    using nk by (intro grid_digit_Suc) simp
  have p5: "(2 :: int) ^ (5 - b) * v = 2 ^ (4 - b) * (2 * v)" for v
  proof -
    have "5 - b = Suc (4 - b)" using b by simp
    then show ?thesis by simp
  qed
  note lon = lon_cell_facts [OF box] and lat = lat_cell_facts [OF box]
  show ?thesis
  proof (cases "even n")
    case True
    then obtain i where i: "n = 2 * i" by (rule evenE)
    have d: "(n + 1) div 2 = i" "n div 2 = i" "(Suc n + 1) div 2 = Suc i" "Suc n div 2 = i" using i by auto
    have gb: "grid_bit lat lon n = edge_bit (- 180) 360 i lon"
      using i lon(3) [of i] by (simp add: grid_bit_def edge_bit_def lon_cell_def)
    have mid: "fmid (grid_edge (- 180) 360 i (lon_cell i lon)) (grid_edge (- 180) 360 i (lon_cell i lon + 1))
      = grid_edge (- 180) 360 (Suc i) (2 * lon_cell i lon + 1)"
      using lon(1,2) [of i] n i by (intro fmid_edges) auto
    show ?thesis
      unfolding geo_bisect_def geo_state_def Let_def d digit gb p5
      by (simp add: True mid lon(3,4) or_push_bit_digit b edge_refine)
  next
    case False
    then obtain i where i: "n = 2 * i + 1" by (rule oddE)
    have d: "(n + 1) div 2 = Suc i" "n div 2 = i" "(Suc n + 1) div 2 = Suc i" "Suc n div 2 = Suc i" using i by auto
    have gb: "grid_bit lat lon n = edge_bit (- 90) 180 i lat"
      using i lat(3) [of i] by (simp add: grid_bit_def edge_bit_def lat_cell_def)
    have mid: "fmid (grid_edge (- 90) 180 i (lat_cell i lat)) (grid_edge (- 90) 180 i (lat_cell i lat + 1))
      = grid_edge (- 90) 180 (Suc i) (2 * lat_cell i lat + 1)"
      using lat(1,2) [of i] n i by (intro fmid_edges) auto
    show ?thesis
      unfolding geo_bisect_def geo_state_def Let_def d digit gb p5
      by (simp add: False mid lat(3,4) or_push_bit_digit b edge_refine)
  qed
qed

lemma geo_flush_state:
  "geo_flush (geo_state lat lon n b k) =
     (if b = 5 then geo_state lat lon n b k\<lparr>hash := grid_hash lat lon k @ [base32 ! nat (grid_digit lat lon (5 * k) n)],
        bit_no := 0, ch := 0\<rparr> else geo_state lat lon n b k)"
  by (simp add: geo_flush_def geo_state_def Let_def)

lemma geo_state_next:
  "geo_state lat lon (5 * k + 5) b k\<lparr>hash := grid_hash lat lon k @ [base32 ! nat (grid_digit lat lon (5 * k) (5 * k + 5))],
        bit_no := 0, ch := 0\<rparr> = geo_state lat lon (5 * k + 5) 0 (Suc k)"
  unfolding geo_state_def Let_def grid_hash_Suc by (simp add: grid_digit_def)

lemma geo_step_state:
  assumes box: "in_box lat lon" and n: "n < 86" and b: "b < 5" and nk: "n = 5 * k + b"
  shows "geo_step (Fin lat) (Fin lon) (geo_state lat lon n b k) =
    (if b = 4 then geo_state lat lon (Suc n) 0 (Suc k) else geo_state lat lon (Suc n) (Suc b) k)"
proof -
  have s: "isEven (geo_state lat lon m b k) = even m" "bit_no (geo_state lat lon m b k) = b" for m
    by (simp_all add: geo_state_def Let_def)
  let ?g = "geo_bisect (Fin lat) (Fin lon) (geo_state lat lon n b k)"
  have e: "5 - Suc b = 4 - b" by simp
  have "?g\<lparr>isEven := \<not> isEven ?g, bit_no := bit_no ?g + 1\<rparr> = geo_state lat lon (Suc n) (Suc b) k"
    unfolding geo_bisect_state [OF assms]
    using e by (simp add: geo_state_def Let_def)
  then have "geo_step (Fin lat) (Fin lon) (geo_state lat lon n b k) = geo_flush (geo_state lat lon (Suc n) (Suc b) k)"
    by (simp add: geo_step_def Let_def)
  also have "\<dots> = (if b = 4 then geo_state lat lon (Suc n) 0 (Suc k) else geo_state lat lon (Suc n) (Suc b) k)"
  proof (cases "b = 4")
    case True
    with nk have "Suc n = 5 * k + 5" by simp
    then show ?thesis unfolding geo_flush_state True \<open>Suc n = 5 * k + 5\<close> by (simp add: geo_state_next del: One_nat_def)
  qed (simp add: geo_flush_state)
  finally show ?thesis .
qed

lemma geo_loop_state:
  assumes box: "in_box lat lon" and p: "p \<le> 17" and b: "b < 5" and le: "k < p \<or> k = p \<and> b = 0"
    and f: "f = 5 * (p - k) - b"
  shows "geo_loop f p (Fin lat) (Fin lon) (geo_state lat lon (5 * k + b) b k) = geo_state lat lon (5 * p) 0 p"
  using b le f
proof (induction f arbitrary: b k)
  case 0
  then have "k = p" "b = 0" by auto
  then show ?case by simp
next
  case (Suc f)
  then have k: "k < p" by auto
  then have n: "5 * k + b < 86" using p Suc.prems by linarith
  have len: "length (hash (geo_state lat lon (5 * k + b) b k)) < p"
    using k by (simp add: geo_state_def Let_def grid_hash_def)
  show ?case
  proof (cases "b = 4")
    case True
    have "f = 5 * (p - Suc k) - 0" "Suc k < p \<or> Suc k = p \<and> (0 :: nat) = 0" using True Suc.prems k by auto
    then have "geo_loop f p (Fin lat) (Fin lon) (geo_state lat lon (5 * Suc k) 0 (Suc k))
      = geo_state lat lon (5 * p) 0 p" using Suc.IH [of 0 "Suc k"] by simp
    moreover have "Suc (5 * k + b) = 5 * Suc k" using True by simp
    ultimately show ?thesis using geo_step_state [OF box n Suc.prems(1) refl] len True by simp
  next
    case False
    then have "geo_loop f p (Fin lat) (Fin lon) (geo_state lat lon (5 * k + Suc b) (Suc b) k) = geo_state lat lon (5 * p) 0 p"
      using Suc k by (intro Suc.IH) auto
    then show ?thesis using geo_step_state [OF box n Suc.prems(1) refl] len False by simp
  qed
qed

lemma geo_in_range_iff: "geo_in_range lat lon \<longleftrightarrow> (\<exists>x y. lat = Fin x \<and> lon = Fin y \<and> in_box x y)"
  by (cases lat; cases lon) (auto simp: geo_in_range_def in_box_def is_nan_def)

lemma Geohash_grid:
  assumes "in_box lat lon" "0 < p" "p \<le> 17"
  shows "Geohash (Fin lat) (Fin lon) (int p) = grid_hash lat lon p"
  using geo_loop_state [OF assms(1,3), of 0 0 "5 * p"] assms geo_state_0 [of lat lon]
  by (auto simp: Geohash_def geo_in_range_iff) (simp add: geo_state_def Let_def in_box_def)


subsection \<open>What a geohash discloses\<close>

lemma grid_bit_01: "grid_bit lat lon k = 0 \<or> grid_bit lat lon k = 1"
  unfolding grid_bit_def by presburger

lemma grid_digit_bounds: "a \<le> b \<Longrightarrow> 0 \<le> grid_digit lat lon a b \<and> grid_digit lat lon a b < 2 ^ (b - a)"
proof (induction b)
  case (Suc b)
  show ?case
  proof (cases "a = Suc b")
    case False
    with Suc have "a \<le> b" and IH: "0 \<le> grid_digit lat lon a b" "grid_digit lat lon a b < 2 ^ (b - a)" by auto
    then show ?thesis using grid_bit_01 [of lat lon b] by (auto simp: grid_digit_Suc Suc_diff_le)
  qed (simp add: grid_digit_def)
qed (simp add: grid_digit_def)

lemma grid_digit_eqD:
  "grid_digit lat lon a b = grid_digit lat' lon' a b \<Longrightarrow> a \<le> k \<Longrightarrow> k < b \<Longrightarrow>
    grid_bit lat lon k = grid_bit lat' lon' k"
proof (induction b)
  case (Suc b)
  then have ab: "a \<le> b" by simp
  have two: "x = y \<and> u = v" if "2 * x + u = 2 * y + v" "u = 0 \<or> u = 1" "v = 0 \<or> v = 1" for x y u v :: int
    using that by presburger
  from two [OF Suc.prems(1) [unfolded grid_digit_Suc [OF ab]] grid_bit_01 grid_bit_01]
  have "grid_digit lat lon a b = grid_digit lat' lon' a b" "grid_bit lat lon b = grid_bit lat' lon' b" by auto
  with Suc show ?case by (cases "k = b") auto
qed simp

lemma base32_nth_eq: "i < 32 \<Longrightarrow> j < 32 \<Longrightarrow> base32 ! i = base32 ! j \<longleftrightarrow> i = j"
proof (rule nth_eq_iff_index_eq)
  show "distinct base32" unfolding base32_def by simp
qed (simp_all add: base32_def)

lemma grid_hash_bits:
  "grid_hash lat lon p = grid_hash lat' lon' p \<longleftrightarrow> (\<forall>k < 5 * p. grid_bit lat lon k = grid_bit lat' lon' k)"
proof
  assume h: "grid_hash lat lon p = grid_hash lat' lon' p"
  show "\<forall>k < 5 * p. grid_bit lat lon k = grid_bit lat' lon' k"
  proof (intro allI impI)
    fix k assume "k < 5 * p"
    then have i: "k div 5 < p" by linarith
    let ?i = "k div 5" let ?g = "\<lambda>lat lon. grid_digit lat lon (5 * ?i) (5 * ?i + 5)"
    from h have "grid_hash lat lon p ! ?i = grid_hash lat' lon' p ! ?i" by simp
    with i have eq: "base32 ! nat (?g lat lon) = base32 ! nat (?g lat' lon')" by (simp add: grid_hash_def)
    have b: "0 \<le> ?g lat lon \<and> ?g lat lon < 32" for lat lon
      using grid_digit_bounds [of "5 * ?i" "5 * ?i + 5" lat lon] by simp
    then have "nat (?g lat lon) < 32" for lat lon by (simp add: nat_less_iff)
    with eq have "nat (?g lat lon) = nat (?g lat' lon')" by (simp add: base32_nth_eq)
    with b have "?g lat lon = ?g lat' lon'" by (simp add: eq_nat_nat_iff)
    then show "grid_bit lat lon k = grid_bit lat' lon' k" by (rule grid_digit_eqD) simp_all
  qed
next
  assume b: "\<forall>k < 5 * p. grid_bit lat lon k = grid_bit lat' lon' k"
  show "grid_hash lat lon p = grid_hash lat' lon' p"
    unfolding grid_hash_def grid_digit_def
    by (intro map_cong refl arg_cong [of _ _ "\<lambda>v. base32 ! nat v"] foldl_cong) (use b in auto)
qed

lemma grid_cell_eq_iff:
  assumes "0 < w" "lo \<le> x" "x \<le> lo + w" "lo \<le> y" "y \<le> lo + w"
  shows "grid_cell lo w n x = grid_cell lo w n y \<longleftrightarrow>
    (\<forall>j < n. grid_cell lo w (Suc j) x mod 2 = grid_cell lo w (Suc j) y mod 2)"
proof (induction n)
  case 0
  with assms show ?case by (simp add: grid_cell_0)
next
  case (Suc n)
  have two: "2 * a + (if P then 1 else 0) = 2 * b + (if Q then 1 else 0) \<longleftrightarrow>
      a = b \<and> (2 * a + (if P then 1 else 0)) mod 2 = (2 * b + (if Q then 1 else 0)) mod 2"
    for a b :: int and P Q by (cases P; cases Q) (simp_all, presburger+)
  have "grid_cell lo w (Suc n) x = grid_cell lo w (Suc n) y \<longleftrightarrow> grid_cell lo w n x = grid_cell lo w n y \<and>
      grid_cell lo w (Suc n) x mod 2 = grid_cell lo w (Suc n) y mod 2"
    unfolding grid_cell_Suc [OF assms(1,2,3)] grid_cell_Suc [OF assms(1,4,5)] by (rule two)
  then show ?case by (simp add: Suc less_Suc_eq) blast
qed

lemma halves:
  fixes m :: nat
  shows "j < m div 2 \<longleftrightarrow> 2 * j + 1 < m" "j < (m + 1) div 2 \<longleftrightarrow> 2 * j < m"
  by linarith+

lemma grid_hash_cells:
  assumes "in_box lat lon" "in_box lat' lon'"
  shows "grid_hash lat lon p = grid_hash lat' lon' p \<longleftrightarrow>
    lat_cell (5 * p div 2) lat = lat_cell (5 * p div 2) lat' \<and>
    lon_cell ((5 * p + 1) div 2) lon = lon_cell ((5 * p + 1) div 2) lon'"
proof -
  let ?lat = "\<lambda>j x. grid_cell (- 90) 180 (Suc j) x mod 2" and ?lon = "\<lambda>j x. grid_cell (- 180) 360 (Suc j) x mod 2"
  have e: "grid_bit lat lon (2 * j) = ?lon j lon" and o: "grid_bit lat lon (2 * j + 1) = ?lat j lat" for lat lon j
  proof -
    have "(2 * j + 1) div 2 = j" "odd (2 * j + 1)" by simp_all
    then show "grid_bit lat lon (2 * j) = ?lon j lon" "grid_bit lat lon (2 * j + 1) = ?lat j lat"
      unfolding grid_bit_def by (simp_all only: if_True if_False nonzero_mult_div_cancel_left even_mult_iff
        even_numeral simp_thms zero_neq_numeral not_False_eq_True Suc_eq_plus1)
  qed
  have "(\<forall>k < 5 * p. grid_bit lat lon k = grid_bit lat' lon' k) \<longleftrightarrow>
    (\<forall>j < 5 * p div 2. ?lat j lat = ?lat j lat') \<and> (\<forall>j < (5 * p + 1) div 2. ?lon j lon = ?lon j lon')" (is "?L \<longleftrightarrow> ?R")
  proof
    assume L: ?L
    have "?lat j lat = ?lat j lat'" if "j < 5 * p div 2" for j
    proof -
      from that have "2 * j + 1 < 5 * p" by (simp only: halves)
      with L have "grid_bit lat lon (2 * j + 1) = grid_bit lat' lon' (2 * j + 1)" by simp
      then show ?thesis unfolding o .
    qed
    moreover have "?lon j lon = ?lon j lon'" if "j < (5 * p + 1) div 2" for j
    proof -
      from that have "2 * j < 5 * p" by (simp only: halves)
      with L have "grid_bit lat lon (2 * j) = grid_bit lat' lon' (2 * j)" by simp
      then show ?thesis unfolding e .
    qed
    ultimately show ?R by blast
  next
    assume R: ?R
    show ?L
    proof (intro allI impI)
      fix k assume k: "k < 5 * p"
      show "grid_bit lat lon k = grid_bit lat' lon' k"
      proof (cases "even k")
        case True
        then obtain j where j: "k = 2 * j" by (rule evenE)
        then have "j < (5 * p + 1) div 2" using k by (simp only: halves)
        with R have "?lon j lon = ?lon j lon'" by blast
        then show ?thesis unfolding j e .
      next
        case False
        then obtain j where j: "k = 2 * j + 1" by (rule oddE)
        then have "j < 5 * p div 2" using k by (simp only: halves)
        with R have "?lat j lat = ?lat j lat'" by blast
        then show ?thesis unfolding j o .
      qed
    qed
  qed
  with assms show ?thesis
    by (simp add: grid_hash_bits lat_cell_def lon_cell_def in_box_def grid_cell_eq_iff)
qed


section \<open>Size of a cell\<close>

lemma same_cell_close:
  assumes w: "0 < w" and x: "lo \<le> x" "x \<le> lo + w" and y: "lo \<le> y" "y \<le> lo + w"
    and eq: "grid_cell lo w j x = grid_cell lo w j y"
  shows "\<bar>x - y\<bar> \<le> w / 2 ^ j"
proof -
  have "lo + w * of_int (c + 1) / 2 ^ j = lo + w * of_int c / 2 ^ j + w / 2 ^ j" for c
    by (simp add: field_simps)
  then show ?thesis
    using grid_cell_encloses [OF w x, of j] grid_cell_encloses [OF w y, of j] unfolding eq by (simp only: abs_le_iff) linarith
qed

section \<open>Laws of the bucket\<close>

lemma BucketWidth_pos [simp]: "0 < BucketWidth"
  by (simp add: BucketWidth_def nanosecond_second_def)

lemma truncate_bucket: "truncate_to BucketWidth t = BucketWidth * (t div BucketWidth)"
proof -
  have "zero_time_sec * nanosecond_second = BucketWidth * 69039552"
    by (simp add: zero_time_sec_def nanosecond_second_def BucketWidth_def)
  then have "(t + zero_time_sec * nanosecond_second) mod BucketWidth = t mod BucketWidth" by simp
  then show ?thesis by (simp add: truncate_to_def minus_mod_eq_mult_div)
qed

definition bucket_of :: "instant \<Rightarrow> instant" where
  "bucket_of t = BucketWidth * (t div BucketWidth)"

lemma bucket_of_bounds: "bucket_of t \<le> t" "t < bucket_of t + BucketWidth" "bucket_of t mod BucketWidth = 0"
proof -
  have "bucket_of t + t mod BucketWidth = t" by (simp add: bucket_of_def)
  moreover have "0 \<le> t mod BucketWidth" "t mod BucketWidth < BucketWidth" by simp_all
  ultimately show "bucket_of t \<le> t" "t < bucket_of t + BucketWidth" by linarith+
qed (simp add: bucket_of_def)

lemma bucket_of_idem [simp]: "bucket_of (bucket_of t) = bucket_of t"
  by (simp add: bucket_of_def)

lemma bucket_whole_seconds: "bucket_of t mod nanosecond_second = 0"
proof -
  have "bucket_of t = nanosecond_second * (900 * (t div BucketWidth))"
    by (simp add: bucket_of_def BucketWidth_def)
  then show ?thesis by simp
qed

lemma BucketTimestamp_Some:
  "parse_rfc3339nano ts = Some t \<Longrightarrow> BucketTimestamp ts = format_rfc3339 (bucket_of t)"
  by (simp add: BucketTimestamp_def truncate_bucket bucket_of_def)

lemma parse_BucketTimestamp:
  assumes "parse_rfc3339nano ts = Some t" "four_digit_year (bucket_of t)"
  shows "parse_rfc3339nano (BucketTimestamp ts) = Some (bucket_of t)"
  unfolding BucketTimestamp_Some [OF assms(1)]
  by (rule parse_format_rfc3339 [OF bucket_whole_seconds assms(2)])

section \<open>Laws of the tier\<close>

definition tier_no :: "f64 \<Rightarrow> nat" where
  "tier_no a = (if fle a (Fin 500) then 1 else if fle a (Fin 2500) then 2 else if fle a (Fin 10000) then 3 else 4)"

lemma MapToTier_no: "MapToTier a = ''TIER_'' @ show_nat (tier_no a)"
proof -
  have "show_nat 1 = ''1''" "show_nat 2 = ''2''" "show_nat 3 = ''3''" "show_nat 4 = ''4''" by code_simp+
  then show ?thesis
    by (simp add: MapToTier_def tier_no_def TierBoundary1_def TierBoundary2_def TierBoundary3_def)
qed

lemma tier_no_mono: "fle a b \<Longrightarrow> tier_no a \<le> tier_no b"
  by (auto simp: tier_no_def dest: fle_trans)

section \<open>Laws of the signal id\<close>

lemma length_set_version [simp]: "length (set_version b) = length b"
  by (simp add: set_version_def Let_def)

definition uuid4_form :: "string \<Rightarrow> bool" where
  "uuid4_form s \<longleftrightarrow>
     length s = 36 \<and> s ! 8 = CHR ''-'' \<and> s ! 13 = CHR ''-'' \<and> s ! 18 = CHR ''-'' \<and> s ! 23 = CHR ''-''
     \<and> s ! 14 = CHR ''4'' \<and> s ! 19 \<in> {CHR ''8'', CHR ''9'', CHR ''a'', CHR ''b''}
     \<and> list_all (\<lambda>i. i \<in> {8, 13, 18, 23} \<or> is_hex (s ! i)) [0..<36]"

definition version_of :: "char \<Rightarrow> char" where
  "version_of c = char_of (or (and (of_char c :: int) 0x0f) 0x40)"

definition variant_of :: "char \<Rightarrow> char" where
  "variant_of c = char_of (or (and (of_char c :: int) 0x3f) 0x80)"

definition hi_digit :: "char \<Rightarrow> char" where "hi_digit c = hex_digit (of_char c div 16)"
definition lo_digit :: "char \<Rightarrow> char" where "lo_digit c = hex_digit (of_char c mod 16)"

lemma hex_encode_Nil: "hex_encode [] = []"
  by (simp add: hex_encode_def)

lemma hex_encode_Cons: "hex_encode (c # s) = hi_digit c # lo_digit c # hex_encode s"
  by (simp add: hex_encode_def hex_byte_def hi_digit_def lo_digit_def)

lemma digits_hex [simp]: "is_hex (hi_digit c)" "is_hex (lo_digit c)"
  using of_char_int_bounds [of c] by (auto simp: hi_digit_def lo_digit_def intro!: hex_digit_is_hex)

lemma hi_version: "hi_digit (version_of c) = CHR ''4''"
proof -
  have "list_all (\<lambda>x :: int. hex_digit (of_char (char_of (or (and x 0x0f) 0x40) :: char) div 16) = CHR ''4'') [0..255]"
    by code_simp
  with of_char_int_bounds [of c] show ?thesis
    unfolding list_all_iff hi_digit_def version_of_def by (simp only: set_upto atLeastAtMost_iff zle_diff1_eq [symmetric]) auto
qed

lemma hi_variant: "hi_digit (variant_of c) \<in> {CHR ''8'', CHR ''9'', CHR ''a'', CHR ''b''}"
proof -
  have "list_all (\<lambda>x :: int. hex_digit (of_char (char_of (or (and x 0x3f) 0x80) :: char) div 16)
      \<in> {CHR ''8'', CHR ''9'', CHR ''a'', CHR ''b''}) [0..255]"
    by code_simp
  with of_char_int_bounds [of c] show ?thesis
    unfolding list_all_iff hi_digit_def variant_of_def by (simp only: set_upto atLeastAtMost_iff zle_diff1_eq [symmetric]) auto
qed

lemma set_version_nth: "set_version b = (b[6 := version_of (b ! 6)])[8 := variant_of (b ! 8)]"
  by (simp add: set_version_def version_of_def variant_of_def Let_def)

lemma list_16:
  assumes "length (b :: 'a list) = 16"
  obtains b0 b1 b2 b3 b4 b5 b6 b7 b8 b9 c0 c1 c2 c3 c4 c5
  where "b = [b0, b1, b2, b3, b4, b5, b6, b7, b8, b9, c0, c1, c2, c3, c4, c5]"
  using assms by (auto simp: length_Suc_conv eval_nat_numeral)

lemma newSignalIDFrom_form:
  assumes "length b = 16"
  shows "\<exists>s. newSignalIDFrom (Inr b) = Inr s \<and> uuid4_form s"
proof -
  from assms obtain b0 b1 b2 b3 b4 b5 b6 b7 b8 b9 c0 c1 c2 c3 c4 c5
    where b: "b = [b0, b1, b2, b3, b4, b5, b6, b7, b8, b9, c0, c1, c2, c3, c4, c5]" by (rule list_16)
  have upt: "[0..<36] = [0, 1, 2, 3, 4, 5, 6, 7, 8, 9, 10, 11, 12, 13, 14, 15, 16, 17, 18, 19, 20, 21,
      22, 23, 24, 25, 26, 27, 28, 29, 30, 31, 32, 33, 34, 35]" by code_simp
  have hex4: "is_hex (CHR ''4'')" by code_simp
  show ?thesis
    using hi_variant [of b8]
    by (simp add: b newSignalIDFrom_def set_version_nth slice_def hex_encode_Cons hex_encode_Nil
        uuid4_form_def upt hi_version hex4)
qed


section \<open>Properties\<close>

text \<open>C35. \<^verbatim>\<open>Geohash\<close> computes the grid encoding it stands for: for coordinates in range and any
  precision up to 17 its bisection loop ends, rounds nowhere, and returns exactly the digits of the
  cell numbers \<open>floor((x - lo) * 2^j / width)\<close>, longitude and latitude bits interleaved.\<close>

theorem Geohash_is_grid_hash:
  assumes "in_box lat lon" "0 < p" "p \<le> 17"
  shows "Geohash (Fin lat) (Fin lon) (int p) = grid_hash lat lon p"
  using assms by (rule Geohash_grid)

lemma Geohash_is_grid_hash_witness:
  "Geohash (Fin (65244 / 10000)) (Fin (33792 / 10000)) (int 5) = ''s14mh''"
proof -
  have "Geohash (Fin (65244 / 10000)) (Fin (33792 / 10000)) (int 5) = grid_hash (65244 / 10000) (33792 / 10000) 5"
    by (rule Geohash_is_grid_hash) (simp_all add: in_box_def)
  also have "\<dots> = ''s14mh''" by code_simp
  finally show ?thesis .
qed

text \<open>The zone discloses the cell and nothing else: two locations get the same geohash exactly
  when they lie in the same latitude and the same longitude cell of the grid.\<close>

theorem Geohash_discloses_cell:
  assumes "in_box lat lon" "in_box lat' lon'" "0 < p" "p \<le> 17"
  shows "Geohash (Fin lat) (Fin lon) (int p) = Geohash (Fin lat') (Fin lon') (int p) \<longleftrightarrow>
    lat_cell (5 * p div 2) lat = lat_cell (5 * p div 2) lat' \<and>
    lon_cell ((5 * p + 1) div 2) lon = lon_cell ((5 * p + 1) div 2) lon'"
  unfolding Geohash_grid [OF assms(1,3,4)] Geohash_grid [OF assms(2,3,4)]
  by (rule grid_hash_cells [OF assms(1,2)])

lemma Geohash_discloses_cell_witness:
  "Geohash (Fin 6) (Fin 3) (int 5) = Geohash (Fin (601 / 100)) (Fin 3) (int 5) \<longleftrightarrow>
    lat_cell (5 * 5 div 2) 6 = lat_cell (5 * 5 div 2) (601 / 100) \<and>
    lon_cell ((5 * 5 + 1) div 2) 3 = lon_cell ((5 * 5 + 1) div 2) 3"
  by (rule Geohash_discloses_cell) (simp_all add: in_box_def)

text \<open>\<^verbatim>\<open>BucketTimestamp\<close> rounds down: the emitted text denotes an instant aligned to the
  15-minute grid, at most the input's instant and less than one bucket before it, whatever zone offset
  the input was written with; bucketing again changes nothing.\<close>

theorem bucket_timestamp_floor:
  assumes "parse_rfc3339nano ts = Some t" "four_digit_year (bucket_of t)"
  shows "\<exists>b. parse_rfc3339nano (BucketTimestamp ts) = Some b \<and> b \<le> t \<and> t < b + BucketWidth
    \<and> b mod BucketWidth = 0 \<and> BucketTimestamp (BucketTimestamp ts) = BucketTimestamp ts"
  using parse_BucketTimestamp [OF assms] bucket_of_bounds BucketTimestamp_Some [OF assms(1)]
    BucketTimestamp_Some [of "BucketTimestamp ts" "bucket_of t"] by auto

lemma bucket_timestamp_floor_witness:
  "\<exists>b. parse_rfc3339nano (BucketTimestamp ''2026-01-15T14:07:33+01:00'') = Some b
    \<and> b \<le> 1768482453000000000 \<and> 1768482453000000000 < b + BucketWidth \<and> b mod BucketWidth = 0
    \<and> BucketTimestamp (BucketTimestamp ''2026-01-15T14:07:33+01:00'') = BucketTimestamp ''2026-01-15T14:07:33+01:00''"
proof (rule bucket_timestamp_floor)
  show "parse_rfc3339nano ''2026-01-15T14:07:33+01:00'' = Some 1768482453000000000"
    by code_simp
  show "four_digit_year (bucket_of 1768482453000000000)" by code_simp
qed

text \<open>A bucketed timestamp discloses the 15-minute window and nothing else: two timestamps are
  emitted alike exactly when their instants lie in the same window, whatever their spelling.\<close>

theorem bucket_timestamp_discloses_window:
  assumes "parse_rfc3339nano ts = Some t" "four_digit_year (bucket_of t)"
    and "parse_rfc3339nano ts' = Some t'" "four_digit_year (bucket_of t')"
  shows "BucketTimestamp ts = BucketTimestamp ts' \<longleftrightarrow> t div BucketWidth = t' div BucketWidth"
proof
  assume "BucketTimestamp ts = BucketTimestamp ts'"
  then have "bucket_of t = bucket_of t'"
    using parse_BucketTimestamp [OF assms(1,2)] parse_BucketTimestamp [OF assms(3,4)] by simp
  then show "t div BucketWidth = t' div BucketWidth" by (simp add: bucket_of_def BucketWidth_def nanosecond_second_def)
qed (simp add: BucketTimestamp_Some assms(1,3) bucket_of_def)

lemma bucket_timestamp_discloses_window_witness:
  "BucketTimestamp ''2026-01-15T14:07:33+01:00'' = BucketTimestamp ''2026-01-15T13:14:59.5Z'' \<longleftrightarrow>
    1768482453000000000 div BucketWidth = 1768482899500000000 div BucketWidth"
proof (rule bucket_timestamp_discloses_window)
  show "parse_rfc3339nano ''2026-01-15T14:07:33+01:00'' = Some 1768482453000000000"
    "parse_rfc3339nano ''2026-01-15T13:14:59.5Z'' = Some 1768482899500000000"
    by code_simp+
  show "four_digit_year (bucket_of 1768482453000000000)" "four_digit_year (bucket_of 1768482899500000000)"
    by code_simp+
qed

text \<open>Whatever 16 bytes the entropy source delivers, the id is a well-formed UUID of version 4
  (36 characters, dashes, version and variant digits, hexadecimal elsewhere); an entropy failure is
  returned as an error that wraps the cause, and never as an id.\<close>

theorem newSignalID_uuid4:
  assumes "\<And>b. read = Inr b \<Longrightarrow> length b = 16"
  shows "case read of
      Inl e \<Rightarrow> newSignalIDFrom read = Inl (Wrapf ''processor: failed to read random bytes for signal_id'' e)
    | Inr b \<Rightarrow> (\<exists>s. newSignalIDFrom read = Inr s \<and> uuid4_form s)"
  using newSignalIDFrom_form assms by (cases read) (simp_all add: newSignalIDFrom_def)

lemma newSignalID_uuid4_witness:
  "\<exists>s. newSignalIDFrom (Inr ''0123456789abcdef'') = Inr s \<and> uuid4_form s"
  using newSignalID_uuid4 [of "Inr ''0123456789abcdef''"] by simp

end
