(* ===== verification/Mosaic.thy ===== *)
theory Mosaic
  imports GoCrypto GoStrings
begin

text \<open>
  The pseudonym primitives of internal/processor/anonymizer.go: \<^verbatim>\<open>Hash\<close>,
  \<^verbatim>\<open>HMACHash\<close>, \<^verbatim>\<open>mosaicKeyMaterial\<close>, \<^verbatim>\<open>NormalizeID\<close> and
  \<^verbatim>\<open>NormalizeName\<close>, with the laws of normalisation (idempotence, insensitivity to
  separators and case) and the exact extent to which delimited concatenation keeps its fields
  apart.
\<close>

definition Hash :: "bytes \<Rightarrow> string" where
  "Hash input = hex_encode (sha256 input)"

definition HMACHash :: "bytes \<Rightarrow> bytes \<Rightarrow> string" where
  "HMACHash key message = hex_encode (hmac_sha256 key message)"

definition mosaicKeyMaterial :: "bytes \<Rightarrow> bytes \<Rightarrow> bytes" where
  "mosaicKeyMaterial salt pepper = (if pepper = [] then salt else salt @ ''|'' @ pepper)"

definition id_rune :: "rune \<Rightarrow> bool" where
  "id_rune r \<longleftrightarrow> \<not> (is_space r \<or> r = 45 \<or> r = 46)"

definition NormalizeID :: "bytes \<Rightarrow> bytes" where
  "NormalizeID s = utf8_encode (map to_upper_rune (filter id_rune (utf8_decode s)))"

definition NormalizeName :: "bytes \<Rightarrow> bytes" where
  "NormalizeName s = str_join '' '' (str_fields (str_to_upper s))"

lemma length_HMACHash [simp]: "length (HMACHash k m) = 64"
  by (simp add: HMACHash_def)

lemma HMACHash_not_Nil [simp]: "HMACHash k m \<noteq> []"
  using length_HMACHash [of k m] by (metis list.size(3) zero_neq_numeral)

lemma HMACHash_hex: "list_all is_hex (HMACHash k m)"
  by (simp add: HMACHash_def hex_encode_is_hex)

section \<open>Normalisation\<close>

text \<open>
  What the mosaic derivation needs of a normaliser: applying it twice is applying it once. Then its
  values are its fixed points, and two inputs are identified exactly when they have the same
  normal form.
\<close>

locale normaliser =
  fixes norm :: "bytes \<Rightarrow> bytes"
  assumes norm_idem: "norm (norm s) = norm s"
begin

lemma norm_range: "s \<in> range norm \<longleftrightarrow> norm s = s"
proof
  assume "norm s = s"
  then have "s = norm s" by simp
  then show "s \<in> range norm" by (rule range_eqI)
qed (auto simp: norm_idem)

lemma same_form: "norm s = t \<Longrightarrow> norm t = t"
  using norm_idem by auto

lemma derived_stable: "f (norm (norm s)) = f (norm s)"
  by (simp add: norm_idem)

end

lemma id_rune_to_upper [simp]: "id_rune (to_upper_rune r) \<longleftrightarrow> id_rune r"
  using dash_to_upper [of r] by (auto simp: id_rune_def)

lemma list_all_map_valid: "list_all valid_rune rs \<Longrightarrow> list_all valid_rune (map to_upper_rune rs)"
  by (simp add: list_all_iff)

lemma list_all_filter: "list_all P rs \<Longrightarrow> list_all P (filter Q rs)"
  by (auto simp: list_all_iff)

lemma NormalizeID_runes:
  "utf8_decode (NormalizeID s) = map to_upper_rune (filter id_rune (utf8_decode s))"
  by (simp add: NormalizeID_def list_all_map_valid list_all_filter)

lemma NormalizeID_idem: "NormalizeID (NormalizeID s) = NormalizeID s"
  by (simp add: NormalizeID_def [of "NormalizeID s"] NormalizeID_runes filter_map comp_def)
    (simp add: NormalizeID_def)

text \<open>White space, dots and dashes do not matter, nor does case.\<close>

lemma NormalizeID_separators:
  assumes "list_all valid_rune xs" "list_all valid_rune ys" "list_all (\<lambda>r. \<not> id_rune r \<and> valid_rune r) seps"
  shows "NormalizeID (utf8_encode (xs @ seps @ ys)) = NormalizeID (utf8_encode (xs @ ys))"
proof -
  have "list_all valid_rune (xs @ seps @ ys)" "list_all valid_rune (xs @ ys)"
    using assms by (auto simp: list_all_iff)
  moreover have "filter id_rune seps = []" using assms(3) by (auto simp: list_all_iff filter_empty_conv)
  ultimately show ?thesis unfolding NormalizeID_def by (simp del: utf8_encode_append)
qed

lemma NormalizeID_case:
  assumes "list_all valid_rune xs"
  shows "NormalizeID (utf8_encode (map to_upper_rune xs)) = NormalizeID (utf8_encode xs)"
  using assms by (simp add: NormalizeID_def list_all_map_valid filter_map comp_def)

lemma to_upper_runes: "str_to_upper s = utf8_encode (map to_upper_rune (utf8_decode s))"
  by (simp add: str_to_upper_def)

lemma NormalizeName_runes:
  "NormalizeName s = utf8_encode (str_join [32] (split_fields is_space (map to_upper_rune (utf8_decode s))))"
proof -
  have "utf8_encode [32] = '' ''" by (simp add: encode_rune_lt_128) (simp add: char_of_def)
  then show ?thesis
    by (simp add: NormalizeName_def str_to_upper_def str_fields_encode list_all_map_valid utf8_encode_join)
qed

lemma NormalizeName_idem: "NormalizeName (NormalizeName s) = NormalizeName s"
proof -
  let ?rs = "map to_upper_rune (utf8_decode s)" and ?P = is_space
  let ?ws = "split_fields is_space ?rs"
  have sp: "is_space 32" by (simp add: is_space_def in_ranges_def space_ranges_def)
  have up32: "to_upper_rune 32 = 32" by (simp add: to_upper_rune_def)
  have words: "\<forall>w\<in>set ?ws. w \<noteq> [] \<and> list_all (Not \<circ> is_space) w"
    using split_fields_words by blast
  have elems: "\<forall>w\<in>set ?ws. set w \<subseteq> set ?rs" using split_fields_elems by blast
  have v: "list_all valid_rune ?rs" by (simp add: list_all_map_valid)
  have set: "set (str_join [32] ?ws) \<subseteq> insert 32 (set ?rs)"
    using set_str_join [of "[32]" ?ws] elems by auto
  have valid: "list_all valid_rune (str_join [32] ?ws)"
    using set v by (auto simp: list_all_iff valid_rune_def dest!: subsetD)
  have "map to_upper_rune (str_join [32] ?ws) = str_join [32] ?ws"
    using set up32 by (intro map_idI) auto
  then show ?thesis
    using split_fields_join [OF sp words] valid
    by (simp add: NormalizeName_runes)
qed

interpretation nid: normaliser NormalizeID
  by unfold_locales (rule NormalizeID_idem)

interpretation nname: normaliser NormalizeName
  by unfold_locales (rule NormalizeName_idem)

section \<open>Delimited concatenation\<close>

text \<open>
  Messages and keys join their fields with \<^verbatim>\<open>|\<close>. The first field can be read back as
  long as it does not hold the delimiter itself.
\<close>

lemma delimited_inj:
  fixes a b c d :: bytes
  assumes "CHR ''|'' \<notin> set a" "CHR ''|'' \<notin> set c"
    and "a @ ''|'' @ b = c @ ''|'' @ d"
  shows "a = c \<and> b = d"
proof -
  have "takeWhile (\<lambda>x. x \<noteq> CHR ''|'') (a @ ''|'' @ b) = a"
       "takeWhile (\<lambda>x. x \<noteq> CHR ''|'') (c @ ''|'' @ d) = c"
    using assms(1,2) by (subst takeWhile_append2; force)+
  with assms(3) show ?thesis by auto
qed

lemma mosaicKeyMaterial_inj:
  assumes "CHR ''|'' \<notin> set s" "CHR ''|'' \<notin> set t"
    and "mosaicKeyMaterial s p = mosaicKeyMaterial t q"
  shows "s = t \<and> p = q"
proof -
  have *: "u \<noteq> v @ ''|'' @ w" if "CHR ''|'' \<notin> set u" for u v w :: bytes using that by auto
  show ?thesis
    using assms * [OF assms(1), of t q] * [OF assms(2), of s p] delimited_inj [OF assms(1,2), of p q]
    by (auto simp: mosaicKeyMaterial_def split: if_splits)
qed

end
