(* ===== verification/Processor.thy ===== *)
theory Processor
  imports Features Mosaic
begin

text \<open>
  internal/processor/anonymizer.go: the incoming record \<^verbatim>\<open>RawData\<close> with
  \<^verbatim>\<open>Validate\<close>, the outgoing record \<^verbatim>\<open>AnonymizedSignal\<close> and
  \<^verbatim>\<open>AnonymizeSignal\<close>. A Go map with \<^verbatim>\<open>interface{}\<close> values is a map into
  \<open>meta_value\<close>; a pointer field that may be nil is an option.
\<close>

section \<open>Constants\<close>

definition MosaicVersion :: int where "MosaicVersion = 3"
definition FeatureVersion :: int where "FeatureVersion = 1"
definition GeohashPrecision :: int where "GeohashPrecision = 5"

definition KeyingBank :: string where "KeyingBank = ''bank''"
definition KeyingRegional :: string where "KeyingRegional = ''regional''"
definition ScopeBank :: string where "ScopeBank = ''bank''"
definition ScopeRegional :: string where "ScopeRegional = ''regional''"
definition BasisNationalID :: string where "BasisNationalID = ''national_id''"
definition BasisInternalIDFallback :: string where "BasisInternalIDFallback = ''internal_id_fallback''"

definition ValidSignalTypes :: "string list" where
  "ValidSignalTypes = [''transaction'', ''login'', ''transfer'', ''authentication'']"

definition ValidEndpointTypes :: "string list" where
  "ValidEndpointTypes = [''MOBILE_APP'', ''ATM'', ''POS'', ''WEB'', ''BRANCH'', ''API'', ''USSD'', ''IVR'']"

definition ref_char :: "char \<Rightarrow> bool" where
  "ref_char c \<longleftrightarrow> (CHR ''A'' \<le> c \<and> c \<le> CHR ''Z'') \<or> (CHR ''a'' \<le> c \<and> c \<le> CHR ''z'')
     \<or> is_digit c \<or> c = CHR ''_'' \<or> c = CHR ''-''"

text \<open>\<^verbatim>\<open>^[A-Za-z0-9_-]{1,64}$\<close>\<close>

definition transactionRefPattern :: "bytes \<Rightarrow> bool" where
  "transactionRefPattern s \<longleftrightarrow> 1 \<le> length s \<and> length s \<le> 64 \<and> list_all ref_char s"

section \<open>Input\<close>

record RawData =
  ID :: bytes
  Name :: bytes
  NationalID :: bytes
  Account :: bytes
  Amount :: f64
  Latitude :: "f64 option"
  Longitude :: "f64 option"
  Timestamp :: bytes
  DeviceID :: bytes
  DeviceIDHash :: bytes
  IP :: bytes
  IPHash :: bytes
  BranchID :: bytes
  SignalType :: bytes
  EndpointType :: bytes
  CounterpartyID :: bytes
  CounterpartyNationalID :: bytes
  TransactionRef :: bytes

definition check_coordinates :: "RawData \<Rightarrow> gores" where
  "check_coordinates r =
     (if (Latitude r = None) \<noteq> (Longitude r = None)
      then Some (FieldError ''latitude/longitude'' ''must be provided together or omitted together'')
      else case (Latitude r, Longitude r) of
        (Some lat, Some lon) \<Rightarrow>
          if flt lat (Fin (- 90)) \<or> flt (Fin 90) lat \<or> is_nan lat
          then Some (FieldError ''latitude'' ''must be between -90 and 90'')
          else if flt lon (Fin (- 180)) \<or> flt (Fin 180) lon \<or> is_nan lon
          then Some (FieldError ''longitude'' ''must be between -180 and 180'')
          else None
      | _ \<Rightarrow> None)"

definition ref_message :: string where
  "ref_message = ''must be an opaque reference matching ^[A-Za-z0-9_-]{1,64}$ (no spaces or punctuation; must not contain names or identifiers)''"

text \<open>
  \<^verbatim>\<open>Validate\<close> has a pointer receiver: it returns the error and leaves the record rewritten,
  also when a later check fails. \<open>quote\<close> is \<^verbatim>\<open>strconv.Quote\<close> (the verb
  \<^verbatim>\<open>%q\<close>), which only shapes the text of two messages.
\<close>

definition check_signal_type :: "(bytes \<Rightarrow> string) \<Rightarrow> RawData \<Rightarrow> gores \<times> RawData" where
  "check_signal_type quote r =
     (if SignalType r \<noteq> [] then
        (let canonical = str_to_lower (SignalType r)
         in if canonical \<notin> set ValidSignalTypes
            then (Some (FieldError ''signal_type'' (''unknown signal_type '' @ quote (SignalType r))), r)
            else (None, r\<lparr>SignalType := canonical\<rparr>))
      else (None, r))"

definition check_endpoint_type :: "(bytes \<Rightarrow> string) \<Rightarrow> RawData \<Rightarrow> gores \<times> RawData" where
  "check_endpoint_type quote r =
     (if EndpointType r \<noteq> [] then
        (let canonical = str_to_upper (EndpointType r)
         in if canonical \<notin> set ValidEndpointTypes
            then (Some (FieldError ''endpoint_type'' (''unknown endpoint_type '' @ quote (EndpointType r))), r)
            else (None, r\<lparr>EndpointType := canonical\<rparr>))
      else (None, r))"

definition check_optional :: "(bytes \<Rightarrow> string) \<Rightarrow> RawData \<Rightarrow> gores \<times> RawData" where
  "check_optional quote r =
     (if trim_space (TransactionRef r) \<noteq> [] \<and> \<not> transactionRefPattern (trim_space (TransactionRef r))
      then (Some (FieldError ''transaction_ref'' ref_message), r)
      else (case check_signal_type quote r of
              (Some e, r1) \<Rightarrow> (Some e, r1)
            | (None, r1) \<Rightarrow> check_endpoint_type quote r1))"

definition Validate :: "(bytes \<Rightarrow> string) \<Rightarrow> RawData \<Rightarrow> gores \<times> RawData" where
  "Validate quote r =
     (if trim_space (ID r) = [] then (Some (FieldError ''id'' ''must be a non-empty string''), r)
      else if trim_space (Name r) = [] then (Some (FieldError ''name'' ''must be a non-empty string''), r)
      else if trim_space (Account r) = [] then (Some (FieldError ''account'' ''must be a non-empty string''), r)
      else if fle (Amount r) (Fin 0) \<or> is_inf (Amount r)
        then (Some (FieldError ''amount'' ''must be a positive number''), r)
      else if parse_rfc3339nano (Timestamp r) = None
        then (Some (FieldError ''timestamp'' ''must be RFC 3339 (e.g. 2026-01-15T14:07:33Z)''), r)
      else case check_coordinates r of
        Some e \<Rightarrow> (Some e, r)
      | None \<Rightarrow>
          check_optional quote r)"

section \<open>Output\<close>

datatype meta_value = MStr bytes | MBool bool

record AnonymizedSignal =
  SignalID :: bytes
  InstitutionID :: bytes
  OutSignalType :: bytes
  IdentityMosaic :: bytes
  MosaicScope :: bytes
  MosaicBasis :: bytes
  OutMosaicVersion :: int
  OutFeatureVersion :: int
  OutTimestamp :: bytes
  Metadata :: "bytes \<rightharpoonup> meta_value"
  DestinationMosaic :: bytes
  DestinationMosaicScope :: bytes
  DestinationMosaicBasis :: bytes

definition NeedsFallbackSignalID :: "bytes \<Rightarrow> bool" where
  "NeedsFallbackSignalID ref \<longleftrightarrow> trim_space ref = []"

definition MissingSignalIDSentinel :: string where
  "MissingSignalIDSentinel = ''MISSING_SIGNAL_ID''"

text \<open>The two branches of the keying policy for a canonical national identifier: mosaic and scope.\<close>

definition national_mosaic :: "bytes \<Rightarrow> bytes \<Rightarrow> bytes \<Rightarrow> bytes \<Rightarrow> bytes \<times> bytes" where
  "national_mosaic salt pepper keying nid =
     (if keying = KeyingRegional then (HMACHash pepper (''v3|id|'' @ nid), ScopeRegional)
      else (HMACHash (mosaicKeyMaterial salt pepper) (''v3|id|'' @ nid), ScopeBank))"

definition local_message :: "bytes \<Rightarrow> bytes \<Rightarrow> bytes" where
  "local_message i n = ''v3|local|'' @ NormalizeID i @ ''|'' @ NormalizeName n"

text \<open>Step 1: mosaic, scope and basis of the person.\<close>

definition identity_mosaic :: "RawData \<Rightarrow> bytes \<Rightarrow> bytes \<Rightarrow> bytes \<Rightarrow> bytes \<times> bytes \<times> bytes" where
  "identity_mosaic raw salt pepper keying =
     (let nid = NormalizeID (NationalID raw)
      in if nid \<noteq> [] then
           (case national_mosaic salt pepper keying nid of (m, sc) \<Rightarrow> (m, sc, BasisNationalID))
         else (HMACHash (mosaicKeyMaterial salt pepper) (local_message (ID raw) (Name raw)),
               ScopeBank, BasisInternalIDFallback))"

definition destination_mosaic :: "RawData \<Rightarrow> bytes \<Rightarrow> bytes \<Rightarrow> bytes \<Rightarrow> bytes \<times> bytes \<times> bytes" where
  "destination_mosaic raw salt pepper keying =
     (let cn = NormalizeID (CounterpartyNationalID raw)
      in if cn \<noteq> [] then
           (case national_mosaic salt pepper keying cn of (m, sc) \<Rightarrow> (m, sc, BasisNationalID))
         else if CounterpartyID raw \<noteq> [] then
           (HMACHash (mosaicKeyMaterial salt pepper) (''v3|local|'' @ NormalizeID (CounterpartyID raw)),
            ScopeBank, BasisInternalIDFallback)
         else ([], [], []))"

definition near_threshold :: "f64 \<Rightarrow> f64 \<Rightarrow> bool" where
  "near_threshold reportingThreshold amount \<longleftrightarrow>
     flt (Fin 0) reportingThreshold \<and> fle (fmul reportingThreshold (f64_lit (95 / 100))) amount"

definition location_zone :: "RawData \<Rightarrow> string" where
  "location_zone raw =
     (case (Latitude raw, Longitude raw) of
        (Some lat, Some lon) \<Rightarrow> Geohash lat lon GeohashPrecision
      | _ \<Rightarrow> ''ZONE_UNKNOWN'')"

definition signal_id_message :: "bytes \<Rightarrow> bytes" where
  "signal_id_message ref = ''v2|sigid|'' @ trim_space ref"

definition signal_id :: "RawData \<Rightarrow> bytes \<Rightarrow> bytes \<Rightarrow> bytes" where
  "signal_id raw salt fallbackSignalID =
     (if \<not> NeedsFallbackSignalID (TransactionRef raw) then HMACHash salt (signal_id_message (TransactionRef raw))
      else if trim_space fallbackSignalID = [] then MissingSignalIDSentinel
      else fallbackSignalID)"

text \<open>A caller-supplied hash wins over the raw value; both empty leaves the key out.\<close>

definition hash_field :: "bytes \<Rightarrow> bytes \<Rightarrow> bytes \<Rightarrow> bytes \<Rightarrow> meta_value option" where
  "hash_field salt tag supplied raw_value =
     (if supplied \<noteq> [] then Some (MStr supplied)
      else if raw_value \<noteq> [] then Some (MStr (HMACHash salt (tag @ raw_value)))
      else None)"

definition put :: "bytes \<Rightarrow> meta_value option \<Rightarrow> (bytes \<rightharpoonup> meta_value) \<Rightarrow> (bytes \<rightharpoonup> meta_value)" where
  "put k v m = (case v of None \<Rightarrow> m | Some x \<Rightarrow> m(k \<mapsto> x))"

definition nonempty :: "bytes \<Rightarrow> meta_value option" where
  "nonempty s = (if s \<noteq> [] then Some (MStr s) else None)"

definition metadata :: "RawData \<Rightarrow> bytes \<Rightarrow> f64 \<Rightarrow> (bytes \<rightharpoonup> meta_value)" where
  "metadata raw salt reportingThreshold =
     (put ''endpoint_type'' (nonempty (EndpointType raw))
     (put ''branch_id'' (nonempty (BranchID raw))
     (put ''ip_hash'' (hash_field salt ''v3|ip|'' (IPHash raw) (IP raw))
     (put ''device_id_hash'' (hash_field salt ''v3|device|'' (DeviceIDHash raw) (DeviceID raw))
     (put ''is_near_threshold'' (if near_threshold reportingThreshold (Amount raw) then Some (MBool True) else None)
       [''amount_tier'' \<mapsto> MStr (MapToTier (Amount raw)),
        ''location_zone'' \<mapsto> MStr (location_zone raw),
        ''account_hash'' \<mapsto> MStr (HMACHash salt (''v3|account|'' @ Account raw))])))))"

definition AnonymizeSignal ::
  "RawData \<Rightarrow> bytes \<Rightarrow> bytes \<Rightarrow> bytes \<Rightarrow> bytes \<Rightarrow> f64 \<Rightarrow> bytes \<Rightarrow> AnonymizedSignal" where
  "AnonymizeSignal raw institutionID salt pepper keying reportingThreshold fallbackSignalID =
     (case identity_mosaic raw salt pepper keying of (mosaic, mosaicScope, mosaicBasis) \<Rightarrow>
      case destination_mosaic raw salt pepper keying of (dest, destScope, destBasis) \<Rightarrow>
        \<lparr>SignalID = signal_id raw salt fallbackSignalID,
         InstitutionID = (if institutionID = [] then ''BNK_DEFAULT'' else institutionID),
         OutSignalType = (if SignalType raw = [] then ''transaction'' else SignalType raw),
         IdentityMosaic = mosaic, MosaicScope = mosaicScope, MosaicBasis = mosaicBasis,
         OutMosaicVersion = MosaicVersion, OutFeatureVersion = FeatureVersion,
         OutTimestamp = BucketTimestamp (Timestamp raw),
         Metadata = metadata raw salt reportingThreshold,
         DestinationMosaic = dest, DestinationMosaicScope = destScope, DestinationMosaicBasis = destBasis\<rparr>)"

section \<open>Laws of Validate\<close>

text \<open>The checks of \<^verbatim>\<open>Validate\<close> in the order of the code, each with the field its error names.\<close>

definition coordinate_ok :: "rat \<Rightarrow> f64 \<Rightarrow> bool" where
  "coordinate_ok b x \<longleftrightarrow> (case x of Fin q \<Rightarrow> - b \<le> q \<and> q \<le> b | _ \<Rightarrow> False)"

definition amount_ok :: "f64 \<Rightarrow> bool" where
  "amount_ok x \<longleftrightarrow> (case x of Fin q \<Rightarrow> 0 < q | NaN \<Rightarrow> True | _ \<Rightarrow> False)"

definition required_checks :: "RawData \<Rightarrow> (string \<times> bool) list" where
  "required_checks r =
    [(''id'', trim_space (ID r) \<noteq> []), (''name'', trim_space (Name r) \<noteq> []),
     (''account'', trim_space (Account r) \<noteq> []), (''amount'', amount_ok (Amount r)),
     (''timestamp'', parse_rfc3339nano (Timestamp r) \<noteq> None)]"

definition coordinate_checks :: "RawData \<Rightarrow> (string \<times> bool) list" where
  "coordinate_checks r =
    [(''latitude/longitude'', (Latitude r = None) = (Longitude r = None)),
     (''latitude'', case Latitude r of None \<Rightarrow> True | Some x \<Rightarrow> coordinate_ok 90 x),
     (''longitude'', case Longitude r of None \<Rightarrow> True | Some x \<Rightarrow> coordinate_ok 180 x)]"

definition optional_checks :: "RawData \<Rightarrow> (string \<times> bool) list" where
  "optional_checks r =
    [(''transaction_ref'', trim_space (TransactionRef r) = [] \<or> transactionRefPattern (trim_space (TransactionRef r))),
     (''signal_type'', SignalType r = [] \<or> str_to_lower (SignalType r) \<in> set ValidSignalTypes),
     (''endpoint_type'', EndpointType r = [] \<or> str_to_upper (EndpointType r) \<in> set ValidEndpointTypes)]"

definition field_checks :: "RawData \<Rightarrow> (string \<times> bool) list" where
  "field_checks r = required_checks r @ coordinate_checks r @ optional_checks r"

definition canonical :: "RawData \<Rightarrow> RawData" where
  "canonical r = r\<lparr>SignalType := str_to_lower (SignalType r), EndpointType := str_to_upper (EndpointType r)\<rparr>"

definition first_failing :: "(string \<times> bool) list \<Rightarrow> string option" where
  "first_failing cs = map_option fst (find (\<lambda>c. \<not> snd c) cs)"

lemma first_failing_simps [simp]:
  "first_failing [] = None"
  "first_failing ((f, b) # cs) = (if b then first_failing cs else Some f)"
  by (simp_all add: first_failing_def)

lemma first_failing_append:
  "first_failing (cs @ ds) = (case first_failing cs of None \<Rightarrow> first_failing ds | Some f \<Rightarrow> Some f)"
  by (induction cs) (auto simp: first_failing_def)

lemma first_failing_None: "first_failing cs = None \<longleftrightarrow> list_all snd cs"
  by (induction cs) (auto simp: first_failing_def)

fun field_of :: "goerr \<Rightarrow> string" where
  "field_of (FieldError f m) = f"
| "field_of e = []"

lemma amount_ok_iff: "amount_ok x \<longleftrightarrow> \<not> (fle x (Fin 0) \<or> is_inf x)"
  by (cases x) (auto simp: amount_ok_def is_inf_def)

lemma coordinate_ok_iff: "coordinate_ok b x \<longleftrightarrow> \<not> (flt x (Fin (- b)) \<or> flt (Fin b) x \<or> is_nan x)"
  by (cases x) (auto simp: coordinate_ok_def is_nan_def)

lemma str_case_Nil [simp]: "str_to_lower [] = []" "str_to_upper [] = []"
  by (simp_all add: str_to_lower_def str_to_upper_def)

lemma check_coordinates_field:
  "map_option field_of (check_coordinates r) = first_failing (coordinate_checks r)"
  by (auto simp: check_coordinates_def coordinate_checks_def coordinate_ok_iff split: option.split)

lemma check_optional_field:
  "map_option field_of (fst (check_optional q r)) = first_failing (optional_checks r)"
  by (simp add: check_optional_def optional_checks_def check_signal_type_def check_endpoint_type_def Let_def)

lemma signal_type_update: "SignalType r = [] \<Longrightarrow> r\<lparr>SignalType := []\<rparr> = r"
  by (cases r) simp

lemma endpoint_type_update: "EndpointType r = [] \<Longrightarrow> r\<lparr>EndpointType := []\<rparr> = r"
  by (cases r) simp

lemma check_signal_type_None:
  "fst (check_signal_type q r) = None \<Longrightarrow>
    check_signal_type q r = (None, r\<lparr>SignalType := str_to_lower (SignalType r)\<rparr>)"
  by (cases "SignalType r = []") (simp_all add: check_signal_type_def signal_type_update Let_def split: if_splits)

lemma check_endpoint_type_None:
  "fst (check_endpoint_type q r) = None \<Longrightarrow>
    check_endpoint_type q r = (None, r\<lparr>EndpointType := str_to_upper (EndpointType r)\<rparr>)"
  by (cases "EndpointType r = []") (simp_all add: check_endpoint_type_def endpoint_type_update Let_def split: if_splits)

lemma check_optional_canonical:
  assumes "fst (check_optional q r) = None"
  shows "snd (check_optional q r) = canonical r"
proof (cases "check_signal_type q r")
  case (Pair e1 r1)
  with assms have e1: "fst (check_signal_type q r) = None" and 2: "fst (check_endpoint_type q r1) = None"
    and e: "check_optional q r = check_endpoint_type q r1"
    by (auto simp: check_optional_def split: if_splits option.splits)
  from check_signal_type_None [OF e1] Pair have "r1 = r\<lparr>SignalType := str_to_lower (SignalType r)\<rparr>" by simp
  with check_endpoint_type_None [OF 2] show ?thesis by (simp add: e canonical_def)
qed

lemma required_checks_None:
  assumes "first_failing (required_checks r) = None"
  shows "trim_space (ID r) \<noteq> []" "trim_space (Name r) \<noteq> []" "trim_space (Account r) \<noteq> []"
    "amount_ok (Amount r)" "parse_rfc3339nano (Timestamp r) \<noteq> None"
  using assms unfolding first_failing_None required_checks_def by simp_all

lemma Validate_parts:
  assumes "first_failing (required_checks r) = None"
  shows "Validate q r = (case check_coordinates r of Some e \<Rightarrow> (Some e, r) | None \<Rightarrow> check_optional q r)"
  using required_checks_None [OF assms] unfolding Validate_def amount_ok_iff by (simp only: if_False)

lemma Validate_required_field:
  "first_failing (required_checks r) = Some f \<Longrightarrow> map_option field_of (fst (Validate q r)) = Some f"
  by (auto simp: Validate_def required_checks_def amount_ok_iff split: if_splits)

lemma Validate_field: "map_option field_of (fst (Validate q r)) = first_failing (field_checks r)"
proof (cases "first_failing (required_checks r)")
  case None
  then show ?thesis
    using check_coordinates_field [of r]
    by (auto simp: Validate_parts field_checks_def first_failing_append check_optional_field split: option.split)
qed (simp add: Validate_required_field field_checks_def first_failing_append)

lemma Validate_canonical:
  assumes "fst (Validate q r) = None"
  shows "snd (Validate q r) = canonical r"
proof -
  from assms Validate_field [of q r] have "first_failing (field_checks r) = None" by simp
  then have n: "first_failing (required_checks r) = None" "first_failing (coordinate_checks r) = None"
    by (auto simp: field_checks_def first_failing_append split: option.splits)
  with check_coordinates_field [of r] have "Validate q r = check_optional q r"
    by (simp add: Validate_parts)
  with assms show ?thesis by (simp add: check_optional_canonical)
qed

end
