(* ===== verification/Wire.thy ===== *)
theory Wire
  imports JsonText Processor
begin

text \<open>
  The JSON texts the gateway exchanges: the body of a request (the tags of
  \<^verbatim>\<open>processor.RawData\<close>), the outgoing signal (the tags of
  \<^verbatim>\<open>processor.AnonymizedSignal\<close>, as \<^verbatim>\<open>json.Marshal\<close> writes it) and the
  fields of the signal that cmd/gateway/audit.go reads back from the marshaled bytes.
\<close>

section \<open>The outgoing signal\<close>

text \<open>A Go map is marshaled with its keys sorted; these are the keys \<open>metadata\<close> can hold.\<close>

definition metadata_keys :: "bytes list" where
  "metadata_keys =
     [''account_hash'', ''amount_tier'', ''branch_id'', ''device_id_hash'', ''endpoint_type'', ''ip_hash'',
      ''is_near_threshold'', ''location_zone'']"

fun meta_json :: "meta_value \<Rightarrow> json" where
  "meta_json (MStr s) = JStr s"
| "meta_json (MBool b) = JBool b"

definition metadata_json :: "(bytes \<rightharpoonup> meta_value) \<Rightarrow> json" where
  "metadata_json m =
     JObj (map (\<lambda>k. (k, meta_json (the (m k)))) (filter (\<lambda>k. m k \<noteq> None) metadata_keys))"

definition omitempty :: "bytes \<Rightarrow> bytes \<Rightarrow> (bytes \<times> json) list" where
  "omitempty k s = (if s = [] then [] else [(k, JStr s)])"

definition signal_json :: "AnonymizedSignal \<Rightarrow> json" where
  "signal_json s = JObj
     ([(''signal_id'', JStr (SignalID s)), (''institution_id'', JStr (InstitutionID s)),
       (''signal_type'', JStr (OutSignalType s)), (''identity_mosaic'', JStr (IdentityMosaic s)),
       (''mosaic_scope'', JStr (MosaicScope s)), (''mosaic_basis'', JStr (MosaicBasis s)),
       (''mosaic_version'', JNum (show_int (OutMosaicVersion s))),
       (''feature_version'', JNum (show_int (OutFeatureVersion s))),
       (''timestamp'', JStr (OutTimestamp s)), (''metadata'', metadata_json (Metadata s))]
      @ omitempty ''destination_mosaic'' (DestinationMosaic s)
      @ omitempty ''destination_mosaic_scope'' (DestinationMosaicScope s)
      @ omitempty ''destination_mosaic_basis'' (DestinationMosaicBasis s))"

definition marshal_signal :: "AnonymizedSignal \<Rightarrow> bytes" where
  "marshal_signal s = encode (signal_json s)"

section \<open>The request body\<close>

definition zero_raw :: RawData where
  "zero_raw = \<lparr>ID = [], Name = [], NationalID = [], Account = [], Amount = Fin 0, Latitude = None, Longitude = None,
     Timestamp = [], DeviceID = [], DeviceIDHash = [], IP = [], IPHash = [], BranchID = [], SignalType = [],
     EndpointType = [], CounterpartyID = [], CounterpartyNationalID = [], TransactionRef = []\<rparr>"

definition raw_setters :: "RawData setters" where
  "raw_setters =
    [(''id'', \<lambda>v r. map_option (\<lambda>x. r\<lparr>ID := x\<rparr>) (set_string v (ID r))),
     (''name'', \<lambda>v r. map_option (\<lambda>x. r\<lparr>Name := x\<rparr>) (set_string v (Name r))),
     (''national_id'', \<lambda>v r. map_option (\<lambda>x. r\<lparr>NationalID := x\<rparr>) (set_string v (NationalID r))),
     (''account'', \<lambda>v r. map_option (\<lambda>x. r\<lparr>Account := x\<rparr>) (set_string v (Account r))),
     (''amount'', \<lambda>v r. map_option (\<lambda>x. r\<lparr>Amount := x\<rparr>) (set_float v (Amount r))),
     (''latitude'', \<lambda>v r. map_option (\<lambda>x. r\<lparr>Latitude := x\<rparr>) (set_float_ptr v (Latitude r))),
     (''longitude'', \<lambda>v r. map_option (\<lambda>x. r\<lparr>Longitude := x\<rparr>) (set_float_ptr v (Longitude r))),
     (''timestamp'', \<lambda>v r. map_option (\<lambda>x. r\<lparr>Timestamp := x\<rparr>) (set_string v (Timestamp r))),
     (''device_id'', \<lambda>v r. map_option (\<lambda>x. r\<lparr>DeviceID := x\<rparr>) (set_string v (DeviceID r))),
     (''device_id_hash'', \<lambda>v r. map_option (\<lambda>x. r\<lparr>DeviceIDHash := x\<rparr>) (set_string v (DeviceIDHash r))),
     (''ip'', \<lambda>v r. map_option (\<lambda>x. r\<lparr>IP := x\<rparr>) (set_string v (IP r))),
     (''ip_hash'', \<lambda>v r. map_option (\<lambda>x. r\<lparr>IPHash := x\<rparr>) (set_string v (IPHash r))),
     (''branch_id'', \<lambda>v r. map_option (\<lambda>x. r\<lparr>BranchID := x\<rparr>) (set_string v (BranchID r))),
     (''signal_type'', \<lambda>v r. map_option (\<lambda>x. r\<lparr>SignalType := x\<rparr>) (set_string v (SignalType r))),
     (''endpoint_type'', \<lambda>v r. map_option (\<lambda>x. r\<lparr>EndpointType := x\<rparr>) (set_string v (EndpointType r))),
     (''counterparty_id'', \<lambda>v r. map_option (\<lambda>x. r\<lparr>CounterpartyID := x\<rparr>) (set_string v (CounterpartyID r))),
     (''counterparty_national_id'',
        \<lambda>v r. map_option (\<lambda>x. r\<lparr>CounterpartyNationalID := x\<rparr>) (set_string v (CounterpartyNationalID r))),
     (''transaction_ref'', \<lambda>v r. map_option (\<lambda>x. r\<lparr>TransactionRef := x\<rparr>) (set_string v (TransactionRef r)))]"

text \<open>\<^verbatim>\<open>json.NewDecoder(body).Decode(&rawPii)\<close> on a body: only its first value is read.\<close>

definition decode_raw :: "bytes \<Rightarrow> RawData option" where
  "decode_raw body = Option.bind (parse_first body) (\<lambda>(v, _). decode_struct raw_setters v zero_raw)"

section \<open>The fields of an audit record\<close>

record signalAuditFields =
  AuditSignalID :: bytes
  AuditMosaicVersion :: int
  AuditFeatureVersion :: int
  AuditMosaicScope :: bytes
  AuditMosaicBasis :: bytes

definition zero_audit_fields :: signalAuditFields where
  "zero_audit_fields = \<lparr>AuditSignalID = [], AuditMosaicVersion = 0, AuditFeatureVersion = 0,
     AuditMosaicScope = [], AuditMosaicBasis = []\<rparr>"

definition audit_setters :: "signalAuditFields setters" where
  "audit_setters =
    [(''signal_id'', \<lambda>v r. map_option (\<lambda>x. r\<lparr>AuditSignalID := x\<rparr>) (set_string v (AuditSignalID r))),
     (''mosaic_version'', \<lambda>v r. map_option (\<lambda>x. r\<lparr>AuditMosaicVersion := x\<rparr>) (set_int v (AuditMosaicVersion r))),
     (''feature_version'', \<lambda>v r. map_option (\<lambda>x. r\<lparr>AuditFeatureVersion := x\<rparr>) (set_int v (AuditFeatureVersion r))),
     (''mosaic_scope'', \<lambda>v r. map_option (\<lambda>x. r\<lparr>AuditMosaicScope := x\<rparr>) (set_string v (AuditMosaicScope r))),
     (''mosaic_basis'', \<lambda>v r. map_option (\<lambda>x. r\<lparr>AuditMosaicBasis := x\<rparr>) (set_string v (AuditMosaicBasis r)))]"

definition decode_audit_fields :: "bytes \<Rightarrow> signalAuditFields option" where
  "decode_audit_fields payload =
     Option.bind (parse_json payload) (\<lambda>v. decode_struct audit_setters v zero_audit_fields)"

section \<open>Round trips\<close>

lemma valid_text_ascii: "ascii s \<Longrightarrow> valid_text s = s"
proof -
  assume s: "ascii s"
  have "encode_rune (byte_val c) = [c]" if "byte_val c < 128" for c
    using that byte_val_bounds [of c] by (simp add: encode_rune_lt_128 char_of_byte_val)
  with s show ?thesis
    by (induction s) (simp_all add: valid_text_def utf8_decode_ascii utf8_encode_def ascii_def)
qed

lemma nesting_meta [simp]: "nesting (meta_json v) = 0" "plain_json (meta_json v)"
  by (cases v; simp)+

lemma nesting_objI: "(\<forall>m \<in> set ms. nesting (snd m) \<le> n) \<Longrightarrow> nesting (JObj ms) \<le> Suc n"
  by simp

lemma signal_json_plain: "plain_json (signal_json s)" "nesting (signal_json s) \<le> max_depth"
proof -
  show "plain_json (signal_json s)"
    by (auto simp: signal_json_def metadata_json_def omitempty_def)
  have "nesting (metadata_json m) \<le> Suc 0" for m unfolding metadata_json_def by (rule nesting_objI) auto
  then have "nesting (signal_json s) \<le> Suc (Suc 0)"
    unfolding signal_json_def by (intro nesting_objI) (auto simp: omitempty_def)
  then show "nesting (signal_json s) \<le> max_depth" by (simp add: max_depth_def)
qed

lemma parse_signal: "parse_json (marshal_signal s) = Some (normal (signal_json s))"
  unfolding marshal_signal_def by (rule parse_encode [OF signal_json_plain])

lemma set_member_skip:
  assumes "\<forall>n \<in> set (map fst fs). n \<noteq> k \<and> \<not> key_matches n k"
  shows "set_member fs (k, v) r = Some r"
proof -
  have "find (\<lambda>f. fst f = k) fs = None" "find (\<lambda>f. key_matches (fst f) k) fs = None"
    using assms by (auto simp: find_None_iff)
  then show ?thesis by (simp add: set_member_def)
qed

lemma set_member_hit: "find (\<lambda>f. fst f = k) fs = Some f \<Longrightarrow> set_member fs (k, v) r = snd f v r"
  by (simp add: set_member_def)

lemma set_members_append:
  "set_members fs (xs @ ys) r = Option.bind (set_members fs xs r) (set_members fs ys)"
  by (induction xs arbitrary: r) (simp_all split: option.split)

definition audit_names :: "string list" where
  "audit_names = [''signal_id'', ''mosaic_version'', ''feature_version'', ''mosaic_scope'', ''mosaic_basis'']"

lemma audit_setter_names: "map fst audit_setters = audit_names"
  by (simp add: audit_setters_def audit_names_def)

definition other_names :: "string list" where
  "other_names = [''institution_id'', ''signal_type'', ''identity_mosaic'', ''timestamp'', ''metadata'',
     ''destination_mosaic'', ''destination_mosaic_scope'', ''destination_mosaic_basis'']"

lemma other_names_differ: "list_all (\<lambda>k. list_all (\<lambda>n. n \<noteq> k \<and> \<not> key_matches n k) audit_names) other_names"
  by code_simp

lemma skip_other: "k \<in> set other_names \<Longrightarrow> set_member audit_setters (k, v) r = Some r"
  using other_names_differ by (intro set_member_skip) (simp add: audit_setter_names list_all_iff)

lemma names_text: "list_all (\<lambda>k. valid_text k = k) (audit_names @ other_names)"
  by code_simp

lemma name_text: "k \<in> set (audit_names @ other_names) \<Longrightarrow> valid_text k = k"
  using names_text by (auto simp: list_all_iff)

lemma set_int_show: "- (2 ^ 63) \<le> i \<Longrightarrow> i < 2 ^ 63 \<Longrightarrow> set_int (JNum (show_int i)) old = Some i"
proof -
  assume i: "- (2 ^ 63) \<le> i" "i < 2 ^ 63"
  obtain c ds where c: "show_nat (nat i) = c # ds" "is_digit c" using show_nat_cons by blast
  have "c \<noteq> CHR ''-''" using c(2) by (auto simp: is_digit_def)
  moreover have "digits_val (c # ds) = nat i" "list_all is_digit (c # ds)"
    using digits_val_show_nat [of "nat i"] show_nat_digits [of "nat i"] c(1) by simp_all
  ultimately show ?thesis
    using i by (cases "i < 0") (simp_all add: set_int_def int_literal_def show_int_def c)
qed

lemma set_audit_member:
  "set_member audit_setters (''signal_id'', JStr x) r = Some (r\<lparr>AuditSignalID := x\<rparr>)"
  "set_member audit_setters (''mosaic_scope'', JStr x) r = Some (r\<lparr>AuditMosaicScope := x\<rparr>)"
  "set_member audit_setters (''mosaic_basis'', JStr x) r = Some (r\<lparr>AuditMosaicBasis := x\<rparr>)"
  "- (2 ^ 63) \<le> i \<Longrightarrow> i < 2 ^ 63 \<Longrightarrow>
    set_member audit_setters (''mosaic_version'', JNum (show_int i)) r = Some (r\<lparr>AuditMosaicVersion := i\<rparr>)"
  "- (2 ^ 63) \<le> i \<Longrightarrow> i < 2 ^ 63 \<Longrightarrow>
    set_member audit_setters (''feature_version'', JNum (show_int i)) r = Some (r\<lparr>AuditFeatureVersion := i\<rparr>)"
  by (simp_all add: set_member_def audit_setters_def set_string_def set_int_show)

lemma decode_marshaled:
  assumes "- (2 ^ 63) \<le> OutMosaicVersion s" "OutMosaicVersion s < 2 ^ 63"
    and "- (2 ^ 63) \<le> OutFeatureVersion s" "OutFeatureVersion s < 2 ^ 63"
  shows "decode_audit_fields (marshal_signal s) = Some
    \<lparr>AuditSignalID = valid_text (SignalID s), AuditMosaicVersion = OutMosaicVersion s,
     AuditFeatureVersion = OutFeatureVersion s, AuditMosaicScope = valid_text (MosaicScope s),
     AuditMosaicBasis = valid_text (MosaicBasis s)\<rparr>"
proof -
  have om: "set_members audit_setters (map (\<lambda>m. (valid_text (fst m), normal (snd m))) (omitempty k x)) r = Some r"
    if "k \<in> set other_names" for k x r
    using that by (simp add: omitempty_def name_text skip_other)
  have names: "valid_text k = k" if "k \<in> set audit_names \<or> k \<in> set other_names" for k using that name_text by simp
  have om': "set_members audit_setters (map (\<lambda>m. (valid_text (fst m), normal (snd m))) (omitempty k x) @ ms) r
      = set_members audit_setters ms r" if "k \<in> set other_names" for k x r ms
    using om [OF that] by (simp add: set_members_append)
  show ?thesis
    using assms unfolding decode_audit_fields_def parse_signal
    by (simp add: signal_json_def decode_struct_def names om om' skip_other set_audit_member zero_audit_fields_def
        audit_names_def other_names_def)
qed

text \<open>
  C28. Reading the audit fields back from a marshaled signal gives the signal's own identifier,
  versions, scope and basis, whatever else the signal holds: the audit record cannot disagree with
  the bytes that were delivered (texts that are not UTF-8 excepted, which
  \<^verbatim>\<open>json.Marshal\<close> has already rewritten in those bytes).
\<close>

theorem audit_fields_of_signal:
  assumes "- (2 ^ 63) \<le> OutMosaicVersion s" "OutMosaicVersion s < 2 ^ 63"
    and "- (2 ^ 63) \<le> OutFeatureVersion s" "OutFeatureVersion s < 2 ^ 63"
  shows "decode_audit_fields (marshal_signal s) = Some
    \<lparr>AuditSignalID = valid_text (SignalID s), AuditMosaicVersion = OutMosaicVersion s,
     AuditFeatureVersion = OutFeatureVersion s, AuditMosaicScope = valid_text (MosaicScope s),
     AuditMosaicBasis = valid_text (MosaicBasis s)\<rparr>"
  using decode_marshaled [OF assms] .

theorem audit_fields_of_signal_witness:
  "decode_audit_fields (marshal_signal \<lparr>SignalID = ''T-1'', InstitutionID = ''B'', OutSignalType = ''transaction'',
       IdentityMosaic = ''ab'', MosaicScope = ''bank'', MosaicBasis = ''national_id'', OutMosaicVersion = 3,
       OutFeatureVersion = 1, OutTimestamp = [], Metadata = (\<lambda>_. None), DestinationMosaic = [],
       DestinationMosaicScope = [], DestinationMosaicBasis = []\<rparr>)
     = Some \<lparr>AuditSignalID = ''T-1'', AuditMosaicVersion = 3, AuditFeatureVersion = 1,
         AuditMosaicScope = ''bank'', AuditMosaicBasis = ''national_id''\<rparr>"
proof -
  have "valid_text s = s" if "s \<in> {''T-1'', ''bank'', ''national_id''}" for s :: bytes
    using that by (intro valid_text_ascii) (auto simp: ascii_def byte_val_def)
  then show ?thesis by (subst audit_fields_of_signal) simp_all
qed

end
