(* ===== verification/AuditLog.thy ===== *)
theory AuditLog
  imports DayLog Wire GoCrypto
begin

text \<open>
  internal/auditlog/auditlog.go: the durable record of confirmed deliveries, as day files of
  newline-delimited JSON over DayLog. The struct \<^verbatim>\<open>Logger\<close> is \<open>logger_cfg\<close> (directory and
  payload flag) and the state \<open>day_log\<close>; \<^verbatim>\<open>syncDir\<close> is \<open>Sync\<close>. The
  \<^verbatim>\<open>json.Marshal\<close> of the struct \<^verbatim>\<open>Record\<close> is \<open>marshal_record\<close>.
\<close>

record logger_cfg =
  audit_dir :: bytes
  storePayload :: bool

definition audit_files :: "logger_cfg \<Rightarrow> log_cfg" where
  "audit_files c =
     \<lparr>log_dir = audit_dir c, log_prefix = ''audit-'', open_failed = ''failed to open audit log file'',
      dirsync_failed = ''failed to fsync audit log directory after creating new day file'',
      write_failed = ''failed to write audit record''\<rparr>"

record audit_record =
  RecTimestamp :: bytes
  RecDestination :: bytes
  RecSignalID :: bytes
  RecMosaicVersion :: int
  RecFeatureVersion :: int
  RecMosaicScope :: bytes
  RecMosaicBasis :: bytes
  PayloadSHA256 :: bytes
  PayloadBytes :: int
  Payload :: bytes

section \<open>Writing a record\<close>

text \<open>\<^verbatim>\<open>t.UTC().Format(time.RFC3339Nano)\<close>: the fraction without its trailing zeros.\<close>

definition format_fraction :: "instant \<Rightarrow> string" where
  "format_fraction t =
     (let ns = t mod nanosecond_second
      in if ns = 0 then [] else CHR ''.'' # rev (dropWhile (\<lambda>c. c = CHR ''0'') (rev (show_pad 9 (nat ns)))))"

definition format_rfc3339nano :: "instant \<Rightarrow> string" where
  "format_rfc3339nano t = format_day t @ ''T'' @ format_clock t @ format_fraction t @ ''Z''"

definition record_members :: "audit_record \<Rightarrow> string list" where
  "record_members r = map member_text
     [(''timestamp'', JStr (RecTimestamp r)), (''destination'', JStr (RecDestination r)),
      (''signal_id'', JStr (RecSignalID r)), (''mosaic_version'', JNum (show_int (RecMosaicVersion r))),
      (''feature_version'', JNum (show_int (RecFeatureVersion r))), (''mosaic_scope'', JStr (RecMosaicScope r)),
      (''mosaic_basis'', JStr (RecMosaicBasis r)), (''payload_sha256'', JStr (PayloadSHA256 r)),
      (''payload_bytes'', JNum (show_int (PayloadBytes r)))]"

definition marshal_record :: "audit_record \<Rightarrow> goerr + bytes" where
  "marshal_record r =
     (if Payload r = [] then Inr (''{'' @ str_join '','' (record_members r) @ ''}'')
      else case marshal_raw (Payload r) of
        Inl e \<Rightarrow> Inl e
      | Inr raw \<Rightarrow>
          Inr (''{'' @ str_join '','' (record_members r @ [json_string ''payload'' @ '':'' @ raw]) @ ''}''))"

definition make_record ::
  "logger_cfg \<Rightarrow> bytes \<Rightarrow> bytes \<Rightarrow> int \<Rightarrow> int \<Rightarrow> bytes \<Rightarrow> bytes \<Rightarrow> bytes \<Rightarrow> instant \<Rightarrow> audit_record" where
  "make_record c destination signalID mosaicVersion featureVersion mosaicScope mosaicBasis payload deliveredAt =
     \<lparr>RecTimestamp = format_rfc3339nano deliveredAt, RecDestination = destination, RecSignalID = signalID,
      RecMosaicVersion = mosaicVersion, RecFeatureVersion = featureVersion,
      RecMosaicScope = mosaicScope, RecMosaicBasis = mosaicBasis,
      PayloadSHA256 = hex_encode (sha256 payload), PayloadBytes = int (length payload),
      Payload = (if storePayload c then payload else [])\<rparr>"

definition Record ::
  "logger_cfg \<Rightarrow> bytes \<Rightarrow> bytes \<Rightarrow> int \<Rightarrow> int \<Rightarrow> bytes \<Rightarrow> bytes \<Rightarrow> bytes \<Rightarrow> instant \<Rightarrow> day_log \<Rightarrow> gores \<times> day_log" where
  "Record c destination signalID mosaicVersion featureVersion mosaicScope mosaicBasis payload deliveredAt s =
     (case marshal_record (make_record c destination signalID mosaicVersion featureVersion mosaicScope mosaicBasis
             payload deliveredAt) of
        Inl e \<Rightarrow> (Some (Wrapf ''failed to encode audit record'' e), s)
      | Inr line \<Rightarrow> append_line (audit_files c) (format_day deliveredAt) (line @ [CHR 0x0A]) s)"

definition CloseLogger :: "day_log \<Rightarrow> gores \<times> day_log" where
  "CloseLogger s = close_log s"

section \<open>Opening\<close>

text \<open>
  \<open>name\<close> is the name \<^verbatim>\<open>os.CreateTemp\<close> settles on; the deferred removal of the probe file
  ignores its error.
\<close>

definition drop_probe :: "path \<Rightarrow> fs \<Rightarrow> fs" where
  "drop_probe p d = snd (os_remove p d)"

definition probeWritable :: "bytes \<Rightarrow> bytes \<Rightarrow> fs \<Rightarrow> gores \<times> fs" where
  "probeWritable directory name d =
     (let p = (directory, name)
      in case os_open_excl p d of
           (Inl e, d1) \<Rightarrow> (Some (Wrapf ''failed to create probe file'' e), d1)
         | (Inr f, d1) \<Rightarrow>
             (case os_write f ''ok'' d1 of
                (Inl e, d2) \<Rightarrow> (Some (Wrapf ''failed to write probe file'' e), drop_probe p (snd (os_plain d2)))
              | (Inr _, d2) \<Rightarrow>
                  (case os_fsync f d2 of
                     (Inl e, d3) \<Rightarrow> (Some (Wrapf ''failed to fsync probe file'' e), drop_probe p (snd (os_plain d3)))
                   | (Inr _, d3) \<Rightarrow>
                       (case os_plain d3 of
                          (Inl e, d4) \<Rightarrow> (Some e, drop_probe p d4)
                        | (Inr _, d4) \<Rightarrow> (None, drop_probe p d4)))))"

text \<open>\<open>quoted\<close> is \<^verbatim>\<open>strconv.Quote(dir)\<close>, the \<^verbatim>\<open>%q\<close> of the message.\<close>

definition NewLogger :: "logger_cfg \<Rightarrow> string \<Rightarrow> bytes \<Rightarrow> fs \<Rightarrow> (goerr + day_log) \<times> fs" where
  "NewLogger c quoted name d =
     (case os_plain d of
        (Inl e, d1) \<Rightarrow> (Inl (Wrapf ''failed to create audit log dir'' e), d1)
      | (Inr _, d1) \<Rightarrow>
          (case probeWritable (audit_dir c) name d1 of
             (Some e, d2) \<Rightarrow> (Inl (Wrapf (''audit log directory '' @ quoted @ '' is not writable'') e), d2)
           | (None, d2) \<Rightarrow> (Inr \<lparr>log_disk = d2, log_day = [], log_f = None\<rparr>, d2)))"

section \<open>Laws\<close>

text \<open>The line of a delivery in the audit log, when it can be encoded.\<close>

definition record_line :: "logger_cfg \<Rightarrow> bytes \<Rightarrow> signalAuditFields \<Rightarrow> bytes \<Rightarrow> instant \<Rightarrow> goerr + bytes" where
  "record_line c destination a payload t =
     marshal_record (make_record c destination (AuditSignalID a) (AuditMosaicVersion a) (AuditFeatureVersion a)
       (AuditMosaicScope a) (AuditMosaicBasis a) payload t)"

definition record_fields :: "logger_cfg \<Rightarrow> bytes \<Rightarrow> signalAuditFields \<Rightarrow> bytes \<Rightarrow> instant \<Rightarrow> day_log \<Rightarrow> gores \<times> day_log" where
  "record_fields c destination a payload t s =
     Record c destination (AuditSignalID a) (AuditMosaicVersion a) (AuditFeatureVersion a) (AuditMosaicScope a)
       (AuditMosaicBasis a) payload t s"

lemma record_fields_cases:
  "(\<exists>e. record_line c dst a payload t = Inl e \<and>
        record_fields c dst a payload t s = (Some (Wrapf ''failed to encode audit record'' e), s))
   \<or> (\<exists>line. record_line c dst a payload t = Inr line \<and>
        record_fields c dst a payload t s = append_line (audit_files c) (format_day t) (line @ [CHR 0x0A]) s)"
  by (cases "record_line c dst a payload t") (simp_all add: record_line_def record_fields_def Record_def)

text \<open>Without the payload copy every record can be encoded.\<close>

lemma record_line_no_payload:
  "\<not> storePayload c \<Longrightarrow> record_line c dst a payload t =
    Inr (''{'' @ str_join '','' (record_members (make_record c dst (AuditSignalID a) (AuditMosaicVersion a)
      (AuditFeatureVersion a) (AuditMosaicScope a) (AuditMosaicBasis a) payload t)) @ ''}'')"
  by (simp add: record_line_def marshal_record_def make_record_def)

lemma crash_written_all:
  assumes "written c (log_disk s) day (day_content c (log_disk s) day)" "day_durable c (log_disk s) day"
    and "crash (log_disk s) d"
  shows "file_content d (day_path c day) = Some (day_content c (log_disk s) day)"
proof -
  obtain i where i: "lookup_path (log_disk s) (day_path c day) = Some i"
      "prefix (day_content c (log_disk s) day) (fs_stable (log_disk s) i)"
      "prefix (fs_stable (log_disk s) i) (fs_data (log_disk s) i)"
    using assms(1) by (auto simp: written_def)
  have c: "day_content c (log_disk s) day = fs_data (log_disk s) i" using i(1) by (simp add: day_content_def file_content_def)
  then have "fs_stable (log_disk s) i = fs_data (log_disk s) i" using i(2,3) by (simp add: prefix_order.antisym)
  moreover have "durable_file (log_disk s) (day_path c day) i" using assms(2) i(1) by (simp add: day_durable_def)
  ultimately show ?thesis using durable_content [OF assms(3)] c by simp
qed

lemma Record_append_only_ok:
  assumes "record_fields c dst a payload t s = (r, s')" "log_ok (audit_files c) s"
  shows "log_ok (audit_files c) s'"
  using record_fields_cases [of c dst a payload t s]
proof (elim disjE exE conjE)
  fix line
  assume "record_fields c dst a payload t s = append_line (audit_files c) (format_day t) (line @ [CHR 0x0A]) s"
  with assms append_outcome_ok [OF append_line_outcome] show ?thesis by metis
qed (use assms in simp)

section \<open>Properties\<close>

text \<open>
  C24. When \<^verbatim>\<open>Record\<close> returns nil, a power loss at any later moment before the next call leaves the
  day file with everything it held before and the new record as its last line, provided the day file is
  new or its name had already reached the disk. The exception is a day whose file was created by a call that reported a
  failed directory fsync (\<open>Record_retry_can_vanish\<close>).
\<close>

theorem Record_ack_survives_crash:
  assumes "record_fields c dst a payload t s = (None, s')" "log_ok (audit_files c) s"
    and "day_durable (audit_files c) (log_disk s) (format_day t)" "crash (log_disk s') d"
  shows "\<exists>line. record_line c dst a payload t = Inr line \<and>
    file_content d (audit_dir c, ''audit-'' @ format_day t @ ''.ndjson'')
      = Some (day_content (audit_files c) (log_disk s) (format_day t) @ line @ [CHR 0x0A])"
proof -
  obtain line where l: "record_line c dst a payload t = Inr line"
      "append_line (audit_files c) (format_day t) (line @ [CHR 0x0A]) s = (None, s')"
    using record_fields_cases [of c dst a payload t s] assms(1) by auto
  note o = append_line_outcome [OF l(2) assms(2)]
  have "\<not> dirsync_error (audit_files c) (format_day t) s None" by (simp add: dirsync_error_def)
  from append_outcome_durable [OF o assms(2,3) this] o crash_written_all [OF _ _ assms(4), of "audit_files c" "format_day t"]
  show ?thesis using l(1) by (auto simp: append_outcome_def day_path_def audit_files_def)
qed

text \<open>
  The audit log is append-only: whatever fails, every day file keeps all it held, no other day
  is touched, and a record is complete exactly when \<^verbatim>\<open>Record\<close> says so or a later step of the same
  call (the fsync) failed.
\<close>

theorem Record_append_only:
  assumes "record_fields c dst a payload t s = (r, s')" "log_ok (audit_files c) s"
  shows "log_ok (audit_files c) s'
    \<and> prefix (day_content (audit_files c) (log_disk s) d) (day_content (audit_files c) (log_disk s') d)
    \<and> (d \<noteq> format_day t \<longrightarrow> day_content (audit_files c) (log_disk s') d = day_content (audit_files c) (log_disk s) d)"
  using record_fields_cases [of c dst a payload t s]
proof (elim disjE exE conjE)
  fix line
  assume "record_fields c dst a payload t s = append_line (audit_files c) (format_day t) (line @ [CHR 0x0A]) s"
  with assms(1) have o: "append_outcome (audit_files c) (format_day t) (line @ [CHR 0x0A]) s r s'"
    using append_line_outcome [OF _ assms(2)] by simp
  show ?thesis
    using append_outcome_ok [OF o] append_outcome_prefix [OF o assms(2)]
      day_content_unaffected [OF append_outcome_unaffected [OF o assms(2)]] by simp
qed (use assms in simp)

text \<open>
  C31. After a failed directory fsync the handle of the new day file stays open, so the next
  \<^verbatim>\<open>Record\<close> of the day does not repeat the fsync: it returns nil, and a power loss can still take the
  whole file away.
\<close>

theorem Record_retry_can_vanish:
  "\<exists>s1 s2 d e. record_fields (c\<lparr>storePayload := False\<rparr>) dst a payload t (fresh_log [NoFault, NoFault, Fault m]) = (Some e, s1)
    \<and> record_fields (c\<lparr>storePayload := False\<rparr>) dst a payload t s1 = (None, s2)
    \<and> crash (log_disk s2) d \<and> file_content d (audit_dir c, ''audit-'' @ format_day t @ ''.ndjson'') = None"
proof -
  define c' where "c' = c\<lparr>storePayload := False\<rparr>"
  obtain line where "record_line c' dst a payload t = Inr line" using record_line_no_payload [of c'] by (auto simp: c'_def)
  then have rf: "record_fields c' dst a payload t s = append_line (audit_files c') (format_day t) (line @ [CHR 0x0A]) s" for s
    using record_fields_cases [of c' dst a payload t s] by auto
  obtain r1 s1 where 1: "record_fields c' dst a payload t (fresh_log [NoFault, NoFault, Fault m]) = (r1, s1)" by fastforce
  obtain r2 s2 where 2: "record_fields c' dst a payload t s1 = (r2, s2)" by fastforce
  note u = unsynced_append [OF 1 [unfolded rf] 2 [unfolded rf]]
  have "file_content ((empty_fs [])\<lparr>fs_data := x\<rparr>) p = None" for x p
    by (simp add: file_content_def lookup_path_def empty_fs_def)
  with 1 2 u unsynced_lost [OF u(3-5)] show ?thesis unfolding c'_def by blast
qed

text \<open>
  A write that fails half way leaves its part in the file; the next \<^verbatim>\<open>Record\<close> appends to it, so
  an acknowledged record need not be a line of its own.
\<close>

theorem Record_torn_line:
  "\<exists>s1 s2 e line. record_line (c\<lparr>storePayload := False\<rparr>) dst a payload t = Inr line
    \<and> record_fields (c\<lparr>storePayload := False\<rparr>) dst a payload t (fresh_log (replicate 4 NoFault @ [ShortWrite n m])) = (Some e, s1)
    \<and> record_fields (c\<lparr>storePayload := False\<rparr>) dst a payload t s1 = (None, s2)
    \<and> file_content (log_disk s2) (audit_dir c, ''audit-'' @ format_day t @ ''.ndjson'')
        = Some (take n (line @ [CHR 0x0A]) @ line @ [CHR 0x0A])"
proof -
  define c' where "c' = c\<lparr>storePayload := False\<rparr>"
  obtain line where l: "record_line c' dst a payload t = Inr line" using record_line_no_payload [of c'] by (auto simp: c'_def)
  then have rf: "record_fields c' dst a payload t s = append_line (audit_files c') (format_day t) (line @ [CHR 0x0A]) s" for s
    using record_fields_cases [of c' dst a payload t s] by auto
  obtain r1 s1 where 1: "record_fields c' dst a payload t (fresh_log (replicate 4 NoFault @ [ShortWrite n m])) = (r1, s1)" by fastforce
  obtain r2 s2 where 2: "record_fields c' dst a payload t s1 = (r2, s2)" by fastforce
  note torn = torn_append [OF 1 [unfolded rf] 2 [unfolded rf]]
  then have "file_content (log_disk s2) (day_path (audit_files c') (format_day t))
      = Some (take n (line @ [CHR 0x0A]) @ line @ [CHR 0x0A])"
    by (auto simp: day_content_def split: option.splits)
  with torn 1 2 l show ?thesis by (auto simp: c'_def day_path_def audit_files_def)
qed

section \<open>Witnesses\<close>

definition audit1 :: logger_cfg where
  "audit1 = \<lparr>audit_dir = ''/audit'', storePayload = False\<rparr>"

lemma fresh_record: "\<exists>s'. record_fields audit1 dst a payload t (fresh_log []) = (None, s')"
proof -
  obtain line where "record_line audit1 dst a payload t = Inr line"
    using record_line_no_payload [of audit1] by (auto simp: audit1_def)
  then have "record_fields audit1 dst a payload t (fresh_log [])
      = append_line (audit_files audit1) (format_day t) (line @ [CHR 0x0A]) (fresh_log [])"
    using record_fields_cases [of audit1 dst a payload t "fresh_log []"] by auto
  then show ?thesis using fresh_append by (metis surj_pair)
qed

theorem Record_ack_survives_crash_witness:
  "\<exists>s' line. record_fields audit1 ''dst'' zero_audit_fields ''{}'' 0 (fresh_log []) = (None, s') \<and>
    file_content (log_disk s') (''/audit'', ''audit-'' @ format_day 0 @ ''.ndjson'')
      = Some (day_content (audit_files audit1) (log_disk (fresh_log [])) (format_day 0) @ line @ [CHR 0x0A])"
proof -
  obtain s' where s: "record_fields audit1 ''dst'' zero_audit_fields ''{}'' 0 (fresh_log []) = (None, s')"
    using fresh_record by blast
  have "log_ok (audit_files audit1) s'" using Record_append_only_ok [OF s fresh_log_ok(1)] .
  then have "crash (log_disk s') (log_disk s')" by (simp add: log_ok_def crash_refl)
  from Record_ack_survives_crash [OF s fresh_log_ok this] s show ?thesis by (auto simp: audit1_def)
qed

theorem Record_append_only_witness:
  "\<exists>s'. record_fields audit1 ''dst'' zero_audit_fields ''{}'' 0 (fresh_log []) = (None, s') \<and> log_ok (audit_files audit1) s'"
proof -
  obtain s' where s: "record_fields audit1 ''dst'' zero_audit_fields ''{}'' 0 (fresh_log []) = (None, s')"
    using fresh_record by blast
  with Record_append_only [OF s fresh_log_ok(1)] show ?thesis by blast
qed

end
