(* ===== verification/Outbound.thy ===== *)
theory Outbound
  imports Wire GoCrypto "HOL-Library.Word"
begin

text \<open>
  internal/adapters/outbound.go: signing, one forward attempt to the vendor platform and the bounded
  retry loop. Building and sending the HTTP request are the standard library's: \<open>new_request\<close>
  is the error of \<^verbatim>\<open>http.NewRequestWithContext\<close> for a URL and \<open>send\<close> is
  \<^verbatim>\<open>hubClient.Do\<close> on the state \<open>'h\<close> of the remote side. The configuration values read
  by an attempt are in \<open>hub_env\<close>.
\<close>

section \<open>Permanent errors\<close>

text \<open>\<^verbatim>\<open>errors.As(err, &perm)\<close> walks the chain.\<close>

fun IsPermanent :: "goerr \<Rightarrow> bool" where
  "IsPermanent (Permanent e) = True"
| "IsPermanent (Wrapf m e) = IsPermanent e"
| "IsPermanent e = False"

definition SignPayload :: "bytes \<Rightarrow> bytes \<Rightarrow> string" where
  "SignPayload payload secret = hex_encode (hmac_sha256 secret payload)"

section \<open>One attempt\<close>

text \<open>\<open>cfg_url\<close> and \<open>cfg_key\<close> are the fields of the configuration, the others the
  environment variables \<^verbatim>\<open>API_KEY\<close> and \<^verbatim>\<open>HMAC_SECRET\<close>.\<close>

record hub_env =
  cfg_url :: bytes
  cfg_key :: bytes
  env_api_key :: bytes
  env_hmac_secret :: bytes

record http_request =
  req_url :: bytes
  req_headers :: "(string \<times> bytes) list"
  req_body :: bytes

text \<open>\<open>resp_body\<close> is what can be read of the body; a read error ends it early.\<close>

record http_response =
  StatusCode :: int
  resp_body :: bytes

definition api_key :: "hub_env \<Rightarrow> bytes" where
  "api_key v = (if cfg_key v = [] then env_api_key v else cfg_key v)"

definition signed_request :: "hub_env \<Rightarrow> bytes \<Rightarrow> http_request" where
  "signed_request v payload =
     \<lparr>req_url = cfg_url v,
      req_headers = [(''Content-Type'', ''application/json''), (''Authorization'', ''Bearer '' @ api_key v),
        (''X-Intel-Signature'', SignPayload payload (env_hmac_secret v))],
      req_body = payload\<rparr>"

definition hub_status_error :: "http_response \<Rightarrow> goerr" where
  "hub_status_error r = Leaf (''hub returned status '' @ show_int (StatusCode r) @ '': '' @ take 1024 (resp_body r))"

definition classify_response :: "http_response \<Rightarrow> gores" where
  "classify_response r =
     (if StatusCode r = 200 \<or> StatusCode r = 201 then None
      else if 400 \<le> StatusCode r \<and> StatusCode r < 500 \<and> StatusCode r \<noteq> 429
      then Some (Permanent (hub_status_error r))
      else Some (hub_status_error r))"

definition ForwardPayload ::
  "hub_env \<Rightarrow> (bytes \<Rightarrow> gores) \<Rightarrow> (http_request \<Rightarrow> 'h \<Rightarrow> (goerr + http_response) \<times> 'h) \<Rightarrow> bytes \<Rightarrow> 'h \<Rightarrow> gores \<times> 'h" where
  "ForwardPayload v new_request send payload h =
     (if cfg_url v = []
      then (Some (Permanent (Leaf ''no Hub/vendor destination configured (hub.hub_endpoint_url / HUB_API_URL not set)'')), h)
      else if api_key v = [] then (Some (Permanent (Leaf ''hub.api_key / API_KEY not set'')), h)
      else if env_hmac_secret v = [] then (Some (Permanent (Leaf ''HMAC_SECRET environment variable not set'')), h)
      else case new_request (cfg_url v) of
        Some e \<Rightarrow> (Some (Permanent (Wrapf ''failed to create request'' e)), h)
      | None \<Rightarrow>
          (case send (signed_request v payload) h of
             (Inl e, h1) \<Rightarrow> (Some (Wrapf ''failed to send request'' e), h1)
           | (Inr r, h1) \<Rightarrow> (classify_response r, h1)))"

text \<open>\<^verbatim>\<open>json.Marshal(signal)\<close> is its first argument.\<close>

definition ForwardToHub ::
  "goerr + bytes \<Rightarrow> hub_env \<Rightarrow> (bytes \<Rightarrow> gores) \<Rightarrow> (http_request \<Rightarrow> 'h \<Rightarrow> (goerr + http_response) \<times> 'h) \<Rightarrow> 'h \<Rightarrow> gores \<times> 'h" where
  "ForwardToHub marshalled v new_request send h =
     (case marshalled of
        Inl e \<Rightarrow> (Some (Permanent (Wrapf ''failed to marshal signal'' e)), h)
      | Inr payload \<Rightarrow> ForwardPayload v new_request send payload h)"

section \<open>The retry loop\<close>

text \<open>
  The state of the loop besides its index: the remote side, the counter
  \<^verbatim>\<open>signals_forwarded\<close> and the waits asked for so far (nanoseconds). \<open>cancelled i\<close> is the
  error of the context when it is done before the wait of attempt \<open>i\<close> ends. The backoff is
  computed in 64-bit arithmetic.
\<close>

record 'h retry_state =
  remote :: 'h
  signals_forwarded :: int
  waits :: "int list"

definition millisecond :: int where "millisecond = 1000000"

definition backoff :: "int \<Rightarrow> int" where
  "backoff i = sint (push_bit (nat (i - 1)) (250 :: 64 word) * 1000000)"

definition all_failed :: "int \<Rightarrow> gores \<Rightarrow> goerr" where
  "all_failed maxRetries lastErr =
     (let m = ''all '' @ show_int (maxRetries + 1) @ '' attempts failed''
      in case lastErr of None \<Rightarrow> Leaf (m @ '': %!w(<nil>)'') | Some e \<Rightarrow> Wrapf m e)"

definition wait_backoff :: "int \<Rightarrow> 'h retry_state \<Rightarrow> 'h retry_state" where
  "wait_backoff i s = (if 0 < i then s\<lparr>waits := waits s @ [backoff i]\<rparr> else s)"

definition try_once :: "('h \<Rightarrow> gores \<times> 'h) \<Rightarrow> 'h retry_state \<Rightarrow> gores \<times> 'h retry_state" where
  "try_once attempt s =
     (case attempt (remote s) of
        (None, h) \<Rightarrow> (None, s\<lparr>remote := h, signals_forwarded := signals_forwarded s + 1\<rparr>)
      | (Some e, h) \<Rightarrow> (Some e, s\<lparr>remote := h\<rparr>))"

function retry_loop ::
  "(int \<Rightarrow> gores) \<Rightarrow> ('h \<Rightarrow> gores \<times> 'h) \<Rightarrow> int \<Rightarrow> int \<Rightarrow> gores \<Rightarrow> 'h retry_state \<Rightarrow> gores \<times> 'h retry_state" where
  "retry_loop cancelled attempt maxRetries i lastErr s =
     (if maxRetries < i then (Some (all_failed maxRetries lastErr), s)
      else case (if 0 < i then cancelled i else None) of
        Some e \<Rightarrow> (Some (Wrapf (''cancelled before retry '' @ show_int i) e), wait_backoff i s)
      | None \<Rightarrow>
          (case try_once attempt (wait_backoff i s) of
             (None, s1) \<Rightarrow> (None, s1)
           | (Some e, s1) \<Rightarrow>
               if IsPermanent e then (Some e, s1)
               else retry_loop cancelled attempt maxRetries (i + 1) (Some e) s1))"
  by pat_completeness auto
termination by (relation "measure (\<lambda>(_, _, maxRetries, i, _, _). nat (maxRetries + 1 - i))") auto

declare retry_loop.simps [simp del]

definition forwardWithRetry ::
  "(int \<Rightarrow> gores) \<Rightarrow> int \<Rightarrow> ('h \<Rightarrow> gores \<times> 'h) \<Rightarrow> 'h retry_state \<Rightarrow> gores \<times> 'h retry_state" where
  "forwardWithRetry cancelled maxRetries attempt s = retry_loop cancelled attempt maxRetries 0 None s"

definition ForwardToHubWithRetry where
  "ForwardToHubWithRetry cancelled marshalled v new_request send maxRetries s =
     forwardWithRetry cancelled maxRetries (ForwardToHub marshalled v new_request send) s"

definition ForwardPayloadWithRetry where
  "ForwardPayloadWithRetry cancelled v new_request send payload maxRetries s =
     forwardWithRetry cancelled maxRetries (ForwardPayload v new_request send payload) s"

section \<open>Laws\<close>

lemma classify_response_simps:
  "classify_response r = None \<longleftrightarrow> StatusCode r = 200 \<or> StatusCode r = 201"
  "classify_response r = Some e \<Longrightarrow> IsPermanent e \<longleftrightarrow> 400 \<le> StatusCode r \<and> StatusCode r < 500 \<and> StatusCode r \<noteq> 429"
  by (auto simp: classify_response_def hub_status_error_def split: if_splits)

text \<open>What the client library may return: its errors are not the package's own.\<close>

definition foreign_errors :: "(http_request \<Rightarrow> 'h \<Rightarrow> (goerr + http_response) \<times> 'h) \<Rightarrow> bool" where
  "foreign_errors send \<longleftrightarrow> (\<forall>q h e h'. send q h = (Inl e, h') \<longrightarrow> \<not> IsPermanent e)"

definition configured :: "hub_env \<Rightarrow> bool" where
  "configured v \<longleftrightarrow> cfg_url v \<noteq> [] \<and> api_key v \<noteq> [] \<and> env_hmac_secret v \<noteq> []"

lemma backoff_values: "backoff 1 = 250 * millisecond" "backoff 2 = 500 * millisecond"
  unfolding backoff_def millisecond_def by code_simp+

section \<open>The loop against its specification\<close>

text \<open>
  The outcomes of \<open>n\<close> attempts in a row, and the remote side after them. An outcome decides when
  it is a success or a permanent error; the loop ends at the first one that does.
\<close>

fun outcomes :: "('h \<Rightarrow> gores \<times> 'h) \<Rightarrow> nat \<Rightarrow> 'h \<Rightarrow> (gores \<times> 'h) list" where
  "outcomes attempt 0 h = []"
| "outcomes attempt (Suc n) h = (case attempt h of (r, h1) \<Rightarrow> (r, h1) # outcomes attempt n h1)"

definition decisive :: "gores \<Rightarrow> bool" where
  "decisive r \<longleftrightarrow> (case r of None \<Rightarrow> True | Some e \<Rightarrow> IsPermanent e)"

definition first_decisive :: "int \<Rightarrow> gores \<Rightarrow> (gores \<times> 'h) list \<Rightarrow> gores" where
  "first_decisive maxRetries lastErr os =
     (case find (\<lambda>x. decisive (fst x)) os of
        Some x \<Rightarrow> fst x
      | None \<Rightarrow> Some (all_failed maxRetries (if os = [] then lastErr else fst (last os))))"

lemma remote_wait [simp]: "remote (wait_backoff i s) = remote s" "signals_forwarded (wait_backoff i s) = signals_forwarded s"
  by (simp_all add: wait_backoff_def)

lemma retry_loop_first:
  assumes "0 \<le> i"
  shows "fst (retry_loop (\<lambda>_. None) attempt m i le s)
    = first_decisive m le (outcomes attempt (nat (m + 1 - i)) (remote s))"
  using assms
proof (induction "\<lambda>_::int. None :: gores" attempt m i le s rule: retry_loop.induct)
  case (1 attempt m i le s)
  show ?case
  proof (cases "m < i")
    case True
    then show ?thesis by (simp add: retry_loop.simps [of _ _ m i] first_decisive_def)
  next
    case False
    then obtain n where n: "nat (m + 1 - i) = Suc n" "n = nat (m + 1 - (i + 1))" by (cases "nat (m + 1 - i)") auto
    obtain r h1 where a: "attempt (remote s) = (r, h1)" by fastforce
    show ?thesis
    proof (cases r)
      case None
      then show ?thesis using False
        by (simp add: retry_loop.simps [of _ _ m i] try_once_def a n(1) first_decisive_def decisive_def)
    next
      case (Some e)
      define s1 where "s1 = (wait_backoff i s)\<lparr>remote := h1\<rparr>"
      have t: "try_once attempt (wait_backoff i s) = (Some e, s1)" by (simp add: try_once_def a Some s1_def)
      show ?thesis
      proof (cases "IsPermanent e")
        case True
        then show ?thesis using False t
          by (simp add: retry_loop.simps [of _ _ m i] a n(1) Some first_decisive_def decisive_def)
      next
        case np: False
        have "fst (retry_loop (\<lambda>_. None) attempt m (i + 1) (Some e) s1) = first_decisive m (Some e) (outcomes attempt n h1)"
          using 1(1) [of "Some e" s1 e] False np t 1(2) n(2) by (simp add: s1_def)
        then show ?thesis using False np t
          by (simp add: retry_loop.simps [of _ _ m i le s] a n(1) Some first_decisive_def decisive_def split: option.split)
      qed
    qed
  qed
qed

text \<open>An attempt that also counts how often it was made.\<close>

definition counted :: "('h \<Rightarrow> gores \<times> 'h) \<Rightarrow> 'h \<times> nat \<Rightarrow> gores \<times> 'h \<times> nat" where
  "counted attempt h = (case attempt (fst h) of (r, h1) \<Rightarrow> (r, (h1, Suc (snd h))))"

definition spent_by :: "nat \<Rightarrow> int \<Rightarrow> ('h \<times> nat) retry_state \<Rightarrow> bool" where
  "spent_by n w s \<longleftrightarrow> snd (remote s) \<le> n \<and> sum_list (waits s) \<le> w"

lemma spent_try:
  "spent_by n w s \<Longrightarrow> try_once (counted attempt) s = (r, s1) \<Longrightarrow> spent_by (Suc n) w s1"
  by (auto simp: try_once_def counted_def spent_by_def split: prod.splits option.splits)

lemma spent_mono: "spent_by n w s \<Longrightarrow> n \<le> n' \<Longrightarrow> w \<le> w' \<Longrightarrow> spent_by n' w' s"
  by (simp add: spent_by_def)

text \<open>\<open>n\<close> attempts and waits of \<open>w\<close> so far leave the rest of the loop within the budget.\<close>

lemma retry_loop_spent:
  assumes "retry_loop cancelled (counted attempt) m i le s = (r, s')" "spent_by n w s" "0 \<le> i" "i \<le> m + 1"
    and "\<And>k. i \<le> k \<Longrightarrow> k \<le> m \<Longrightarrow> 0 < k \<Longrightarrow> 0 \<le> backoff k"
  shows "spent_by (n + nat (m + 1 - i)) (w + sum_list (map backoff [max 1 i..m])) s'"
  using assms
proof (induction cancelled "counted attempt" m i le s arbitrary: n w rule: retry_loop.induct)
  case (1 cancelled m i le s)
  have nonneg: "0 \<le> sum_list (map backoff [j..m])" if "i \<le> j" "0 < j" for j
    using that 1(6) by (intro sum_list_nonneg) auto
  show ?case
  proof (cases "m < i")
    case True
    with 1(2,3) nonneg [of "max 1 i"] show ?thesis by (auto simp: retry_loop.simps [of _ _ m i] intro: spent_mono)
  next
    case False
    let ?w = "w + (if 0 < i then backoff i else 0)"
    have sw: "spent_by n ?w (wait_backoff i s)" using 1(3) by (simp add: spent_by_def wait_backoff_def)
    have le: "?w + sum_list (map backoff [i + 1..m]) \<le> w + sum_list (map backoff [max 1 i..m])"
      using False 1(4) by (cases "i = 0") (simp_all add: upto_rec1 [of i m])
    have rest: "nat (m + 1 - i) = Suc (nat (m + 1 - (i + 1)))" using False by simp
    have n0: "0 \<le> sum_list (map backoff [i + 1..m])" using nonneg 1(4) by simp
    obtain r1 s1 where t: "try_once (counted attempt) (wait_backoff i s) = (r1, s1)" by fastforce
    note s1 = spent_try [OF sw t]
    have e: "max 1 (i + 1) = i + 1" using 1(4) by simp
    show ?thesis
    proof (cases "\<exists>e. (if 0 < i then cancelled i else None) = Some e \<or> r1 = None \<or> (r1 = Some e \<and> IsPermanent e)")
      case True
      then have "s' = wait_backoff i s \<or> s' = s1"
        using 1(2) False by (auto simp: retry_loop.simps [of _ _ m i] t split: if_splits option.splits)
      then show ?thesis using sw s1 le n0 rest by (auto intro: spent_mono)
    next
      case goon: False
      then obtain e1 where r1: "r1 = Some e1" "\<not> IsPermanent e1" "(if 0 < i then cancelled i else None) = None"
        by (cases r1) (auto simp del: not_None_eq)
      then have "retry_loop cancelled (counted attempt) m (i + 1) (Some e1) s1 = (r, s')"
        using 1(2) False t by (simp add: retry_loop.simps [of _ _ m i])
      from 1(1) [OF False r1(3) t [symmetric] r1(1,2) this s1] 1(4-6) False e
      have "spent_by (Suc n + nat (m + 1 - (i + 1))) (?w + sum_list (map backoff [i + 1..m])) s'" by simp
      then show ?thesis using le rest by (auto intro: spent_mono)
    qed
  qed
qed

section \<open>Properties\<close>

text \<open>
  C27. The verdict of one attempt. It is nil exactly when the request, signed over the exact payload
  bytes, was sent and answered 200 or 201; it is permanent (dead-lettered by the spool) exactly when
  the configuration is incomplete, the URL is rejected or the answer is a 4xx other than 429; and it
  is to be retried in every other case, other 2xx answers included.
\<close>

theorem ForwardPayload_verdict:
  assumes "ForwardPayload v new_request send payload h = (r, h')" "foreign_errors send"
  shows "(r = None \<longleftrightarrow> configured v \<and> new_request (cfg_url v) = None
      \<and> (\<exists>a. fst (send (signed_request v payload) h) = Inr a \<and> StatusCode a \<in> {200, 201}))
    \<and> ((\<exists>e. r = Some e \<and> IsPermanent e) \<longleftrightarrow> \<not> configured v \<or> new_request (cfg_url v) \<noteq> None
      \<or> (\<exists>a. fst (send (signed_request v payload) h) = Inr a \<and> 400 \<le> StatusCode a \<and> StatusCode a < 500 \<and> StatusCode a \<noteq> 429))
    \<and> h' = (if configured v \<and> new_request (cfg_url v) = None then snd (send (signed_request v payload) h) else h)"
proof (cases "configured v \<and> new_request (cfg_url v) = None")
  case True
  obtain x h1 where x: "send (signed_request v payload) h = (x, h1)" by fastforce
  have np: "\<not> IsPermanent e" if "x = Inl e" for e using assms(2) x that by (auto simp: foreign_errors_def)
  have "(r, h') = (case x of Inl e \<Rightarrow> Some (Wrapf ''failed to send request'' e) | Inr a \<Rightarrow> classify_response a, h1)"
    using assms(1) True x by (simp add: ForwardPayload_def configured_def split: sum.splits)
  with True x np show ?thesis
    by (auto simp: classify_response_def hub_status_error_def split: sum.splits)
next
  case False
  then show ?thesis using assms(1)
    by (auto simp: ForwardPayload_def configured_def split: if_splits option.splits)
qed

definition hub1 :: hub_env where
  "hub1 = \<lparr>cfg_url = ''https://hub'', cfg_key = ''k'', env_api_key = [], env_hmac_secret = ''s''\<rparr>"

theorem ForwardPayload_verdict_witness:
  "fst (ForwardPayload hub1 (\<lambda>_. None) (\<lambda>q h. (Inr \<lparr>StatusCode = 201, resp_body = []\<rparr>, Suc h)) ''{}'' 0) = None"
proof -
  obtain r h' where r: "ForwardPayload hub1 (\<lambda>_. None) (\<lambda>q h. (Inr \<lparr>StatusCode = 201, resp_body = []\<rparr>, Suc h)) ''{}'' 0 = (r, h')"
    by fastforce
  have "foreign_errors (\<lambda>q h. (Inr \<lparr>StatusCode = 201, resp_body = []\<rparr>, Suc h))" by (simp add: foreign_errors_def)
  from ForwardPayload_verdict [OF r this] r show ?thesis by (simp add: hub1_def configured_def api_key_def)
qed

text \<open>
  As long as the context is not cancelled, the retry loop returns the outcome of the first
  attempt that succeeds or fails permanently among the first \<open>maxRetries + 1\<close> ones, and the
  "all attempts failed" error around the last one when there is none.
\<close>

theorem forwardWithRetry_first_decisive:
  "fst (forwardWithRetry (\<lambda>_. None) maxRetries attempt s)
    = first_decisive maxRetries None (outcomes attempt (nat (maxRetries + 1)) (remote s))"
  using retry_loop_first [of 0 attempt maxRetries None s] by (simp add: forwardWithRetry_def)

text \<open>
  C30. With the two retries the gateway asks for, whatever the answers and whenever the request is
  cancelled, the loop ends after at most three attempts and waits of at most 750 ms; with attempts
  of at most 2.5 s it takes at most 8.25 s, inside the server's write timeout of 10 s.
\<close>

theorem forwardWithRetry_budget:
  assumes "forwardWithRetry cancelled 2 (counted attempt) s = (r, s')" "snd (remote s) = 0" "waits s = []"
  shows "snd (remote s') \<le> 3 \<and> sum_list (waits s') \<le> 750 * millisecond
    \<and> int (snd (remote s')) * (2500 * millisecond) + sum_list (waits s') \<le> 8250 * millisecond"
proof -
  have b: "0 \<le> backoff k" if "(0::int) \<le> k" "k \<le> 2" "0 < k" for k
  proof -
    have "k = 1 \<or> k = 2" using that by auto
    then show ?thesis using backoff_values by (auto simp: millisecond_def)
  qed
  have "spent_by 0 0 s" using assms(2,3) by (simp add: spent_by_def)
  from retry_loop_spent [OF assms(1) [unfolded forwardWithRetry_def] this] b
  have "spent_by (nat 3) (sum_list (map backoff [1..2])) s'" by simp
  moreover have "[1..2] = [1, 2 :: int]" by (simp add: upto_rec1)
  ultimately have "snd (remote s') \<le> 3" "sum_list (waits s') \<le> 750 * millisecond"
    using backoff_values by (simp_all add: spent_by_def millisecond_def)
  then show ?thesis by (simp add: millisecond_def)
qed

theorem forwardWithRetry_budget_witness:
  "sum_list (waits (snd (forwardWithRetry (\<lambda>_. None) 2 (counted (\<lambda>h. (Some (Leaf ''down''), h)))
    \<lparr>remote = ((), 0), signals_forwarded = 0, waits = []\<rparr>))) \<le> 750 * millisecond"
proof -
  obtain r s' where r: "forwardWithRetry (\<lambda>_. None) 2 (counted (\<lambda>h. (Some (Leaf ''down''), h)))
    \<lparr>remote = ((), 0), signals_forwarded = 0, waits = []\<rparr> = (r, s')" by fastforce
  from forwardWithRetry_budget [OF r] show ?thesis by (simp add: r)
qed

end
