(* ===== verification/FailureCounter.thy ===== *)
theory FailureCounter
  imports Main
begin

text \<open>
  Counters of consecutive failures, as kept by the spool (directory fsyncs) and by the audited
  delivery (audit writes) and read by the readiness check: an interface with its one law.
\<close>

text \<open>The number of failures since the last success of a history (\<open>True\<close> is a success).\<close>

definition trailing_failures :: "bool list \<Rightarrow> nat" where
  "trailing_failures os = length (takeWhile Not (rev os))"

lemma trailing_failures_snoc:
  "trailing_failures (os @ [True]) = 0" "trailing_failures (os @ [False]) = Suc (trailing_failures os)"
  by (simp_all add: trailing_failures_def)

lemma trailing_failures_replicate: "n \<le> trailing_failures (os @ replicate n False)"
  by (simp add: trailing_failures_def takeWhile_append)

locale failure_counter =
  fixes fail :: "'s \<Rightarrow> 's" and succeed :: "'s \<Rightarrow> 's" and count :: "'s \<Rightarrow> int"
  assumes count_fail: "count (fail s) = count s + 1"
    and count_succeed: "count (succeed s) = 0"
begin

lemma count_history:
  "count (foldl (\<lambda>s ok. if ok then succeed s else fail s) s os)
    = (if True \<in> set os then 0 else count s) + int (trailing_failures os)"
proof (induction os rule: rev_induct)
  case Nil
  then show ?case by (simp add: trailing_failures_def)
next
  case (snoc x xs)
  then show ?case by (cases x) (simp_all add: trailing_failures_snoc count_fail count_succeed)
qed

end

end
