(* ===== verification/EgressAudit.thy ===== *)
theory EgressAudit
  imports AuditLog SpoolLaws Outbound FailureCounter
begin

text \<open>
  cmd/gateway/audit.go: delivery wrapped with the egress audit record, the redelivery guard and the
  failure count behind the readiness signal. \<open>audit_state\<close> holds what the closures share: the
  destination's own state, the audit logger, the guard, the health counter, the metric
  \<^verbatim>\<open>audit_write_failures\<close> and the coming readings of \<^verbatim>\<open>time.Now()\<close>. The audit log has its own
  directory and hence its own disk state, apart from the one of the spool.
\<close>

record 'd audit_state =
  destination :: 'd
  logger :: day_log
  failures :: int
  digest :: bytes
  audit_write_failures :: int
  clock :: "instant list"

definition read_clock :: "'d audit_state \<Rightarrow> instant" where
  "read_clock w = (case clock w of [] \<Rightarrow> 0 | t # _ \<Rightarrow> t)"

section \<open>auditHealth\<close>

definition recordSuccess :: "'d audit_state \<Rightarrow> 'd audit_state" where
  "recordSuccess w = w\<lparr>failures := 0\<rparr>"

definition recordFailure :: "'d audit_state \<Rightarrow> int \<times> 'd audit_state" where
  "recordFailure w = (failures w + 1, w\<lparr>failures := failures w + 1\<rparr>)"

text \<open>\<^verbatim>\<open>auditHealth.status\<close>: the count the readiness check polls.\<close>

definition health_status :: "'d audit_state \<Rightarrow> int" where
  [simp]: "health_status w = failures w"

section \<open>redeliveryGuard\<close>

definition hexDigest :: "bytes \<Rightarrow> string" where
  "hexDigest payload = hex_encode (sha256 payload)"

definition matches :: "bytes \<Rightarrow> 'd audit_state \<Rightarrow> bool" where
  "matches dg w \<longleftrightarrow> digest w \<noteq> [] \<and> digest w = dg"

definition markDelivered :: "bytes \<Rightarrow> 'd audit_state \<Rightarrow> 'd audit_state" where
  "markDelivered dg w = w\<lparr>digest := dg\<rparr>"

definition clear_guard :: "'d audit_state \<Rightarrow> 'd audit_state" where
  "clear_guard w = w\<lparr>digest := []\<rparr>"

section \<open>Audited delivery\<close>

definition writeAuditFromPayload ::
  "logger_cfg \<Rightarrow> bytes \<Rightarrow> bytes \<Rightarrow> instant \<Rightarrow> day_log \<Rightarrow> gores \<times> day_log" where
  "writeAuditFromPayload c dst payload deliveredAt s =
     (case decode_audit_fields payload of
        None \<Rightarrow> (Some (Wrapf ''failed to parse delivered signal for audit'' json_error), s)
      | Some a \<Rightarrow> record_fields c dst a payload deliveredAt s)"

text \<open>Writing the record with the time read from the clock.\<close>

definition write_audit :: "logger_cfg \<Rightarrow> bytes \<Rightarrow> bytes \<Rightarrow> 'd audit_state \<Rightarrow> gores \<times> 'd audit_state" where
  "write_audit c dst payload w =
     (case writeAuditFromPayload c dst payload (read_clock w) (logger w) of
        (r, l) \<Rightarrow> (r, w\<lparr>logger := l, clock := tl (clock w)\<rparr>))"

definition count_audit_failure :: "'d audit_state \<Rightarrow> 'd audit_state" where
  "count_audit_failure w = w\<lparr>audit_write_failures := audit_write_failures w + 1\<rparr>"

definition audit_confirmed :: "logger_cfg \<Rightarrow> bytes \<Rightarrow> bytes \<Rightarrow> 'd audit_state \<Rightarrow> gores \<times> 'd audit_state" where
  "audit_confirmed c dst payload w0 =
     (case write_audit c dst payload w0 of
        (Some e, w) \<Rightarrow>
          (case recordFailure (count_audit_failure w) of (n, w1) \<Rightarrow>
             (Some (Wrapf (''signal delivered but audit record failed to write (consecutive audit failures: ''
                @ show_int n @ ''; NOT re-delivering to the destination while only the audit write is retried - ''
                @ ''see auditingForward doc comment)'') e), w1))
      | (None, w) \<Rightarrow> (None, recordSuccess (clear_guard w)))"

definition auditingForward ::
  "logger_cfg \<Rightarrow> bytes \<Rightarrow> (bytes \<Rightarrow> 'd \<Rightarrow> gores \<times> 'd) \<Rightarrow> bytes \<Rightarrow> 'd audit_state \<Rightarrow> gores \<times> 'd audit_state" where
  "auditingForward c dst deliver payload w =
     (let dg = hexDigest payload
      in if matches dg w then audit_confirmed c dst payload w
         else case deliver payload (destination w) of
           (Some e, d) \<Rightarrow> (Some e, w\<lparr>destination := d\<rparr>)
         | (None, d) \<Rightarrow> audit_confirmed c dst payload (markDelivered dg (w\<lparr>destination := d\<rparr>)))"

definition auditingSyncForward ::
  "logger_cfg \<Rightarrow> bytes \<Rightarrow> (bytes \<Rightarrow> 'd \<Rightarrow> gores \<times> 'd) \<Rightarrow> bytes \<Rightarrow> 'd audit_state \<Rightarrow> gores \<times> 'd audit_state" where
  "auditingSyncForward c dst deliver payload w =
     (case deliver payload (destination w) of
        (Some e, d) \<Rightarrow> (Some e, w\<lparr>destination := d\<rparr>)
      | (None, d) \<Rightarrow>
          (case write_audit c dst payload (w\<lparr>destination := d\<rparr>) of
             (Some e, w1) \<Rightarrow>
               (Some (Wrapf ''signal delivered but audit record failed to write (caller may retry, causing a duplicate delivery)'' e),
                snd (recordFailure (count_audit_failure w1)))
           | (None, w1) \<Rightarrow> (None, recordSuccess w1)))"

section \<open>The audit log as an entry log\<close>

text \<open>\<open>audited c dst s (payload, t)\<close>: the record of the delivery of the payload is in the log.\<close>

definition audited :: "logger_cfg \<Rightarrow> bytes \<Rightarrow> day_log \<Rightarrow> bytes \<times> instant \<Rightarrow> bool" where
  "audited c dst s e \<longleftrightarrow>
     (\<exists>a line. decode_audit_fields (fst e) = Some a \<and> record_line c dst a (fst e) (snd e) = Inr line
        \<and> stored (audit_files c) s (format_day (snd e), line @ [CHR 0x0A]))"

lemma writeAudit_cases:
  "(\<exists>e. writeAuditFromPayload c dst payload t s = (Some e, s))
   \<or> (\<exists>a line. decode_audit_fields payload = Some a \<and> record_line c dst a payload t = Inr line
        \<and> writeAuditFromPayload c dst payload t s = append_line (audit_files c) (format_day t) (line @ [CHR 0x0A]) s)"
  using record_fields_cases [of c dst _ payload t s]
  by (cases "decode_audit_fields payload") (auto simp: writeAuditFromPayload_def)

interpretation audit_entries: entry_log "\<lambda>e. writeAuditFromPayload c dst (fst e) (snd e)" "log_ok (audit_files c)" "audited c dst"
  for c dst
proof
  fix s e r s' m
  assume ok: "log_ok (audit_files c) s" and w: "writeAuditFromPayload c dst (fst e) (snd e) s = (r, s')"
  from writeAudit_cases [of c dst "fst e" "snd e" s]
  consider "s' = s" | line where "append_line (audit_files c) (format_day (snd e)) (line @ [CHR 0x0A]) s = (r, s')"
    using w by auto
  then have "log_ok (audit_files c) s' \<and> (audited c dst s m \<longrightarrow> audited c dst s' m)"
  proof cases
    case 2
    then show ?thesis
      using line_log.append_inv [OF ok, of "(format_day (snd e), line @ [CHR 0x0A])" r s']
        line_log.append_keeps [OF ok, of "(format_day (snd e), line @ [CHR 0x0A])" r s']
      by (auto simp: audited_def)
  qed (use ok in simp)
  then show "log_ok (audit_files c) s'" "audited c dst s m \<Longrightarrow> audited c dst s' m" by auto
next
  fix s e s'
  assume ok: "log_ok (audit_files c) s" and w: "writeAuditFromPayload c dst (fst e) (snd e) s = (None, s')"
  from writeAudit_cases [of c dst "fst e" "snd e" s] w obtain a line where
    "decode_audit_fields (fst e) = Some a" "record_line c dst a (fst e) (snd e) = Inr line"
    "append_line (audit_files c) (format_day (snd e)) (line @ [CHR 0x0A]) s = (None, s')" by auto
  then show "audited c dst s' e"
    using line_log.append_holds [OF ok, of "(format_day (snd e), line @ [CHR 0x0A])" s'] by (auto simp: audited_def)
qed

section \<open>Laws of audited delivery\<close>

abbreviation logger_ok :: "logger_cfg \<Rightarrow> 'd audit_state \<Rightarrow> bool" where
  "logger_ok c w \<equiv> log_ok (audit_files c) (logger w)"

lemma audit_not_permanent:
  "append_line l day line s = (Some e, s') \<Longrightarrow> \<not> IsPermanent e"
  "writeAuditFromPayload c dst p t d = (Some e, d') \<Longrightarrow> \<not> IsPermanent e"
proof -
  have leaf: "\<not> IsPermanent e" if "syscall act d = (Inl e, d')" "\<And>s e s'. act s = (Inl e, s') \<Longrightarrow> \<not> IsPermanent e"
    for act :: "'a io" and d e d'
    using that by (auto simp: syscall_def split: fault.splits)
  have calls: "os_open_excl q d = (Inl e, d') \<Longrightarrow> \<not> IsPermanent e" "os_open_append q d = (Inl e, d') \<Longrightarrow> \<not> IsPermanent e"
    "os_fsync i d = (Inl e, d') \<Longrightarrow> \<not> IsPermanent e" "os_plain d = (Inl e, d') \<Longrightarrow> \<not> IsPermanent e"
    "os_fsync_dir n d = (Inl e, d') \<Longrightarrow> \<not> IsPermanent e" "os_write i b d = (Inl e, d') \<Longrightarrow> \<not> IsPermanent e" for q d e d' i n b
    unfolding os_open_excl_def os_open_append_def os_fsync_def os_plain_def os_fsync_dir_def os_write_def
    by (auto dest!: leaf simp: enoent_def split: if_splits option.splits prod.splits fault.splits)
  have opn: "OpenAppendFile q d = (Inl e, d') \<Longrightarrow> \<not> IsPermanent e" "Sync n d = (Inl e, d') \<Longrightarrow> \<not> IsPermanent e" for q d e d' n
    by (auto simp: OpenAppendFile_def Sync_def dest: calls split: sum.splits prod.splits if_splits)
  have app: "append_line l day line s = (Some e, s') \<Longrightarrow> \<not> IsPermanent e" for l day line s e s'
    by (auto simp: append_line_def ensure_day_def open_day_def write_line_def Let_def dest: calls opn
        split: sum.splits prod.splits if_splits option.splits)
  then show "append_line l day line s = (Some e, s') \<Longrightarrow> \<not> IsPermanent e" .
  have "marshal_record r = Inl e \<Longrightarrow> \<not> IsPermanent e" for r e
    by (auto simp: marshal_record_def marshal_raw_def json_error_def split: if_splits sum.splits option.splits)
  then show "writeAuditFromPayload c dst p t d = (Some e, d') \<Longrightarrow> \<not> IsPermanent e"
    using app by (auto simp: writeAuditFromPayload_def record_fields_def Record_def json_error_def split: option.splits sum.splits)
qed

text \<open>\<open>audited_in c dst w p\<close>: some record of the delivery of \<open>p\<close> is in the log of \<open>w\<close>.\<close>

definition audited_in :: "logger_cfg \<Rightarrow> bytes \<Rightarrow> 'd audit_state \<Rightarrow> bytes \<Rightarrow> bool" where
  "audited_in c dst w p \<longleftrightarrow> (\<exists>t. audited c dst (logger w) (p, t))"

text \<open>What an operation on the shared state never undoes.\<close>

definition log_grows :: "logger_cfg \<Rightarrow> bytes \<Rightarrow> 'd audit_state \<Rightarrow> 'd audit_state \<Rightarrow> bool" where
  "log_grows c dst w w' \<longleftrightarrow> logger_ok c w' \<and> (\<forall>p. audited_in c dst w p \<longrightarrow> audited_in c dst w' p)"

lemma write_audit_outcome:
  assumes "write_audit c dst p w = (r, w')" "logger_ok c w"
  shows "log_grows c dst w w'" "r = None \<Longrightarrow> audited_in c dst w' p" "\<And>e. r = Some e \<Longrightarrow> \<not> IsPermanent e"
    "destination w' = destination w" "digest w' = digest w" "failures w' = failures w"
proof -
  obtain l where l: "writeAuditFromPayload c dst p (read_clock w) (logger w) = (r, l)" and w': "w' = w\<lparr>logger := l, clock := tl (clock w)\<rparr>"
    using assms(1) by (auto simp: write_audit_def split: prod.splits)
  have "writeAuditFromPayload c dst (fst (p, read_clock w)) (snd (p, read_clock w)) (logger w) = (r, l)" using l by simp
  note i = audit_entries.append_inv [OF assms(2) this] and k = audit_entries.append_keeps [OF assms(2) this]
  show "log_grows c dst w w'" using i k by (auto simp: log_grows_def audited_in_def w')
  show "audited_in c dst w' p" if "r = None"
    using audit_entries.append_holds [OF assms(2), of dst "(p, read_clock w)" l] l that by (auto simp: audited_in_def w')
  show "\<not> IsPermanent e" if "r = Some e" for e using audit_not_permanent(2) [OF l [unfolded that]] .
  show "destination w' = destination w" "digest w' = digest w" "failures w' = failures w" by (simp_all add: w')
qed

lemma audit_confirmed_outcome:
  assumes "audit_confirmed c dst p w = (r, w')" "logger_ok c w"
  shows "log_grows c dst w w'" "destination w' = destination w"
    "r = None \<Longrightarrow> audited_in c dst w' p \<and> digest w' = [] \<and> failures w' = 0"
    "\<And>e. r = Some e \<Longrightarrow> \<not> IsPermanent e \<and> digest w' = digest w \<and> failures w' = failures w + 1"
proof -
  obtain r1 w1 where 1: "write_audit c dst p w = (r1, w1)" by fastforce
  note o = write_audit_outcome [OF 1 assms(2)]
  have "(r1 = None \<and> r = None \<and> w' = recordSuccess (clear_guard w1))
      \<or> (\<exists>e m. r1 = Some e \<and> r = Some (Wrapf m e) \<and> w' = snd (recordFailure (count_audit_failure w1)))"
    using assms(1) by (cases r1) (auto simp: audit_confirmed_def 1 split: prod.splits)
  then have "log_grows c dst w w' \<and> destination w' = destination w
      \<and> (r = None \<longrightarrow> audited_in c dst w' p \<and> digest w' = [] \<and> failures w' = 0)
      \<and> (\<forall>e. r = Some e \<longrightarrow> \<not> IsPermanent e \<and> digest w' = digest w \<and> failures w' = failures w + 1)"
    using o by (elim disjE exE conjE)
      (simp_all add: log_grows_def audited_in_def recordSuccess_def clear_guard_def recordFailure_def count_audit_failure_def)
  then show "log_grows c dst w w'" "destination w' = destination w"
    "r = None \<Longrightarrow> audited_in c dst w' p \<and> digest w' = [] \<and> failures w' = 0"
    "\<And>e. r = Some e \<Longrightarrow> \<not> IsPermanent e \<and> digest w' = digest w \<and> failures w' = failures w + 1" by auto
qed

lemma hexDigest_not_Nil [simp]: "hexDigest p \<noteq> []"
proof -
  have "length (hexDigest p) = 64" by (simp add: hexDigest_def)
  then show ?thesis by auto
qed

text \<open>
  An audited delivery either was refused by the destination, or reached it now or at an earlier
  attempt (the guard) and then wrote the record or not.
\<close>

definition refused :: "(bytes \<Rightarrow> 'd \<Rightarrow> gores \<times> 'd) \<Rightarrow> bytes \<Rightarrow> 'd audit_state \<Rightarrow> gores \<Rightarrow> 'd audit_state \<Rightarrow> bool" where
  "refused deliver p w r w' \<longleftrightarrow> \<not> matches (hexDigest p) w \<and> r \<noteq> None \<and> deliver p (destination w) = (r, destination w')
     \<and> logger w' = logger w \<and> digest w' = digest w \<and> failures w' = failures w"

definition confirmed :: "(bytes \<Rightarrow> 'd \<Rightarrow> gores \<times> 'd) \<Rightarrow> bytes \<Rightarrow> 'd audit_state \<Rightarrow> 'd audit_state \<Rightarrow> bool" where
  "confirmed deliver p w w' \<longleftrightarrow>
     (if matches (hexDigest p) w then destination w' = destination w
      else deliver p (destination w) = (None, destination w'))"

definition recorded :: "logger_cfg \<Rightarrow> bytes \<Rightarrow> bytes \<Rightarrow> 'd audit_state \<Rightarrow> gores \<Rightarrow> 'd audit_state \<Rightarrow> bool" where
  "recorded c dst p w r w' \<longleftrightarrow>
     (case r of
        None \<Rightarrow> audited_in c dst w' p \<and> digest w' = [] \<and> failures w' = 0
      | Some e \<Rightarrow> \<not> IsPermanent e \<and> digest w' = hexDigest p \<and> failures w' = failures w + 1)"

lemma auditingForward_outcome:
  assumes "auditingForward c dst deliver p w = (r, w')" "logger_ok c w"
  shows "log_grows c dst w w' \<and> (refused deliver p w r w' \<or> confirmed deliver p w w' \<and> recorded c dst p w r w')"
proof (cases "matches (hexDigest p) w")
  case True
  then have "audit_confirmed c dst p w = (r, w')" "digest w = hexDigest p"
    using assms(1) by (simp_all add: auditingForward_def Let_def matches_def)
  with audit_confirmed_outcome [OF this(1) assms(2)] True show ?thesis
    by (cases r) (simp_all add: confirmed_def recorded_def)
next
  case False
  obtain rd d where d: "deliver p (destination w) = (rd, d)" by fastforce
  show ?thesis
  proof (cases rd)
    case (Some e)
    then have "r = Some e" "w' = w\<lparr>destination := d\<rparr>" using assms(1) False by (simp_all add: auditingForward_def Let_def d)
    with assms(2) False d Some show ?thesis by (simp add: log_grows_def audited_in_def refused_def)
  next
    case None
    define w1 where "w1 = markDelivered (hexDigest p) (w\<lparr>destination := d\<rparr>)"
    have a: "audit_confirmed c dst p w1 = (r, w')" using assms(1) False None by (simp add: auditingForward_def Let_def d w1_def)
    have "logger_ok c w1" using assms(2) by (simp add: w1_def markDelivered_def)
    from audit_confirmed_outcome [OF a this] False d None show ?thesis
      by (cases r) (simp_all add: w1_def markDelivered_def log_grows_def audited_in_def confirmed_def recorded_def)
  qed
qed

section \<open>The failure counters\<close>

interpretation audit_failures: failure_counter "\<lambda>w. snd (recordFailure w)" recordSuccess failures
  by unfold_locales (simp_all add: recordFailure_def recordSuccess_def)

interpretation dir_fsync_failures: failure_counter "\<lambda>s. snd (recordDirFsyncFailure s)" recordDirFsyncSuccess dirFsyncFailures
  by unfold_locales (simp_all add: recordDirFsyncFailure_def recordDirFsyncSuccess_def)

section \<open>Repeated attempts on one signal\<close>

text \<open>At most \<open>n\<close> attempts on the same payload, up to the first that returns nil.\<close>

fun attempt_again ::
  "logger_cfg \<Rightarrow> bytes \<Rightarrow> (bytes \<Rightarrow> 'd \<Rightarrow> gores \<times> 'd) \<Rightarrow> bytes \<Rightarrow> nat \<Rightarrow> 'd audit_state \<Rightarrow> 'd audit_state" where
  "attempt_again c dst deliver p 0 w = w"
| "attempt_again c dst deliver p (Suc n) w =
     (case auditingForward c dst deliver p w of
        (None, w1) \<Rightarrow> w1
      | (Some e, w1) \<Rightarrow> attempt_again c dst deliver p n w1)"

lemma log_grows_ok: "log_grows c dst w w' \<Longrightarrow> logger_ok c w'"
  by (simp add: log_grows_def)

lemma guarded_attempts:
  "logger_ok c w \<Longrightarrow> digest w = hexDigest p \<Longrightarrow> destination (attempt_again c dst deliver p n w) = destination w"
proof (induction n arbitrary: w)
  case (Suc n)
  obtain r w1 where a: "auditingForward c dst deliver p w = (r, w1)" by fastforce
  note o = auditingForward_outcome [OF a Suc.prems(1)]
  have m: "matches (hexDigest p) w" using Suc.prems(2) by (simp add: matches_def)
  then have d: "destination w1 = destination w" and rec: "recorded c dst p w r w1"
    using o by (auto simp: refused_def confirmed_def)
  show ?case
  proof (cases r)
    case None
    then show ?thesis by (simp add: a d)
  next
    case (Some e)
    then have "digest w1 = hexDigest p" using rec by (simp add: recorded_def)
    moreover have "logger_ok c w1" using o log_grows_ok by blast
    ultimately show ?thesis using Suc.IH by (simp add: a Some d)
  qed
qed simp

lemma attempts_deliver_once:
  "logger_ok c w \<Longrightarrow> snd (destination (attempt_again c dst (confirming deliver) p n w)) \<in>
    {snd (destination w), snd (destination w) @ [p]}"
proof (induction n arbitrary: w)
  case (Suc n)
  obtain r w1 where a: "auditingForward c dst (confirming deliver) p w = (r, w1)" by fastforce
  note o = auditingForward_outcome [OF a Suc.prems]
  have ok: "logger_ok c w1" using o log_grows_ok by blast
  have conf: "snd d = snd (destination w) @ (if r1 = None then [p] else [])"
    if "confirming deliver p (destination w) = (r1, d)" for r1 d
    using that by (auto simp: confirming_def split: prod.splits option.splits)
  have refuse: "snd (destination w1) = snd (destination w)" if "refused (confirming deliver) p w r w1"
    using that conf [of r "destination w1"] by (simp add: refused_def)
  have accept: "snd (destination w1) \<in> {snd (destination w), snd (destination w) @ [p]}" if "confirmed (confirming deliver) p w w1"
    using that conf [of None "destination w1"] by (simp add: confirmed_def split: if_splits)
  show ?case
  proof (cases r)
    case None
    then show ?thesis using o accept by (simp add: a refused_def)
  next
    case (Some e)
    show ?thesis
    proof (cases "refused (confirming deliver) p w r w1")
      case True
      with Suc.IH [OF ok] refuse show ?thesis by (simp add: a Some)
    next
      case False
      then have "digest w1 = hexDigest p" using o Some by (simp add: recorded_def)
      from guarded_attempts [OF ok this] o accept False show ?thesis by (simp add: a Some)
    qed
  qed
qed simp

section \<open>Together with the spool\<close>

text \<open>What every delivery and every dead letter keeps, a run of the spool keeps.\<close>

lemma attempt_destination_inv:
  assumes "attempt perm forward onDead st res st'" "I (snd (snd st))"
    and "\<And>b w r w'. I w \<Longrightarrow> forward b w = (r, w') \<Longrightarrow> I w'" and "\<And>w. I w \<Longrightarrow> I (onDead w)"
  shows "I (snd (snd st'))"
  using assms(1)
  by cases (use assms(2) in \<open>auto dest: assms(3) intro: assms(4)\<close>)

lemma Run_destination_inv:
  assumes "Run c perm forward onDead nows (bo, s, w) = (ps, bo', s', w')" "wf_fs (disk s)" "I w"
    and "\<And>b w r w'. I w \<Longrightarrow> forward b w = (r, w') \<Longrightarrow> I w'" and "\<And>w. I w \<Longrightarrow> I (onDead w)"
  shows "I w'"
  using assms(1-3)
proof (induction nows arbitrary: bo s w ps)
  case (Cons now nows)
  obtain p bo1 s1 w1 where t: "run_turn c perm forward onDead now (bo, s, w) = (p, bo1, s1, w1)" by (metis prod_cases4)
  obtain ps' where r: "Run c perm forward onDead nows (bo1, s1, w1) = (ps', bo', s', w')"
    using Cons.prems(1) by (auto simp: t split: prod.splits)
  note a = run_turn_attempt [OF t Cons.prems(2)]
  then obtain res where "attempt perm forward onDead (abs_state c s w) res (abs_state c s1 w1)" by blast
  from attempt_destination_inv [where I = I, OF this _ assms(4,5)] Cons.prems(3) have "I w1" by (simp add: abs_state_def)
  from Cons.IH [OF r a(2) this] show ?case .
qed simp

definition acks_audited :: "logger_cfg \<Rightarrow> bytes \<Rightarrow> 'd audit_state \<times> bytes list \<Rightarrow> bool" where
  "acks_audited c dst st \<longleftrightarrow> logger_ok c (fst st) \<and> (\<forall>b \<in> set (snd st). audited_in c dst (fst st) b)"

lemma acks_audited_forward:
  assumes "acks_audited c dst st" "confirming (auditingForward c dst deliver) b st = (r, st')"
  shows "acks_audited c dst st'"
proof -
  obtain ra w1 where a: "auditingForward c dst deliver b (fst st) = (ra, w1)" by fastforce
  have ok: "logger_ok c (fst st)" using assms(1) by (simp add: acks_audited_def)
  note o = auditingForward_outcome [OF a ok]
  show ?thesis
  proof (cases ra)
    case None
    then have "st' = (w1, snd st @ [b])" using assms(2) by (simp add: confirming_def a)
    with o None assms(1) show ?thesis by (auto simp: acks_audited_def log_grows_def refused_def recorded_def)
  next
    case (Some e)
    then have "st' = (w1, snd st)" using assms(2) by (simp add: confirming_def a)
    with o assms(1) show ?thesis by (auto simp: acks_audited_def log_grows_def)
  qed
qed

lemma acks_audited_clear: "acks_audited c dst st \<Longrightarrow> acks_audited c dst (apfst clear_guard st)"
  by (cases st) (simp add: acks_audited_def audited_in_def clear_guard_def)

lemma Run_audited:
  assumes "Run sc IsPermanent (confirming (auditingForward c dst deliver)) (apfst clear_guard) nows (bo, s, (w, [])) = (ps, bo', s', w')"
    and "wf_fs (disk s)" "logger_ok c w" "queue_of sc (disk s) n = Some b"
  shows "queue_of sc (disk s') n = Some b \<or> dead_of sc (disk s') n = Some b \<or> audited_in c dst (fst w') b"
proof -
  have "acks_audited c dst (w, [])" using assms(3) by (simp add: acks_audited_def)
  from Run_destination_inv [where I = "acks_audited c dst", OF assms(1,2) this acks_audited_forward acks_audited_clear]
  have "acks_audited c dst w'" by simp
  with Run_conserves [OF assms(1,2), of n b] assms(4) show ?thesis by (auto simp: acks_audited_def)
qed

lemma confirming_confirmed:
  "confirming f p w = (r, w') \<Longrightarrow> snd w' = (if r = None then snd w @ [p] else snd w)"
  by (auto simp: confirming_def split: prod.splits option.splits)

lemma confirming_forward:
  assumes "confirming f b st = (r, st')"
  shows "f b (fst st) = (r, fst st')" "snd st' = (if r = None then snd st @ [b] else snd st)"
  using assms by (auto simp: confirming_def split: prod.splits option.splits)

section \<open>A signal delivered in its own turn\<close>

text \<open>
  \<open>own_turn c forward onDead nows st n b\<close>: in the run of the loop over the times \<open>nows\<close> from \<open>st\<close> there is a turn
  whose head was the file \<open>n\<close> with the payload \<open>b\<close> and in which the destination itself confirmed \<open>b\<close>; the destination
  keeps the list of what it has confirmed. A record that was written on the strength of another signal's
  delivery has no such turn.
\<close>

definition own_turn ::
  "spool_cfg \<Rightarrow> (bytes \<Rightarrow> ('d \<times> bytes list) audit_state \<Rightarrow> gores \<times> ('d \<times> bytes list) audit_state)
    \<Rightarrow> (('d \<times> bytes list) audit_state \<Rightarrow> ('d \<times> bytes list) audit_state) \<Rightarrow> instant list
    \<Rightarrow> int \<times> Spool \<times> ('d \<times> bytes list) audit_state \<Rightarrow> bytes \<Rightarrow> bytes \<Rightarrow> bool" where
  "own_turn c forward onDead nows st n b \<longleftrightarrow>
     (\<exists>before now after ps bo s w p bo' s' w'. nows = before @ now # after
        \<and> Run c IsPermanent forward onDead before st = (ps, bo, s, w)
        \<and> run_turn c IsPermanent forward onDead now (bo, s, w) = (p, bo', s', w')
        \<and> head_is (queue_of c (disk s)) n b
        \<and> snd (destination w') = snd (destination w) @ [b])"

lemma own_turn_more: "own_turn c forward onDead nows st n b \<Longrightarrow> own_turn c forward onDead (nows @ later) st n b"
  unfolding own_turn_def by (metis append.assoc append_Cons)

lemma own_turn_last:
  assumes "Run c IsPermanent forward onDead nows st = (ps, bo, s, w)"
    and "run_turn c IsPermanent forward onDead now (bo, s, w) = (p, bo', s', w')"
    and "head_is (queue_of c (disk s)) n b" "snd (destination w') = snd (destination w) @ [b]"
  shows "own_turn c forward onDead (nows @ [now]) st n b"
  using assms unfolding own_turn_def by blast

text \<open>What one turn does to the guard: it holds the digest of the head, which has been confirmed, or nothing.\<close>

definition guard_ok :: "(bytes \<Rightarrow> bytes \<Rightarrow> bool) \<Rightarrow> (bytes \<rightharpoonup> bytes) \<Rightarrow> 'd audit_state \<Rightarrow> bool" where
  "guard_ok own q w \<longleftrightarrow> digest w = [] \<or> (\<exists>n b. head_is q n b \<and> digest w = hexDigest b \<and> own n b)"

lemma guard_ok_mono: "guard_ok own q w \<Longrightarrow> (\<And>n b. own n b \<Longrightarrow> own' n b) \<Longrightarrow> guard_ok own' q w"
  by (auto simp: guard_ok_def)

lemma guard_ok_cleared [simp]: "guard_ok own q (clear_guard w)"
  by (simp add: guard_ok_def clear_guard_def)

lemma guarded_delivery:
  assumes "auditingForward c dst (confirming deliver) b w = (r, w')" "logger_ok c w" "head_is q n b" "guard_ok own q w"
    and "\<And>n b. own n b \<Longrightarrow> own' n b" "snd (destination w') = snd (destination w) @ [b] \<Longrightarrow> own' n b"
  shows "guard_ok own' q w'" "r = None \<Longrightarrow> own' n b \<and> audited_in c dst w' b \<and> digest w' = []"
    "log_grows c dst w w'"
proof -
  have o: "log_grows c dst w w'" "refused (confirming deliver) b w r w' \<or> confirmed (confirming deliver) b w w' \<and> recorded c dst b w r w'"
    using auditingForward_outcome [OF assms(1,2)] by auto
  have own: "own' n b" if "confirmed (confirming deliver) b w w'"
  proof (cases "matches (hexDigest b) w")
    case True
    then obtain m p where "head_is q m p" "own m p" using assms(4) by (auto simp: guard_ok_def matches_def)
    with head_unique [OF assms(3)] show ?thesis using assms(5) by blast
  next
    case False
    with that have "snd (destination w') = snd (destination w) @ [b]"
      using confirming_confirmed [of deliver b "destination w" None] by (simp add: confirmed_def)
    with assms(6) show ?thesis .
  qed
  show "log_grows c dst w w'" by (fact o)
  show "r = None \<Longrightarrow> own' n b \<and> audited_in c dst w' b \<and> digest w' = []"
    using o own by (auto simp: refused_def recorded_def)
  show "guard_ok own' q w'"
    using o(2)
  proof
    assume "refused (confirming deliver) b w r w'"
    then have "digest w' = digest w" by (simp add: refused_def)
    with guard_ok_mono [OF assms(4), of own'] assms(5) show ?thesis by (simp add: guard_ok_def)
  next
    assume "confirmed (confirming deliver) b w w' \<and> recorded c dst b w r w'"
    with own assms(3) show ?thesis by (cases r) (auto simp: guard_ok_def recorded_def)
  qed
qed

text \<open>Where a signal pending at the start of a run is: \<open>own\<close> tells which were delivered in their own turn.\<close>

definition accounted :: "logger_cfg \<Rightarrow> bytes \<Rightarrow> (bytes \<Rightarrow> bytes \<Rightarrow> bool) \<Rightarrow> 'd audit_state aq \<Rightarrow> bytes \<Rightarrow> bytes \<Rightarrow> bool" where
  "accounted c dst own st n b \<longleftrightarrow> (case st of (q, d, w) \<Rightarrow>
     q n = Some b \<or> q n = None \<and> d n = Some b \<or> q n = None \<and> audited_in c dst w b \<and> own n b)"

lemma permanent_is_refused:
  assumes "auditingForward c dst deliver b w = (Some e, w')" "logger_ok c w" "IsPermanent e"
  shows "digest w' = digest w"
  using auditingForward_outcome [OF assms(1,2)] assms(3) by (auto simp: refused_def recorded_def)

lemma attempt_accounts:
  assumes "attempt IsPermanent (auditingForward c dst (confirming deliver)) clear_guard (q, d, w) res (q', d', w')"
    and "logger_ok c w" "guard_ok own q w" "accounted c dst own (q, d, w) n b"
    and "\<And>n b. own n b \<Longrightarrow> own' n b"
    and "\<And>n b. head_is q n b \<Longrightarrow> snd (destination w') = snd (destination w) @ [b] \<Longrightarrow> own' n b"
  shows "logger_ok c w' \<and> guard_ok own' q' w' \<and> accounted c dst own' (q', d', w') n b"
proof -
  have deliver: "guard_ok own' q w'" "r = None \<Longrightarrow> own' m p \<and> audited_in c dst w' p \<and> digest w' = []" "log_grows c dst w w'"
    if h: "head_is q m p" and f: "auditingForward c dst (confirming deliver) p w = (r, w')" for m p r
    using guarded_delivery [OF f assms(2) h assms(3), of own'] assms(5) assms(6) [OF h] by auto
  show ?thesis
    using assms(1)
  proof cases
    case unlistable
    then show ?thesis using assms(2-5) guard_ok_mono [of own q w own'] by (auto simp: accounted_def)
  next
    case idle
    then show ?thesis using assms(2-5) guard_ok_mono [of own q w own'] by (auto simp: accounted_def)
  next
    case (retry m p e)
    note g = deliver [OF \<open>head_is q m p\<close> \<open>auditingForward c dst (confirming deliver) p w = (Some e, w')\<close>]
    show ?thesis using retry(1-3) g assms(4,5) by (auto simp: accounted_def log_grows_def)
  next
    case (delivered m p)
    note g = deliver [OF \<open>head_is q m p\<close> \<open>auditingForward c dst (confirming deliver) p w = (None, w')\<close>]
    show ?thesis using delivered(1-3) \<open>head_is q m p\<close> g assms(4,5)
      by (auto simp: accounted_def log_grows_def head_is_def guard_ok_def)
  next
    case (delivered_stuck m p)
    note g = deliver [OF \<open>head_is q m p\<close> \<open>auditingForward c dst (confirming deliver) p w = (None, w')\<close>]
    show ?thesis using delivered_stuck(1-3) g assms(4,5) by (auto simp: accounted_def log_grows_def)
  next
    case (rejected m p e w1)
    have "log_grows c dst w w1"
      using auditingForward_outcome [OF \<open>auditingForward c dst (confirming deliver) p w = (Some e, w1)\<close> assms(2)] by blast
    then show ?thesis using rejected(1-4) \<open>head_is q m p\<close> assms(4,5)
      by (auto simp: accounted_def log_grows_def head_is_def audited_in_def clear_guard_def guard_ok_def)
  next
    case (rejected_stuck m p e)
    note g = deliver [OF \<open>head_is q m p\<close> \<open>auditingForward c dst (confirming deliver) p w = (Some e, w')\<close>]
    show ?thesis using rejected_stuck(1-3) g assms(4,5) by (auto simp: accounted_def log_grows_def)
  next
    case (unreadable m p)
    then show ?thesis using assms(2-5)
      by (auto simp: accounted_def head_is_def audited_in_def clear_guard_def guard_ok_def)
  next
    case (unreadable_stuck m p)
    then show ?thesis using assms(2-5) guard_ok_mono [of own q w own'] by (auto simp: accounted_def)
  qed
qed

lemma Run_accounts:
  assumes "Run sc IsPermanent (auditingForward c dst (confirming deliver)) clear_guard nows (bo, s, w) = (ps, bo', s', w')"
    and "wf_fs (disk s)" "logger_ok c w" "digest w = []" "queue_of sc (disk s) n = Some b"
  shows "queue_of sc (disk s') n = Some b \<or> dead_of sc (disk s') n = Some b
    \<or> audited_in c dst w' b \<and> own_turn sc (auditingForward c dst (confirming deliver)) clear_guard nows (bo, s, w) n b"
proof -
  let ?f = "auditingForward c dst (confirming deliver)"
  let ?own = "\<lambda>nows. own_turn sc ?f clear_guard nows (bo, s, w)"
  have "wf_fs (disk s') \<and> logger_ok c w' \<and> guard_ok (?own nows) (queue_of sc (disk s')) w'
      \<and> accounted c dst (?own nows) (abs_state sc s' w') n b"
    using assms(1)
  proof (induction nows arbitrary: ps bo' s' w' rule: rev_induct)
    case Nil
    then show ?case using assms(2-5) by (simp add: guard_ok_def accounted_def abs_state_def)
  next
    case (snoc now nows)
    obtain ps1 bo1 s1 w1 where r: "Run sc IsPermanent ?f clear_guard nows (bo, s, w) = (ps1, bo1, s1, w1)" by (metis prod_cases4)
    obtain p where t: "run_turn sc IsPermanent ?f clear_guard now (bo1, s1, w1) = (p, bo', s', w')"
      using snoc.prems by (auto simp: Run_append r split: prod.splits)
    note i = snoc.IH [OF r]
    from i have wf: "wf_fs (disk s1)" by blast
    note a = run_turn_attempt [OF t wf]
    obtain res where at: "attempt IsPermanent ?f clear_guard (abs_state sc s1 w1) res (abs_state sc s' w')" using a(1) by blast
    have "logger_ok c w' \<and> guard_ok (?own (nows @ [now])) (queue_of sc (disk s')) w'
      \<and> accounted c dst (?own (nows @ [now])) (abs_state sc s' w') n b"
      unfolding abs_state_def
      by (rule attempt_accounts [OF at [unfolded abs_state_def], where own = "?own nows"])
        (use i own_turn_more own_turn_last [OF r t] in \<open>auto simp: abs_state_def\<close>)
    with a(2) show ?case by blast
  qed
  then show ?thesis by (auto simp: accounted_def abs_state_def)
qed

section \<open>No more records than deliveries\<close>

text \<open>How many of the payloads have this digest, the identity the guard goes by.\<close>

definition with_digest :: "bytes \<Rightarrow> bytes list \<Rightarrow> nat" where
  "with_digest h ps = length (filter (\<lambda>p. hexDigest p = h) ps)"

lemma with_digest_simps [simp]:
  "with_digest h [] = 0" "with_digest h (ps @ [p]) = with_digest h ps + (if hexDigest p = h then 1 else 0)"
  by (simp_all add: with_digest_def)

lemma with_digest_count:
  assumes "inj_on hexDigest (insert p (set ps))"
  shows "with_digest (hexDigest p) ps = count_list ps p"
  using assms
proof (induction ps)
  case (Cons q ps)
  have "inj_on hexDigest (insert p (set ps))" using Cons.prems by (rule inj_on_subset) auto
  moreover have "hexDigest q = hexDigest p \<longleftrightarrow> q = p" using inj_onD [OF Cons.prems, of q p] by auto
  ultimately show ?case using Cons.IH by (simp add: with_digest_def)
qed simp

text \<open>\<open>delivers_first st\<close>: for every digest, what was taken for delivered, the guarded signal included, is
  no more than what the destination itself has confirmed.\<close>

definition delivers_first :: "('d \<times> bytes list) audit_state \<times> bytes list \<Rightarrow> bool" where
  "delivers_first st \<longleftrightarrow> (\<forall>h. h \<noteq> [] \<longrightarrow>
     with_digest h (snd st) + (if digest (fst st) = h then 1 else 0) \<le> with_digest h (snd (destination (fst st))))"

lemma delivers_first_start: "digest w = [] \<Longrightarrow> delivers_first (w, [])"
  by (auto simp: delivers_first_def)

lemma delivers_first_clear: "delivers_first st \<Longrightarrow> delivers_first (apfst clear_guard st)"
  by (cases st) (force simp: delivers_first_def clear_guard_def)

lemma delivers_first_forward:
  assumes "logger_ok c (fst st)" "delivers_first st" "confirming (auditingForward c dst (confirming deliver)) b st = (r, st')"
  shows "delivers_first st'"
proof -
  note f = confirming_forward [OF assms(3)]
  have o: "refused (confirming deliver) b (fst st) r (fst st')
      \<or> confirmed (confirming deliver) b (fst st) (fst st') \<and> recorded c dst b (fst st) r (fst st')"
    using auditingForward_outcome [OF f(1) assms(1)] by blast
  have le: "with_digest h (snd st) + (if digest (fst st) = h then 1 else 0) \<le> with_digest h (snd (destination (fst st)))" if "h \<noteq> []" for h
    using assms(2) that by (simp add: delivers_first_def)
  show ?thesis
    unfolding delivers_first_def
  proof (intro allI impI)
    fix h :: bytes assume h: "h \<noteq> []"
    from o show "with_digest h (snd st') + (if digest (fst st') = h then 1 else 0) \<le> with_digest h (snd (destination (fst st')))"
    proof
      assume r: "refused (confirming deliver) b (fst st) r (fst st')"
      then have "snd (destination (fst st')) = snd (destination (fst st))"
        using confirming_confirmed [of deliver b "destination (fst st)" r] by (simp add: refused_def)
      with r le [OF h] f(2) show ?thesis by (cases r) (simp_all add: refused_def)
    next
      assume k: "confirmed (confirming deliver) b (fst st) (fst st') \<and> recorded c dst b (fst st) r (fst st')"
      then have g: "digest (fst st') = (if r = None then [] else hexDigest b)" by (auto simp: recorded_def split: option.splits)
      show ?thesis
      proof (cases "matches (hexDigest b) (fst st)")
        case True
        with k le [OF h] h f(2) g show ?thesis by (auto simp: confirmed_def matches_def split: if_splits)
      next
        case False
        then have "snd (destination (fst st')) = snd (destination (fst st)) @ [b]"
          using k confirming_confirmed [of deliver b "destination (fst st)" None] by (simp add: confirmed_def)
        with le [OF h] h f(2) g show ?thesis by (auto split: if_splits)
      qed
    qed
  qed
qed

lemma delivers_first_count:
  assumes "delivers_first st" "inj_on hexDigest (set (snd st) \<union> set (snd (destination (fst st))))"
  shows "count_list (snd st) p \<le> count_list (snd (destination (fst st))) p"
proof (cases "p \<in> set (snd st)")
  case True
  have "inj_on hexDigest (insert p (set (snd st)))" by (rule inj_on_subset [OF assms(2)]) (use True in auto)
  moreover have "inj_on hexDigest (insert p (set (snd (destination (fst st)))))"
    by (rule inj_on_subset [OF assms(2)]) (use True in auto)
  moreover have "with_digest (hexDigest p) (snd st) \<le> with_digest (hexDigest p) (snd (destination (fst st)))"
    using assms(1) unfolding delivers_first_def by (meson add_leD1 hexDigest_not_Nil)
  ultimately show ?thesis by (simp add: with_digest_count)
next
  case False
  then show ?thesis by (simp add: count_list_0_iff)
qed

text \<open>Both together: what was taken for delivered is recorded and was confirmed.\<close>

definition sound_acks :: "logger_cfg \<Rightarrow> bytes \<Rightarrow> ('d \<times> bytes list) audit_state \<times> bytes list \<Rightarrow> bool" where
  "sound_acks c dst st \<longleftrightarrow> acks_audited c dst st \<and> delivers_first st"

lemma sound_acks_start: "logger_ok c w \<Longrightarrow> digest w = [] \<Longrightarrow> sound_acks c dst (w, [])"
  by (simp add: sound_acks_def acks_audited_def delivers_first_start)

lemma sound_acks_clear: "sound_acks c dst st \<Longrightarrow> sound_acks c dst (apfst clear_guard st)"
  by (simp add: sound_acks_def acks_audited_clear delivers_first_clear)

lemma sound_acks_forward:
  assumes "sound_acks c dst st" "confirming (auditingForward c dst (confirming deliver)) b st = (r, st')"
  shows "sound_acks c dst st'"
  using assms(1) acks_audited_forward [OF _ assms(2)] delivers_first_forward [OF _ _ assms(2)]
  by (simp add: sound_acks_def acks_audited_def)

lemma sound_ack:
  assumes "sound_acks c dst st" "inj_on hexDigest (set (snd st) \<union> set (snd (destination (fst st))))" "b \<in> set (snd st)"
  shows "b \<in> set (snd (destination (fst st))) \<and> audited_in c dst (fst st) b"
proof -
  have "count_list (snd st) b \<noteq> 0" using assms(3) by (simp add: count_list_0_iff)
  moreover have "count_list (snd st) b \<le> count_list (snd (destination (fst st))) b"
    using delivers_first_count [OF _ assms(2)] assms(1) by (simp add: sound_acks_def)
  ultimately have "count_list (snd (destination (fst st))) b \<noteq> 0" by linarith
  then show ?thesis using assms(1,3) by (simp add: count_list_0_iff sound_acks_def acks_audited_def)
qed

section \<open>Properties\<close>

text \<open>
  C25. An audited delivery from the spool. Nil means the destination accepted this payload, now or at
  an earlier attempt of the guarded signal, and its record is fsynced in the audit log; the guard
  and the failure count are then clear. An error is either the destination's own, with nothing
  recorded, or the audit log's: then it is never permanent (the spool retries and does not
  dead-letter), the guard holds the payload's digest and the failure count has gone up by one.
\<close>

theorem auditingForward_nil_is_recorded:
  assumes "auditingForward c dst deliver p w = (r, w')" "logger_ok c w"
  shows "logger_ok c w' \<and> (\<forall>q. audited_in c dst w q \<longrightarrow> audited_in c dst w' q)
    \<and> (r = None \<longrightarrow> confirmed deliver p w w' \<and> audited_in c dst w' p \<and> digest w' = [] \<and> failures w' = 0)
    \<and> (\<forall>e. r = Some e \<longrightarrow> refused deliver p w r w'
        \<or> confirmed deliver p w w' \<and> \<not> IsPermanent e \<and> digest w' = hexDigest p \<and> failures w' = failures w + 1)"
  using auditingForward_outcome [OF assms] by (cases r) (simp_all add: log_grows_def refused_def recorded_def)

definition audit_start :: "'d \<Rightarrow> 'd audit_state" where
  "audit_start d = \<lparr>destination = d, logger = fresh_log [], failures = 0, digest = [],
     audit_write_failures = 0, clock = []\<rparr>"

lemma audit_start_ok [simp]: "logger_ok c (audit_start d)"
  by (simp add: audit_start_def fresh_log_ok)

lemma empty_object_fields: "decode_audit_fields ''{}'' = Some zero_audit_fields"
  by code_simp

lemma audit_start_forward:
  assumes "deliver ''{}'' (destination w) = (None, d)" "logger w = fresh_log []" "clock w = []"
  shows "\<exists>w'. auditingForward audit1 ''dst'' deliver ''{}'' w = (None, w')"
proof -
  obtain s' where "record_fields audit1 ''dst'' zero_audit_fields ''{}'' 0 (fresh_log []) = (None, s')"
    using fresh_record by blast
  then show ?thesis
    using assms by (simp add: auditingForward_def Let_def audit_confirmed_def write_audit_def
        writeAuditFromPayload_def empty_object_fields markDelivered_def read_clock_def)
qed

theorem auditingForward_nil_is_recorded_witness:
  "\<exists>w'. auditingForward audit1 ''dst'' (\<lambda>b h. (None, b # h)) ''{}'' (audit_start []) = (None, w') \<and> destination w' = [''{}'']"
proof -
  obtain w' where a: "auditingForward audit1 ''dst'' (\<lambda>b h. (None, b # h)) ''{}'' (audit_start []) = (None, w')"
    using audit_start_forward [of "\<lambda>b h. (None, b # h)" "audit_start []"] by (auto simp: audit_start_def)
  from auditingForward_nil_is_recorded [OF a audit_start_ok] a show ?thesis
    by (auto simp: confirmed_def matches_def audit_start_def)
qed

text \<open>
  C26. However long the audit log stays unwritable, retrying one signal reaches the destination at
  most once: after the delivery that was confirmed only the audit write is repeated.
\<close>

theorem audit_outage_delivers_once:
  assumes "logger_ok c w"
  shows "snd (destination (attempt_again c dst (confirming deliver) p n w)) = snd (destination w)
    \<or> snd (destination (attempt_again c dst (confirming deliver) p n w)) = snd (destination w) @ [p]"
  using attempts_deliver_once [OF assms, of dst deliver p n] by simp

theorem audit_outage_delivers_once_witness:
  "snd (destination (attempt_again audit1 ''dst'' (confirming (\<lambda>b h. (None, h))) ''{}'' 5 (audit_start ((), [])))) = []
    \<or> snd (destination (attempt_again audit1 ''dst'' (confirming (\<lambda>b h. (None, h))) ''{}'' 5 (audit_start ((), [])))) = [''{}'']"
proof -
  from audit_outage_delivers_once [OF audit_start_ok, of audit1 "''dst''" "\<lambda>b h. (None, h)" "''{}''" 5 "((), [])"]
  show ?thesis by (simp add: audit_start_def)
qed

text \<open>
  Spool and audit log together: in any run of the delivery loop, under any faults of either disk
  and any answers of the destination, a pending signal is still pending, or was dead-lettered, or
  its record is fsynced in the audit log. No signal leaves the queue as delivered without one.
\<close>

theorem spool_removal_implies_audit_record:
  assumes "Run sc IsPermanent (confirming (auditingForward c dst deliver)) (apfst clear_guard) nows (bo, s, (w, [])) = (ps, bo', s', w')"
    and "wf_fs (disk s)" "logger_ok c w" "queue_of sc (disk s) n = Some b"
  shows "queue_of sc (disk s') n = Some b \<or> dead_of sc (disk s') n = Some b \<or> audited_in c dst (fst w') b"
  using Run_audited [OF assms] .

theorem spool_removal_implies_audit_record_witness:
  "\<exists>ps bo s' w'. Run cfg1 IsPermanent (confirming (auditingForward audit1 ''dst'' (\<lambda>b h. (None, h)))) (apfst clear_guard) [6]
      (second, snd (Enqueue cfg1 5 ''x'' spool1), (audit_start (), [])) = (ps, bo, s', w')
    \<and> (queue_of cfg1 (disk s') (spool_name 5 1) = Some ''x'' \<or> dead_of cfg1 (disk s') (spool_name 5 1) = Some ''x''
        \<or> audited_in audit1 ''dst'' (fst w') ''x'')"
proof -
  obtain ps bo s' w' where r: "Run cfg1 IsPermanent (confirming (auditingForward audit1 ''dst'' (\<lambda>b h. (None, h)))) (apfst clear_guard) [6]
      (second, snd (Enqueue cfg1 5 ''x'' spool1), (audit_start (), [])) = (ps, bo, s', w')" by (metis prod_cases4)
  have wf: "wf_fs (disk (snd (Enqueue cfg1 5 ''x'' spool1)))"
    using Enqueue_outcome [of cfg1 5 "''x''" spool1] by (simp add: spool1_def prod_eq_iff)
  have "queue_of cfg1 (disk (snd (Enqueue cfg1 5 ''x'' spool1))) (spool_name 5 1) = Some ''x''" by code_simp
  from spool_removal_implies_audit_record [OF r wf audit_start_ok this] r show ?thesis by blast
qed

text \<open>
  A signal moved to the dead letters clears the guard, so the next delivery that returns nil has
  reached the destination itself: no record can be written on the strength of an earlier signal
  with the same bytes.
\<close>

theorem dead_letter_forgets_delivery:
  assumes "forwardOldest sc IsPermanent (auditingForward c dst deliver) clear_guard now s w = (res, s', w')"
    and "wf_fs (disk s)" "logger_ok c w" "dead_of sc (disk s') \<noteq> dead_of sc (disk s)"
    and "auditingForward c dst deliver p w' = (None, w'')"
  shows "deliver p (destination w') = (None, destination w'')"
proof -
  have "attempt IsPermanent (auditingForward c dst deliver) clear_guard (abs_state sc s w) res (abs_state sc s' w')"
    using forwardOldest_attempt [OF assms(1,2)] by simp
  then have "digest w' = [] \<and> logger_ok c w'"
    using assms(3,4)
    by cases (auto simp: abs_state_def clear_guard_def dest!: auditingForward_outcome log_grows_ok)
  with auditingForward_outcome [OF assms(5)] show ?thesis
    by (auto simp: refused_def confirmed_def matches_def)
qed

text \<open>A destination that rejects its first signal for good and accepts all others.\<close>

definition reject_first :: "bytes \<Rightarrow> nat \<Rightarrow> gores \<times> nat" where
  "reject_first b h = (if h = 0 then (Some (Permanent (Leaf ''bad'')), 1) else (None, Suc h))"

lemma forwardOldest_cong:
  assumes "\<And>b. f b w = g b w"
  shows "forwardOldest sc perm f onDead now s w = forwardOldest sc perm g onDead now s w"
proof -
  have "forward_head sc perm f onDead now n t w = forward_head sc perm g onDead now n t w" for n t
    by (simp add: forward_head_def assms split: prod.split sum.split)
  then show ?thesis by (simp add: forwardOldest_def Let_def split: prod.split sum.split list.split)
qed

lemma attempt_destinations:
  assumes "attempt perm f onDead st res st'" "\<And>b. f b (snd (snd st)) = (r, w1)"
  shows "snd (snd st') \<in> {snd (snd st), w1, onDead (snd (snd st)), onDead w1}"
  using assms(1) by cases (use assms(2) in auto)

theorem dead_letter_forgets_delivery_witness:
  "\<exists>res s' w' w''. forwardOldest cfg1 IsPermanent (auditingForward audit1 ''dst'' reject_first) clear_guard 6
      (snd (Enqueue cfg1 5 ''x'' spool1)) (audit_start 0) = (res, s', w')
    \<and> auditingForward audit1 ''dst'' reject_first ''{}'' w' = (None, w'') \<and> destination w'' = 2"
proof -
  define s where "s = snd (Enqueue cfg1 5 ''x'' spool1)"
  define g where "g b w = (Some (Permanent (Leaf ''bad'')) :: gores, w\<lparr>destination := 1 :: nat\<rparr>)" for b :: bytes and w :: "nat audit_state"
  have g: "auditingForward audit1 ''dst'' reject_first b (audit_start 0) = g b (audit_start 0)" for b
    by (simp add: auditingForward_def Let_def matches_def audit_start_def reject_first_def g_def)
  obtain res s' w' where f: "forwardOldest cfg1 IsPermanent (auditingForward audit1 ''dst'' reject_first) clear_guard 6 s (audit_start 0)
      = (res, s', w')" by (metis prod_cases3)
  have fg: "forwardOldest cfg1 IsPermanent g clear_guard 6 s (audit_start 0) = (res, s', w')"
    using f forwardOldest_cong [of "auditingForward audit1 ''dst'' reject_first" "audit_start 0" g] g by simp
  have "destination (snd (snd (forwardOldest cfg1 IsPermanent g clear_guard 6 s (audit_start 0)))) = 1"
    "dead_of cfg1 (disk (fst (snd (forwardOldest cfg1 IsPermanent g clear_guard 6 s (audit_start 0))))) (spool_name 5 1) = Some ''x''"
    "dead_of cfg1 (disk s) (spool_name 5 1) = None"
    unfolding s_def g_def by code_simp+
  then have d: "destination w' = 1" "dead_of cfg1 (disk s') \<noteq> dead_of cfg1 (disk s)" by (auto simp: fg)
  have wf: "wf_fs (disk s)" using Enqueue_outcome [of cfg1 5 "''x''" spool1] by (simp add: s_def spool1_def prod_eq_iff)
  have "w' \<in> {audit_start 0, audit_start 1, clear_guard (audit_start 0), clear_guard (audit_start 1)}"
    using attempt_destinations [of IsPermanent g clear_guard "abs_state cfg1 s (audit_start 0)" res "abs_state cfg1 s' w'"
        "Some (Permanent (Leaf ''bad''))" "audit_start 1"] forwardOldest_attempt [OF fg wf]
    by (simp add: abs_state_def g_def audit_start_def)
  with d(1) have w': "w' = audit_start 1" by (auto simp: audit_start_def clear_guard_def)
  obtain w'' where a: "auditingForward audit1 ''dst'' reject_first ''{}'' w' = (None, w'')"
    using audit_start_forward [of reject_first w'] by (auto simp: w' audit_start_def reject_first_def)
  from dead_letter_forgets_delivery [OF f wf audit_start_ok d(2) a] f a show ?thesis
    by (auto simp: s_def d(1) reject_first_def)
qed

text \<open>
  The guard remembers one signal only. When another signal is delivered and audited between two
  attempts of a guarded one (its file name sorts before, as after a clock that was set back), the
  guarded signal is delivered a second time without any restart.
\<close>

theorem other_signal_ends_the_guard:
  assumes "logger_ok c w" "digest w = hexDigest a" "auditingForward c dst deliver b w = (None, w1)"
    and "auditingForward c dst deliver a w1 = (r, w2)"
  shows "destination w2 = snd (deliver a (destination w1))"
proof -
  have "logger_ok c w1 \<and> digest w1 = []"
    using auditingForward_outcome [OF assms(3,1)] log_grows_ok by (auto simp: refused_def recorded_def)
  with auditingForward_outcome [OF assms(4)] show ?thesis
    by (auto simp: refused_def confirmed_def matches_def prod_eq_iff dest: sym)
qed

theorem other_signal_ends_the_guard_witness:
  "\<exists>w1 w2. auditingForward audit1 ''dst'' (\<lambda>b h. (None, b # h)) ''{}'' (markDelivered (hexDigest ''x'') (audit_start [''x''])) = (None, w1)
    \<and> snd (auditingForward audit1 ''dst'' (\<lambda>b h. (None, b # h)) ''x'' w1) = w2 \<and> destination w2 = ''x'' # destination w1"
proof -
  let ?w = "markDelivered (hexDigest ''x'') (audit_start [''x''])"
  obtain w1 where 1: "auditingForward audit1 ''dst'' (\<lambda>b h. (None, b # h)) ''{}'' ?w = (None, w1)"
    using audit_start_forward [of "\<lambda>b h. (None, b # h)" ?w] by (auto simp: markDelivered_def audit_start_def)
  obtain r w2 where 2: "auditingForward audit1 ''dst'' (\<lambda>b h. (None, b # h)) ''x'' w1 = (r, w2)" by fastforce
  have "logger_ok audit1 ?w" "digest ?w = hexDigest ''x''"
    using audit_start_ok [of audit1 "[''x'']"] by (simp_all add: markDelivered_def)
  from other_signal_ends_the_guard [OF this 1 2] have "destination w2 = ''x'' # destination w1" by simp
  with 1 2 show ?thesis by (metis snd_conv)
qed

end
