(* ===== verification/SyncThreads.thy ===== *)
theory SyncThreads
  imports EgressAudit Interleave
begin

text \<open>
  Synchronous mode under concurrent requests: every HTTP handler delivers its own signal by
  \<^verbatim>\<open>auditingSyncForward\<close> (cmd/gateway/audit.go). What they share is the destination, the audit logger
  with its mutex, the health counter with its mutex and the atomic metric; a handler can be interrupted
  between any two of them, also between reading the clock and writing the record. The assertions
  about each handler are a second interpretation of the locale \<open>interference_free\<close>.
\<close>

section \<open>auditingSyncForward in steps\<close>

datatype sync_pc =
    Waiting | Delivering bytes | Stamping bytes | Recording bytes instant
  | CountingLoss bytes goerr | CountingFailure bytes goerr | CountingSuccess bytes
  | Rejected bytes goerr | Unrecorded bytes goerr | Recorded bytes
  | ClosingLog | LogClosed

fun sync_step ::
  "logger_cfg \<Rightarrow> bytes \<Rightarrow> (bytes \<Rightarrow> 'd \<Rightarrow> gores \<times> 'd) \<Rightarrow> sync_pc \<times> 'd audit_state \<Rightarrow> sync_pc \<times> 'd audit_state" where
  "sync_step c dst deliver (Delivering p, w) =
     (case deliver p (destination w) of
        (Some e, d) \<Rightarrow> (Rejected p e, w\<lparr>destination := d\<rparr>)
      | (None, d) \<Rightarrow> (Stamping p, w\<lparr>destination := d\<rparr>))"
| "sync_step c dst deliver (Stamping p, w) = (Recording p (read_clock w), w\<lparr>clock := tl (clock w)\<rparr>)"
| "sync_step c dst deliver (Recording p t, w) =
     (case writeAuditFromPayload c dst p t (logger w) of
        (Some e, l) \<Rightarrow> (CountingLoss p e, w\<lparr>logger := l\<rparr>)
      | (None, l) \<Rightarrow> (CountingSuccess p, w\<lparr>logger := l\<rparr>))"
| "sync_step c dst deliver (CountingLoss p e, w) = (CountingFailure p e, count_audit_failure w)"
| "sync_step c dst deliver (CountingFailure p e, w) = (Unrecorded p e, snd (recordFailure w))"
| "sync_step c dst deliver (CountingSuccess p, w) = (Recorded p, recordSuccess w)"
| "sync_step c dst deliver (ClosingLog, w) = (LogClosed, w\<lparr>logger := snd (CloseLogger (logger w))\<rparr>)"
| "sync_step c dst deliver (pc, w) = (pc, w)"

fun sync_result :: "sync_pc \<Rightarrow> gores option" where
  "sync_result (Rejected p e) = Some (Some e)"
| "sync_result (Unrecorded p e) =
     Some (Some (Wrapf ''signal delivered but audit record failed to write (caller may retry, causing a duplicate delivery)'' e))"
| "sync_result (Recorded p) = Some None"
| "sync_result pc = None"

text \<open>Without interruption the five steps are the function of theory \<open>EgressAudit\<close>.\<close>

lemma sync_forward_in_steps:
  "(case (sync_step c dst deliver ^^ 5) (Delivering p, w) of (pc, w') \<Rightarrow> (sync_result pc, w'))
     = (case auditingSyncForward c dst deliver p w of (r, w') \<Rightarrow> (Some r, w'))"
  by (cases w) (simp add: eval_nat_numeral auditingSyncForward_def write_audit_def read_clock_def recordSuccess_def
      recordFailure_def count_audit_failure_def split: prod.split option.split)

section \<open>All handlers\<close>

text \<open>Beside the handlers \<^verbatim>\<open>main\<close> may close the log: after a graceful shutdown that ran out of
  time there are still handlers at work.\<close>

inductive request_step ::
  "logger_cfg \<Rightarrow> bytes \<Rightarrow> (bytes \<Rightarrow> 'd \<Rightarrow> gores \<times> 'd) \<Rightarrow> sync_pc \<Rightarrow> 'd audit_state \<Rightarrow> sync_pc \<Rightarrow> 'd audit_state \<Rightarrow> bool"
  for c dst deliver where
  request: "request_step c dst deliver Waiting w (Delivering p) w"
| shutdown: "request_step c dst deliver Waiting w ClosingLog w"
| go: "sync_step c dst deliver (pc, w) = (pc', w') \<Longrightarrow> request_step c dst deliver pc w pc' w'"

inductive_cases request_stepE: "request_step c dst deliver pc w pc' w'"

definition sync_start :: "logger_cfg \<Rightarrow> 'd audit_state \<Rightarrow> (nat \<Rightarrow> sync_pc) \<Rightarrow> ('d \<times> bytes list) audit_state \<Rightarrow> bool" where
  "sync_start c w0 P w \<longleftrightarrow> P = (\<lambda>i. Waiting) \<and> logger_ok c w0 \<and> destination w = (destination w0, [])
     \<and> logger w = logger w0 \<and> failures w = failures w0 \<and> digest w = digest w0
     \<and> audit_write_failures w = audit_write_failures w0 \<and> clock w = clock w0"

text \<open>Every state the handlers can reach; the destination carries the list of what it has confirmed.\<close>

definition sync_run ::
  "logger_cfg \<Rightarrow> bytes \<Rightarrow> (bytes \<Rightarrow> 'd \<Rightarrow> gores \<times> 'd) \<Rightarrow> 'd audit_state \<Rightarrow> (nat \<Rightarrow> sync_pc) \<Rightarrow> ('d \<times> bytes list) audit_state \<Rightarrow> bool" where
  "sync_run c dst deliver w0 = par_reach (request_step c dst (confirming deliver)) (sync_start c w0)"

section \<open>Assertions\<close>

fun sync_ok :: "logger_cfg \<Rightarrow> bytes \<Rightarrow> sync_pc \<Rightarrow> ('d \<times> bytes list) audit_state \<Rightarrow> bool" where
  "sync_ok c dst (Stamping p) w \<longleftrightarrow> p \<in> set (snd (destination w))"
| "sync_ok c dst (Recording p t) w \<longleftrightarrow> p \<in> set (snd (destination w))"
| "sync_ok c dst (CountingLoss p e) w \<longleftrightarrow> p \<in> set (snd (destination w))"
| "sync_ok c dst (CountingFailure p e) w \<longleftrightarrow> p \<in> set (snd (destination w))"
| "sync_ok c dst (Unrecorded p e) w \<longleftrightarrow> p \<in> set (snd (destination w))"
| "sync_ok c dst (CountingSuccess p) w \<longleftrightarrow> p \<in> set (snd (destination w)) \<and> audited_in c dst w p"
| "sync_ok c dst (Recorded p) w \<longleftrightarrow> p \<in> set (snd (destination w)) \<and> audited_in c dst w p"
| "sync_ok c dst pc w \<longleftrightarrow> True"

text \<open>Closing the log loses nothing, and it can be used again.\<close>

lemma closed_log:
  assumes "log_ok l s"
  shows "log_ok l (snd (close_log s))" "stored l s e \<Longrightarrow> stored l (snd (close_log s)) e"
proof -
  have t: "touches {} (log_disk s) (log_disk (snd (close_log s)))"
    using touches_calls(5) [of "log_disk s"] by (auto simp: close_log_def split: prod.splits sum.splits)
  have wf: "wf_fs (log_disk s)" and f: "log_f (snd (close_log s)) = None"
    using assms by (auto simp: log_ok_def close_log_def split: prod.splits sum.splits)
  show "log_ok l (snd (close_log s))" using touches_wf [OF t wf] f by (simp add: log_ok_def)
  show "stored l (snd (close_log s)) e" if "stored l s e"
    using that touches_unaffected [OF t wf] written_unaffected unfolding stored_def by blast
qed

text \<open>Whatever a handler does, the log and the list of confirmed signals only grow.\<close>

lemma sync_step_grows:
  assumes "sync_step c dst (confirming deliver) (pc, w) = (pc', w')" "logger_ok c w"
  shows "log_grows c dst w w'" "set (snd (destination w)) \<subseteq> set (snd (destination w'))"
    "sync_ok c dst pc w \<Longrightarrow> sync_ok c dst pc' w'"
proof -
  have same: "log_grows c dst w v" if "logger v = logger w" for v :: "('a \<times> bytes list) audit_state"
    using that assms(2) by (simp add: log_grows_def audited_in_def)
  have rec: "log_grows c dst w (w\<lparr>logger := l\<rparr>) \<and> (r = None \<longrightarrow> audited_in c dst (w\<lparr>logger := l\<rparr>) p)"
    if "writeAuditFromPayload c dst p t (logger w) = (r, l)" for p t r l
  proof -
    have "write_audit c dst p (w\<lparr>clock := [t]\<rparr>) = (r, (w\<lparr>clock := [t]\<rparr>)\<lparr>logger := l, clock := []\<rparr>)"
      using that by (simp add: write_audit_def read_clock_def)
    from write_audit_outcome(1,2) [OF this] assms(2) show ?thesis by (simp add: log_grows_def audited_in_def)
  qed
  have "log_grows c dst w w' \<and> set (snd (destination w)) \<subseteq> set (snd (destination w')) \<and> (sync_ok c dst pc w \<longrightarrow> sync_ok c dst pc' w')"
  proof (cases pc)
    case (Delivering p)
    then show ?thesis using assms(1) same confirming_log [of "destination w" deliver p] confirming_ok [of deliver p "destination w"]
      by (auto split: prod.splits option.splits)
  next
    case (Recording p t)
    then show ?thesis using assms(1) rec by (fastforce split: prod.splits option.splits)
  next
    case ClosingLog
    have "audited c dst (snd (close_log (logger w))) e" if "audited c dst (logger w) e" for e
      using that closed_log(2) [OF assms(2)] unfolding audited_def by blast
    then have "log_grows c dst w (w\<lparr>logger := snd (close_log (logger w))\<rparr>)"
      using closed_log(1) [OF assms(2)] by (auto simp: log_grows_def audited_in_def)
    then show ?thesis using ClosingLog assms(1) by (auto simp: CloseLogger_def)
  qed (use assms(1) same in \<open>auto simp: count_audit_failure_def recordFailure_def recordSuccess_def audited_in_def\<close>)
  then show "log_grows c dst w w'" "set (snd (destination w)) \<subseteq> set (snd (destination w'))"
    "sync_ok c dst pc w \<Longrightarrow> sync_ok c dst pc' w'" by auto
qed

lemma sync_ok_mono:
  assumes "sync_ok c dst pc w" "log_grows c dst w w'" "set (snd (destination w)) \<subseteq> set (snd (destination w'))"
  shows "sync_ok c dst pc w'"
  using assms by (cases pc) (auto simp: log_grows_def)

interpretation handlers:
  interference_free "request_step c dst (confirming deliver)" "sync_start c w0" "logger_ok c" "sync_ok c dst" "\<lambda>_ _. True"
  for c dst deliver w0
proof unfold_locales
  show "sync_start c w0 P w \<Longrightarrow> logger_ok c w \<and> (\<forall>i. sync_ok c dst (P i) w) \<and> (\<forall>i j. i \<noteq> j \<longrightarrow> True)" for P w
    by (simp add: sync_start_def)
next
  fix p w p' and w' :: "('a \<times> bytes list) audit_state"
  assume ok: "logger_ok c w" "sync_ok c dst p w" "request_step c dst (confirming deliver) p w p' w'"
  from ok(3) show "logger_ok c w' \<and> sync_ok c dst p' w'"
  proof cases
    case go
    from sync_step_grows [OF go ok(1)] ok(2) show ?thesis by (simp add: log_grows_def)
  qed (use ok(1) in auto)
next
  fix p q p' and w w' :: "('a \<times> bytes list) audit_state"
  assume ok: "logger_ok c w" "sync_ok c dst q w" "request_step c dst (confirming deliver) p w p' w'"
  from ok(3) have "sync_ok c dst q w'"
  proof cases
    case go
    from sync_ok_mono [OF ok(2) sync_step_grows(1,2) [OF go ok(1)]] show ?thesis .
  qed (use ok(2) in simp_all)
  then show "sync_ok c dst q w' \<and> True" by simp
qed simp

section \<open>What is counted\<close>

fun has_delivered :: "sync_pc \<Rightarrow> bool" where
  "has_delivered Waiting = False"
| "has_delivered (Delivering p) = False"
| "has_delivered (Rejected p e) = False"
| "has_delivered ClosingLog = False"
| "has_delivered LogClosed = False"
| "has_delivered pc = True"

fun loss_counted :: "sync_pc \<Rightarrow> bool" where
  "loss_counted (CountingFailure p e) = True"
| "loss_counted (Unrecorded p e) = True"
| "loss_counted pc = False"

fun failure_counted :: "sync_pc \<Rightarrow> bool" where
  "failure_counted (Unrecorded p e) = True"
| "failure_counted pc = False"

definition tallied :: "int \<Rightarrow> int \<Rightarrow> (nat \<Rightarrow> sync_pc) \<Rightarrow> ('d \<times> bytes list) audit_state \<Rightarrow> bool" where
  "tallied f0 m0 P w \<longleftrightarrow>
     finite (crew has_delivered P) \<and> finite (crew loss_counted P) \<and> finite (crew failure_counted P)
     \<and> int (length (snd (destination w))) = int (card (crew has_delivered P))
     \<and> audit_write_failures w = m0 + int (card (crew loss_counted P))
     \<and> failures w \<le> max 0 f0 + int (card (crew failure_counted P))"

lemma sync_step_tally:
  assumes "sync_step c dst (confirming deliver) (pc, w) = (pc', w')"
  shows "int (length (snd (destination w'))) = int (length (snd (destination w))) + of_bool (has_delivered pc') - of_bool (has_delivered pc)"
    "audit_write_failures w' = audit_write_failures w + of_bool (loss_counted pc') - of_bool (loss_counted pc)"
    "failures w' = 0 \<and> failure_counted pc' = failure_counted pc
     \<or> failures w' = failures w + of_bool (failure_counted pc') - of_bool (failure_counted pc)"
  using assms
  by (cases pc; auto simp: confirming_def count_audit_failure_def recordFailure_def recordSuccess_def split: prod.splits option.splits)+

lemma tallied_reach:
  assumes "sync_run c dst deliver w0 P w"
  shows "tallied (failures w0) (audit_write_failures w0) P w"
  using assms [unfolded sync_run_def]
proof (rule handlers.reach_invariant)
  fix P and w :: "('a \<times> bytes list) audit_state"
  assume "sync_start c w0 P w"
  then show "tallied (failures w0) (audit_write_failures w0) P w" by (simp add: sync_start_def tallied_def crew_def)
next
  fix P i p' and w w' :: "('a \<times> bytes list) audit_state"
  assume t: "tallied (failures w0) (audit_write_failures w0) P w" and st: "request_step c dst (confirming deliver) (P i) w p' w'"
  then have fin: "finite (crew has_delivered P)" "finite (crew loss_counted P)" "finite (crew failure_counted P)"
    by (simp_all add: tallied_def)
  note up = crew_update [OF fin(1), of i p'] crew_update [OF fin(2), of i p'] crew_update [OF fin(3), of i p']
  from st show "tallied (failures w0) (audit_write_failures w0) (P(i := p')) w'"
  proof cases
    case (request p)
    then show ?thesis using t up by (simp add: tallied_def)
  next
    case shutdown
    then show ?thesis using t up by (simp add: tallied_def)
  next
    case go
    show ?thesis using t up sync_step_tally [OF go] unfolding tallied_def by linarith
  qed
qed

section \<open>Properties\<close>

text \<open>
  C8. Synchronous mode tells the truth under concurrency: however any number of handlers interleave, and
  whatever the clock reads, a handler that returns nil has delivered its own signal and has its record fsynced
  in the audit log, where it stays, even if the log is being closed under it; every handler delivers at most once, the metric
  \<^verbatim>\<open>audit_write_failures\<close> counts exactly the handlers whose confirmed delivery got no record, and the
  count of the readiness check never exceeds them.
\<close>

theorem sync_reply_is_truthful:
  assumes "sync_run c dst deliver w0 P w"
  shows "(sync_result (P i) = Some None \<longrightarrow>
        (\<exists>p. P i = Recorded p \<and> p \<in> set (snd (destination w)) \<and> audited_in c dst w p))
    \<and> length (snd (destination w)) = card {i. has_delivered (P i)}
    \<and> audit_write_failures w = audit_write_failures w0 + int (card {i. loss_counted (P i)})
    \<and> failures w \<le> max 0 (failures w0) + int (card {i. failure_counted (P i)})"
proof -
  have "sync_ok c dst (P i) w" by (rule handlers.reach_own [OF assms [unfolded sync_run_def]])
  with tallied_reach [OF assms] show ?thesis
    by (cases "P i") (simp_all add: tallied_def crew_def)
qed

text \<open>Two handlers: the first has delivered and read the clock when the second delivers and records.\<close>

lemma sync_run_steps:
  assumes "sync_run c dst deliver w0 P w" "(sync_step c dst (confirming deliver) ^^ k) (P i, w) = (pc', w')"
  shows "sync_run c dst deliver w0 (P(i := pc')) w'"
  using assms
proof (induction k arbitrary: P w)
  case 0
  then have "P(i := pc') = P" "w' = w" by auto
  with 0(1) show ?case by (simp only:)
next
  case (Suc k)
  obtain pc1 w1 where 1: "sync_step c dst (confirming deliver) (P i, w) = (pc1, w1)" by fastforce
  have r: "sync_run c dst deliver w0 (P(i := pc1)) w1"
    using Suc.prems(1) request_step.go [OF 1] unfolding sync_run_def by (rule par_reach.advance)
  have "(sync_step c dst (confirming deliver) ^^ k) ((P(i := pc1)) i, w1) = (pc', w')"
    using Suc.prems(2) 1 by (simp add: funpow_swap1)
  from Suc.IH [OF r this] show ?case by (simp only: fun_upd_upd)
qed

lemma sync_run_request:
  assumes "sync_run c dst deliver w0 P w" "P i = Waiting"
  shows "sync_run c dst deliver w0 (P(i := Delivering p)) w"
  using assms(1) request_step.request [of c dst "confirming deliver" w p] unfolding sync_run_def assms(2) [symmetric]
  by (rule par_reach.advance)

lemma two_handlers:
  "\<exists>w. sync_run audit1 ''dst'' (\<lambda>b d. (None, d)) (audit_start ()) ((\<lambda>i. Waiting)(0 := Recording ''x'' 0, 1 := Recorded ''{}'')) w"
proof -
  let ?run = "sync_run audit1 ''dst'' (\<lambda>b d. (None, d)) (audit_start ())"
  let ?w = "audit_start ((), []) :: (unit \<times> bytes list) audit_state"
  let ?P = "(\<lambda>i. Waiting) :: nat \<Rightarrow> sync_pc"
  have "?run ?P ?w" unfolding sync_run_def by (rule par_reach.start) (simp add: sync_start_def audit_start_def fresh_log_ok)
  from sync_run_request [OF this, of 0 "''x''"] have "?run (?P(0 := Delivering ''x'')) ?w" by simp
  from sync_run_steps [OF this, of 2 0 "Recording ''x'' 0" "?w\<lparr>destination := ((), [''x''])\<rparr>"]
  have a: "?run (?P(0 := Recording ''x'' 0)) (?w\<lparr>destination := ((), [''x''])\<rparr>)"
    by (simp add: eval_nat_numeral confirming_def audit_start_def read_clock_def)
  from sync_run_request [OF a, of 1 "''{}''"]
  have b: "?run (?P(0 := Recording ''x'' 0, 1 := Delivering ''{}'')) (?w\<lparr>destination := ((), [''x''])\<rparr>)" by simp
  obtain l where "record_fields audit1 ''dst'' zero_audit_fields ''{}'' 0 (fresh_log []) = (None, l)"
    using fresh_record by blast
  then have l: "writeAuditFromPayload audit1 ''dst'' ''{}'' 0 (fresh_log []) = (None, l)"
    by (simp add: writeAuditFromPayload_def empty_object_fields)
  obtain w' where "(sync_step audit1 ''dst'' (confirming (\<lambda>b d. (None, d))) ^^ 5) (Delivering ''{}'', ?w\<lparr>destination := ((), [''x''])\<rparr>)
      = (Recorded ''{}'', w')"
    by (simp add: eval_nat_numeral confirming_def audit_start_def read_clock_def l)
  with sync_run_steps [OF b, of 5 1 "Recorded ''{}''" w'] show ?thesis by auto
qed

theorem sync_reply_is_truthful_witness:
  "\<exists>w. sync_run audit1 ''dst'' (\<lambda>b d. (None, d)) (audit_start ()) ((\<lambda>i. Waiting)(0 := Recording ''x'' 0, 1 := Recorded ''{}'')) w
    \<and> audited_in audit1 ''dst'' w ''{}'' \<and> audit_write_failures w = 0"
proof -
  obtain w where r: "sync_run audit1 ''dst'' (\<lambda>b d. (None, d)) (audit_start ()) ((\<lambda>i. Waiting)(0 := Recording ''x'' 0, 1 := Recorded ''{}'')) w"
    using two_handlers by blast
  have "{i. loss_counted (((\<lambda>i. Waiting)(0 := Recording ''x'' 0, 1 := Recorded ''{}'')) i)} = {}" by auto
  with sync_reply_is_truthful [OF r, of 1] r show ?thesis by (auto simp: audit_start_def)
qed

end
