(* ===== verification/Configuration.thy ===== *)
theory Configuration
  imports GoConv Wire
begin

text \<open>
  internal/config/config.go: the configuration file and the environment. \<open>env\<close> is
  \<^verbatim>\<open>os.Getenv\<close> (an unset variable reads as the empty text) and \<open>read_file\<close> gives what can
  be read of a file, \<open>None\<close> when it cannot be opened. The package variable \<^verbatim>\<open>cached\<close> is an
  argument and a result of \<open>Load\<close>.
\<close>

type_synonym env = "string \<Rightarrow> bytes"

section \<open>The structs\<close>

record HubParams =
  HubInstitutionID :: bytes
  APIKey :: bytes
  HubEndpointURL :: bytes

text \<open>The values of the adapter map are arbitrary JSON; the gateway does not read them.\<close>

record LocalParams =
  BankSalt :: bytes
  InternalAdapterConfig :: "bytes \<rightharpoonup> json"
  LocalLogRetentionDays :: int
  ReportingThreshold :: f64

record GatewayConfig =
  Mode :: bytes
  MosaicKeying :: bytes
  Hub :: HubParams
  Local :: LocalParams

definition empty_config :: GatewayConfig where
  "empty_config = \<lparr>Mode = [], MosaicKeying = [],
     Hub = \<lparr>HubInstitutionID = [], APIKey = [], HubEndpointURL = []\<rparr>,
     Local = \<lparr>BankSalt = [], InternalAdapterConfig = Map.empty, LocalLogRetentionDays = 0, ReportingThreshold = Fin 0\<rparr>\<rparr>"

definition ModeMiddleware :: bytes where "ModeMiddleware = ''middleware''"
definition ModeStandalone :: bytes where "ModeStandalone = ''standalone''"
definition MosaicKeyingBank :: bytes where "MosaicKeyingBank = ''bank''"
definition MosaicKeyingRegional :: bytes where "MosaicKeyingRegional = ''regional''"

definition IsStandalone :: "GatewayConfig \<Rightarrow> bool" where
  "IsStandalone c \<longleftrightarrow> Mode c = ModeStandalone"

section \<open>Decoding\<close>

text \<open>
  A number inside an \<^verbatim>\<open>interface{}\<close> value becomes a \<^verbatim>\<open>float64\<close>; one out of its range is
  an error of the whole decoding and leaves a nil behind.
\<close>

fun numbers_ok :: "json \<Rightarrow> bool" where
  "numbers_ok (JNum s) = (float_literal s \<noteq> None)"
| "numbers_ok (JArr vs) = (\<forall>v \<in> set vs. numbers_ok v)"
| "numbers_ok (JObj ms) = (\<forall>m \<in> set ms. numbers_ok (snd m))"
| "numbers_ok v = True"

fun any_value :: "json \<Rightarrow> json" where
  "any_value (JNum s) = (if float_literal s = None then JNull else JNum s)"
| "any_value (JArr vs) = JArr (map any_value vs)"
| "any_value (JObj ms) = JObj (map (\<lambda>m. (fst m, any_value (snd m))) ms)"
| "any_value v = v"

definition add_members :: "(bytes \<times> json) list \<Rightarrow> (bytes \<rightharpoonup> json) \<Rightarrow> (bytes \<rightharpoonup> json)" where
  "add_members ms old = foldl (\<lambda>f m. f(fst m \<mapsto> any_value (snd m))) old ms"

text \<open>Decoding into the map, and what is in the map afterwards when the error is ignored.\<close>

definition set_adapter :: "json \<Rightarrow> (bytes \<rightharpoonup> json) \<Rightarrow> (bytes \<rightharpoonup> json) option" where
  "set_adapter v old =
     (case v of JObj ms \<Rightarrow> if numbers_ok v then Some (add_members ms old) else None
      | JNull \<Rightarrow> Some Map.empty
      | _ \<Rightarrow> None)"

definition merge_adapter :: "bytes \<Rightarrow> (bytes \<rightharpoonup> json) \<Rightarrow> (bytes \<rightharpoonup> json)" where
  "merge_adapter s old =
     (case parse_json s of
        Some (JObj ms) \<Rightarrow> add_members ms old
      | Some JNull \<Rightarrow> Map.empty
      | _ \<Rightarrow> old)"

definition hub_setters :: "HubParams setters" where
  "hub_setters =
    [(''institution_id'', \<lambda>v r. map_option (\<lambda>x. r\<lparr>HubInstitutionID := x\<rparr>) (set_string v (HubInstitutionID r))),
     (''api_key'', \<lambda>v r. map_option (\<lambda>x. r\<lparr>APIKey := x\<rparr>) (set_string v (APIKey r))),
     (''hub_endpoint_url'', \<lambda>v r. map_option (\<lambda>x. r\<lparr>HubEndpointURL := x\<rparr>) (set_string v (HubEndpointURL r)))]"

definition local_setters :: "LocalParams setters" where
  "local_setters =
    [(''bank_salt'', \<lambda>v r. map_option (\<lambda>x. r\<lparr>BankSalt := x\<rparr>) (set_string v (BankSalt r))),
     (''internal_adapter_config'',
        \<lambda>v r. map_option (\<lambda>x. r\<lparr>InternalAdapterConfig := x\<rparr>) (set_adapter v (InternalAdapterConfig r))),
     (''local_log_retention'', \<lambda>v r. map_option (\<lambda>x. r\<lparr>LocalLogRetentionDays := x\<rparr>) (set_int v (LocalLogRetentionDays r))),
     (''reporting_threshold'', \<lambda>v r. map_option (\<lambda>x. r\<lparr>ReportingThreshold := x\<rparr>) (set_float v (ReportingThreshold r)))]"

definition config_setters :: "GatewayConfig setters" where
  "config_setters =
    [(''mode'', \<lambda>v r. map_option (\<lambda>x. r\<lparr>Mode := x\<rparr>) (set_string v (Mode r))),
     (''mosaic_keying'', \<lambda>v r. map_option (\<lambda>x. r\<lparr>MosaicKeying := x\<rparr>) (set_string v (MosaicKeying r))),
     (''hub'', \<lambda>v r. map_option (\<lambda>x. r\<lparr>Hub := x\<rparr>) (decode_struct hub_setters v (Hub r))),
     (''local'', \<lambda>v r. map_option (\<lambda>x. r\<lparr>Local := x\<rparr>) (decode_struct local_setters v (Local r)))]"

definition decode_config :: "bytes \<Rightarrow> GatewayConfig option" where
  "decode_config s = Option.bind (parse_first s) (\<lambda>(v, _). decode_struct config_setters v empty_config)"

section \<open>Loading\<close>

definition envInt :: "env \<Rightarrow> string \<Rightarrow> int option" where
  "envInt env key = (let s = env key in if s = [] then None else parse_int64 s)"

definition envFloat :: "env \<Rightarrow> string \<Rightarrow> f64 option" where
  "envFloat env key = (let s = env key in if s = [] then None else parse_float s)"

definition config_path :: "env \<Rightarrow> bytes" where
  "config_path env = (if env ''CONFIG_PATH'' = [] then ''/config/gateway.json'' else env ''CONFIG_PATH'')"

definition file_config :: "(bytes \<Rightarrow> bytes option) \<Rightarrow> env \<Rightarrow> GatewayConfig" where
  "file_config read_file env =
     (case read_file (config_path env) of
        None \<Rightarrow> empty_config
      | Some text \<Rightarrow> (case decode_config text of None \<Rightarrow> empty_config | Some fileCfg \<Rightarrow> fileCfg))"

definition override :: "bytes \<Rightarrow> bytes \<Rightarrow> bytes" where
  "override v old = (if v \<noteq> [] then v else old)"

definition env_config :: "env \<Rightarrow> GatewayConfig \<Rightarrow> GatewayConfig" where
  "env_config env c =
     \<lparr>Mode = override (env ''GATEWAY_MODE'') (Mode c),
      MosaicKeying = override (env ''MOSAIC_KEYING'') (MosaicKeying c),
      Hub = \<lparr>HubInstitutionID = override (env ''INSTITUTION_ID'') (HubInstitutionID (Hub c)),
             APIKey = override (env ''API_KEY'') (APIKey (Hub c)),
             HubEndpointURL = override (env ''HUB_API_URL'') (HubEndpointURL (Hub c))\<rparr>,
      Local = \<lparr>BankSalt = override (env ''BANK_SALT'') (BankSalt (Local c)),
               InternalAdapterConfig =
                 (if env ''INTERNAL_ADAPTER_CONFIG'' \<noteq> []
                  then merge_adapter (env ''INTERNAL_ADAPTER_CONFIG'') (InternalAdapterConfig (Local c))
                  else InternalAdapterConfig (Local c)),
               LocalLogRetentionDays =
                 (case envInt env ''LOCAL_LOG_RETENTION_DAYS'' of Some v \<Rightarrow> v | None \<Rightarrow> LocalLogRetentionDays (Local c)),
               ReportingThreshold =
                 (case envFloat env ''REPORTING_THRESHOLD'' of Some v \<Rightarrow> v | None \<Rightarrow> ReportingThreshold (Local c))\<rparr>\<rparr>"

definition builtin_defaults :: "GatewayConfig \<Rightarrow> GatewayConfig" where
  "builtin_defaults c =
     (let m = str_to_lower (trim_space (Mode c)); k = str_to_lower (trim_space (MosaicKeying c));
          l = Local c
      in c\<lparr>Mode := (if m = [] then ModeMiddleware else m),
           MosaicKeying := (if k = [] then MosaicKeyingBank else k),
           Local := l\<lparr>LocalLogRetentionDays := (if LocalLogRetentionDays l \<le> 0 then 90 else LocalLogRetentionDays l),
                      ReportingThreshold := (if fle (ReportingThreshold l) (Fin 0) then Fin 10000 else ReportingThreshold l)\<rparr>\<rparr>)"

definition read_config :: "(bytes \<Rightarrow> bytes option) \<Rightarrow> env \<Rightarrow> GatewayConfig" where
  "read_config read_file env = builtin_defaults (env_config env (file_config read_file env))"

definition Load :: "(bytes \<Rightarrow> bytes option) \<Rightarrow> env \<Rightarrow> GatewayConfig option \<Rightarrow> GatewayConfig \<times> GatewayConfig option" where
  "Load read_file env cached =
     (case cached of
        Some cfg \<Rightarrow> (cfg, cached)
      | None \<Rightarrow> (let cfg = read_config read_file env in (cfg, Some cfg)))"

definition Reload :: "(bytes \<Rightarrow> bytes option) \<Rightarrow> env \<Rightarrow> GatewayConfig option \<Rightarrow> GatewayConfig \<times> GatewayConfig option" where
  "Reload read_file env cached = Load read_file env None"

definition Get :: "(bytes \<Rightarrow> bytes option) \<Rightarrow> env \<Rightarrow> GatewayConfig option \<Rightarrow> GatewayConfig \<times> GatewayConfig option" where
  "Get read_file env cached = Load read_file env cached"

section \<open>Laws\<close>

text \<open>What every loaded configuration satisfies.\<close>

definition loaded :: "GatewayConfig \<Rightarrow> bool" where
  "loaded c \<longleftrightarrow> Mode c \<noteq> [] \<and> MosaicKeying c \<noteq> [] \<and> 0 < LocalLogRetentionDays (Local c)
     \<and> \<not> fle (ReportingThreshold (Local c)) (Fin 0)"

lemma loaded_defaults: "loaded (builtin_defaults c)"
  by (simp add: loaded_def builtin_defaults_def Let_def ModeMiddleware_def MosaicKeyingBank_def)

text \<open>A history of calls: the environment and the files at the time of each, and whether it is a \<^verbatim>\<open>Reload\<close>.\<close>

type_synonym config_call = "bool \<times> (bytes \<Rightarrow> bytes option) \<times> env"

fun run_call :: "config_call \<Rightarrow> GatewayConfig option \<Rightarrow> GatewayConfig \<times> GatewayConfig option" where
  "run_call (reload, read_file, env) cached =
     (if reload then Reload read_file env cached else Get read_file env cached)"

definition run_calls :: "config_call list \<Rightarrow> GatewayConfig option" where
  "run_calls cs = foldl (\<lambda>cached c. snd (run_call c cached)) None cs"

text \<open>The call whose environment counts: the last reload, or else the first call.\<close>

definition governing :: "config_call list \<Rightarrow> config_call" where
  "governing cs = (if filter fst cs = [] then hd cs else last (filter fst cs))"

lemma run_calls_snoc: "run_calls (cs @ [c]) = snd (run_call c (run_calls cs))"
  by (simp add: run_calls_def)

lemma governing_snoc: "governing (cs @ [(b, rf, env)]) = (if b \<or> cs = [] then (b, rf, env) else governing cs)"
  by (cases b; cases cs) (auto simp: governing_def)

lemma run_calls_governing:
  "cs \<noteq> [] \<Longrightarrow> run_calls cs = Some (read_config (fst (snd (governing cs))) (snd (snd (governing cs))))"
proof (induction cs rule: rev_induct)
  case (snoc c cs)
  obtain b rf env where c: "c = (b, rf, env)" by (metis prod_cases3)
  show ?case
  proof (cases "b \<or> cs = []")
    case True
    then show ?thesis
      by (auto simp: c run_calls_snoc governing_snoc Reload_def Get_def Load_def Let_def run_calls_def)
  next
    case False
    with snoc show ?thesis
      by (simp add: c run_calls_snoc governing_snoc Get_def Load_def)
  qed
qed simp

lemma run_call_result: "fst (run_call c (run_calls cs)) = the (run_calls (cs @ [c]))"
proof -
  obtain b rf env where c: "c = (b, rf, env)" by (metis prod_cases3)
  show ?thesis
    by (auto simp: c run_calls_snoc Reload_def Get_def Load_def Let_def split: option.split)
qed

lemma metadata_near:
  "metadata raw salt thr ''is_near_threshold'' = (if near_threshold thr (Amount raw) then Some (MBool True) else None)"
  by (simp add: metadata_def put_def split: option.split)

section \<open>Properties\<close>

text \<open>
  Between reloads the configuration does not change: whatever happens to the environment and to
  the files, a call returns what they held at the last \<^verbatim>\<open>Reload\<close>, or at the first call when
  there was none, so all signals in between are keyed with the same salt.
\<close>

theorem config_stable_between_reloads:
  "fst (run_call c (run_calls cs)) =
    read_config (fst (snd (governing (cs @ [c])))) (snd (snd (governing (cs @ [c]))))"
  by (simp add: run_call_result run_calls_governing)

text \<open>
  The environment wins over the file: when the nine settings are set in the environment (the two
  numbers with values that parse), the file has no influence on the configuration, apart from the
  adapter map, which the two are merged into.
\<close>

theorem environment_wins:
  assumes "\<forall>k \<in> {''GATEWAY_MODE'', ''MOSAIC_KEYING'', ''INSTITUTION_ID'', ''API_KEY'', ''HUB_API_URL'', ''BANK_SALT''}. env k \<noteq> []"
    and "env ''CONFIG_PATH'' = p" "envInt env ''LOCAL_LOG_RETENTION_DAYS'' = Some d" "envFloat env ''REPORTING_THRESHOLD'' = Some x"
  shows "read_config rf env = (read_config rf' env)\<lparr>Local := (Local (read_config rf' env))
    \<lparr>InternalAdapterConfig := InternalAdapterConfig (Local (read_config rf env))\<rparr>\<rparr>"
  using assms by (simp add: read_config_def builtin_defaults_def env_config_def override_def Let_def)

text \<open>
  C38. A configuration never holds a reporting threshold of zero or less, an empty mode or keying, or
  a retention of zero days, but \<^verbatim>\<open>REPORTING_THRESHOLD=NaN\<close> is taken over: it passes the test
  for an unset threshold, and then no amount is ever flagged as near the threshold.
\<close>

theorem nan_threshold_disables_flag:
  assumes "env ''REPORTING_THRESHOLD'' = ''NaN''"
  shows "loaded (read_config rf env) \<and> ReportingThreshold (Local (read_config rf env)) = NaN
    \<and> Metadata (AnonymizeSignal raw inst salt pepper keying (ReportingThreshold (Local (read_config rf env))) fb)
        ''is_near_threshold'' = None"
proof -
  have "envFloat env ''REPORTING_THRESHOLD'' = Some NaN"
    unfolding envFloat_def assms Let_def by code_simp
  then have "ReportingThreshold (Local (read_config rf env)) = NaN"
    by (simp add: read_config_def builtin_defaults_def env_config_def Let_def)
  then show ?thesis
    by (simp add: AnonymizeSignal_def metadata_near near_threshold_def read_config_def loaded_defaults split: prod.split)
qed

definition full_env :: env where
  "full_env k = (if k = ''REPORTING_THRESHOLD'' then ''1e4'' else if k = ''LOCAL_LOG_RETENTION_DAYS'' then ''30''
     else if k = ''CONFIG_PATH'' then [] else ''x'')"

theorem environment_wins_witness:
  "HubEndpointURL (Hub (read_config (\<lambda>_. Some ''{\"hub\":{\"hub_endpoint_url\":\"https://file\"}}'') full_env)) =
   HubEndpointURL (Hub (read_config (\<lambda>_. None) full_env))"
proof -
  have "envInt full_env ''LOCAL_LOG_RETENTION_DAYS'' = Some 30" "envFloat full_env ''REPORTING_THRESHOLD'' = Some (Fin 10000)"
    by code_simp+
  moreover have "\<forall>k \<in> {''GATEWAY_MODE'', ''MOSAIC_KEYING'', ''INSTITUTION_ID'', ''API_KEY'', ''HUB_API_URL'', ''BANK_SALT''}. full_env k \<noteq> []"
    by (simp add: full_env_def)
  ultimately have "read_config rf full_env = (read_config rf' full_env)\<lparr>Local := (Local (read_config rf' full_env))
      \<lparr>InternalAdapterConfig := InternalAdapterConfig (Local (read_config rf full_env))\<rparr>\<rparr>" for rf rf'
    by (intro environment_wins [where p = "[]" and d = 30 and x = "Fin 10000"]) (simp_all add: full_env_def)
  from arg_cong [OF this, of "\<lambda>c. HubEndpointURL (Hub c)"] show ?thesis by simp
qed

theorem nan_threshold_disables_flag_witness:
  "ReportingThreshold (Local (read_config (\<lambda>_. None) (\<lambda>k. if k = ''REPORTING_THRESHOLD'' then ''NaN'' else []))) = NaN"
  using nan_threshold_disables_flag [of "\<lambda>k. if k = ''REPORTING_THRESHOLD'' then ''NaN'' else []" "\<lambda>_. None"] by simp

end
