(* ===== verification/Inbound.thy ===== *)
theory Inbound
  imports GoDuration GoTime Wire FailureCounter
begin

text \<open>
  internal/adapters/inbound.go: decoding of a request, the liveness check, and the readiness check
  with its thresholds. The package variables are the record \<open>readiness\<close>; its two callbacks read
  the state \<open>'s\<close> of the gateway. The JSON bodies are kept as maps.
\<close>

section \<open>Requests\<close>

text \<open>
  The body is what the reader behind it yields: cut off by \<^verbatim>\<open>MaxBodySize\<close>, a body fails to
  decode when its first value is not complete. \<open>quote\<close> is \<^verbatim>\<open>strconv.Quote\<close>, as for
  \<open>Validate\<close>.
\<close>

definition ProcessInboundRequest :: "(bytes \<Rightarrow> bytes) \<Rightarrow> bytes \<Rightarrow> goerr + RawData" where
  "ProcessInboundRequest quote body =
     (case decode_raw body of
        None \<Rightarrow> Inl (Wrapf ''invalid JSON'' json_error)
      | Some rawData \<Rightarrow>
          (case Validate quote rawData of
             (Some e, _) \<Rightarrow> Inl e
           | (None, valid) \<Rightarrow> Inr valid))"

section \<open>Health\<close>

datatype body_value = BInt int | BFloat f64 | BText bytes | BTexts "bytes list"

definition service_fields :: "instant \<Rightarrow> (string \<rightharpoonup> body_value)" where
  "service_fields now =
     [''timestamp'' \<mapsto> BText (format_rfc3339 now), ''service'' \<mapsto> BText ''edge-gateway'', ''version'' \<mapsto> BText ''2.0.0'']"

definition HealthCheckHandler :: "instant \<Rightarrow> int \<times> (string \<rightharpoonup> body_value)" where
  "HealthCheckHandler now = (200, (service_fields now)(''status'' \<mapsto> BText ''healthy''))"

section \<open>Readiness\<close>

definition DefaultReadinessMaxDepthRatio :: f64 where "DefaultReadinessMaxDepthRatio = f64_lit (95 / 100)"
definition DefaultReadinessMaxStaleness :: int where "DefaultReadinessMaxStaleness = 15 * 60 * 1000000000"
definition DefaultReadinessMaxAuditFailures :: int where "DefaultReadinessMaxAuditFailures = 3"
definition DefaultReadinessMaxSpoolFsyncFailures :: int where "DefaultReadinessMaxSpoolFsyncFailures = 3"

record SpoolStatus =
  status_depth :: int
  status_max_depth :: int
  OldestAge :: int
  HasPending :: bool
  ConsecutiveDirFsyncFailures :: int

record 's readiness =
  readinessSpoolStatus :: "('s \<Rightarrow> SpoolStatus) option"
  readinessAuditStatus :: "('s \<Rightarrow> int) option"
  readinessMaxDepthRatio :: f64
  readinessMaxStaleness :: int
  readinessMaxAuditFailures :: int
  readinessMaxSpoolFsyncFailures :: int

definition initial_readiness :: "'s readiness" where
  "initial_readiness = \<lparr>readinessSpoolStatus = None, readinessAuditStatus = None,
     readinessMaxDepthRatio = DefaultReadinessMaxDepthRatio, readinessMaxStaleness = DefaultReadinessMaxStaleness,
     readinessMaxAuditFailures = DefaultReadinessMaxAuditFailures,
     readinessMaxSpoolFsyncFailures = DefaultReadinessMaxSpoolFsyncFailures\<rparr>"

definition SetReadinessSpoolStatus :: "('s \<Rightarrow> SpoolStatus) option \<Rightarrow> 's readiness \<Rightarrow> 's readiness" where
  "SetReadinessSpoolStatus f r = r\<lparr>readinessSpoolStatus := f\<rparr>"

definition SetReadinessAuditStatus :: "('s \<Rightarrow> int) option \<Rightarrow> 's readiness \<Rightarrow> 's readiness" where
  "SetReadinessAuditStatus f r = r\<lparr>readinessAuditStatus := f\<rparr>"

definition SetReadinessThresholds :: "f64 \<Rightarrow> int \<Rightarrow> 's readiness \<Rightarrow> 's readiness" where
  "SetReadinessThresholds maxDepthRatio maxStaleness r0 =
     (let r = (if flt (Fin 0) maxDepthRatio then r0\<lparr>readinessMaxDepthRatio := maxDepthRatio\<rparr> else r0)
      in if 0 < maxStaleness then r\<lparr>readinessMaxStaleness := maxStaleness\<rparr> else r)"

definition SetReadinessMaxAuditFailures :: "int \<Rightarrow> 's readiness \<Rightarrow> 's readiness" where
  "SetReadinessMaxAuditFailures n r = (if 0 < n then r\<lparr>readinessMaxAuditFailures := n\<rparr> else r)"

definition SetReadinessMaxSpoolFsyncFailures :: "int \<Rightarrow> 's readiness \<Rightarrow> 's readiness" where
  "SetReadinessMaxSpoolFsyncFailures n r = (if 0 < n then r\<lparr>readinessMaxSpoolFsyncFailures := n\<rparr> else r)"

text \<open>The part of the handler on a registered spool: the fields it adds and its reasons.\<close>

definition near_capacity :: "'s readiness \<Rightarrow> SpoolStatus \<Rightarrow> bool" where
  "near_capacity r st \<longleftrightarrow>
     0 < status_max_depth st \<and> fle (readinessMaxDepthRatio r) (fratio (status_depth st) (status_max_depth st))"

definition spool_report ::
  "'s readiness \<Rightarrow> SpoolStatus \<Rightarrow> (string \<rightharpoonup> body_value) \<times> bytes list \<Rightarrow> (string \<rightharpoonup> body_value) \<times> bytes list" where
  "spool_report r st acc =
     (case acc of (body, reasons) \<Rightarrow>
      let body = body(''spool_depth'' \<mapsto> BInt (status_depth st), ''spool_max_depth'' \<mapsto> BInt (status_max_depth st));
          reasons = (if near_capacity r st then reasons @ [''spool at or near capacity''] else reasons);
          body = (if HasPending st then body(''oldest_pending_seconds'' \<mapsto> BFloat (Seconds (OldestAge st))) else body);
          reasons = (if HasPending st \<and> readinessMaxStaleness r < OldestAge st
                     then reasons @ [''oldest pending signal exceeds staleness threshold''] else reasons);
          body = body(''spool_dir_fsync_consecutive_failures'' \<mapsto> BInt (ConsecutiveDirFsyncFailures st));
          reasons = (if readinessMaxSpoolFsyncFailures r \<le> ConsecutiveDirFsyncFailures st
                     then reasons @ [''spool directory fsync has failed for too many consecutive enqueues''] else reasons)
      in (body, reasons))"

definition audit_report ::
  "'s readiness \<Rightarrow> int \<Rightarrow> (string \<rightharpoonup> body_value) \<times> bytes list \<Rightarrow> (string \<rightharpoonup> body_value) \<times> bytes list" where
  "audit_report r n acc =
     (case acc of (body, reasons) \<Rightarrow>
        (body(''audit_consecutive_failures'' \<mapsto> BInt n),
         if readinessMaxAuditFailures r \<le> n
         then reasons @ [''egress audit log has failed to write for too many consecutive deliveries''] else reasons))"

definition ReadinessCheckHandler :: "instant \<Rightarrow> 's readiness \<Rightarrow> 's \<Rightarrow> int \<times> (string \<rightharpoonup> body_value)" where
  "ReadinessCheckHandler now r s =
     (let acc = (service_fields now, []);
          acc = (case readinessSpoolStatus r of None \<Rightarrow> acc | Some statusFn \<Rightarrow> spool_report r (statusFn s) acc);
          acc = (case readinessAuditStatus r of None \<Rightarrow> acc | Some auditFn \<Rightarrow> audit_report r (auditFn s) acc)
      in case acc of (body, reasons) \<Rightarrow>
           if reasons \<noteq> [] then (503, body(''reasons'' \<mapsto> BTexts reasons, ''status'' \<mapsto> BText ''unhealthy''))
           else (200, body(''status'' \<mapsto> BText ''healthy'')))"

section \<open>Laws\<close>

text \<open>What makes the gateway not ready, reason by reason.\<close>

definition spool_degraded :: "'s readiness \<Rightarrow> SpoolStatus \<Rightarrow> bool" where
  "spool_degraded r st \<longleftrightarrow> near_capacity r st \<or> (HasPending st \<and> readinessMaxStaleness r < OldestAge st)
     \<or> readinessMaxSpoolFsyncFailures r \<le> ConsecutiveDirFsyncFailures st"

definition degraded :: "'s readiness \<Rightarrow> 's \<Rightarrow> bool" where
  "degraded r s \<longleftrightarrow>
     (case readinessSpoolStatus r of None \<Rightarrow> False | Some f \<Rightarrow> spool_degraded r (f s))
     \<or> (case readinessAuditStatus r of None \<Rightarrow> False | Some f \<Rightarrow> readinessMaxAuditFailures r \<le> f s)"

lemma spool_report_reasons: "snd (spool_report r st acc) = [] \<longleftrightarrow> snd acc = [] \<and> \<not> spool_degraded r st"
  by (cases acc) (simp add: spool_report_def Let_def spool_degraded_def)

lemma audit_report_reasons: "snd (audit_report r n acc) = [] \<longleftrightarrow> snd acc = [] \<and> \<not> readinessMaxAuditFailures r \<le> n"
  by (cases acc) (simp add: audit_report_def)

lemma readiness_result:
  "fst (ReadinessCheckHandler now r s) = (if degraded r s then 503 else 200)"
proof -
  let ?a = "case readinessSpoolStatus r of None \<Rightarrow> (service_fields now, []) | Some f \<Rightarrow> spool_report r (f s) (service_fields now, [])"
  let ?b = "case readinessAuditStatus r of None \<Rightarrow> ?a | Some f \<Rightarrow> audit_report r (f s) ?a"
  have "snd ?a = [] \<longleftrightarrow> \<not> (case readinessSpoolStatus r of None \<Rightarrow> False | Some f \<Rightarrow> spool_degraded r (f s))"
    by (simp add: spool_report_reasons split: option.split)
  then have "snd ?b = [] \<longleftrightarrow> \<not> degraded r s"
    by (simp add: degraded_def audit_report_reasons split: option.split)
  moreover obtain body reasons where b: "?b = (body, reasons)" by fastforce
  moreover have "ReadinessCheckHandler now r s = (case ?b of (body, reasons) \<Rightarrow>
      if reasons \<noteq> [] then (503, body(''reasons'' \<mapsto> BTexts reasons, ''status'' \<mapsto> BText ''unhealthy''))
      else (200, body(''status'' \<mapsto> BText ''healthy'')))" by (simp only: ReadinessCheckHandler_def Let_def)
  ultimately show ?thesis by (simp only: b) simp
qed

lemma default_ratio: "DefaultReadinessMaxDepthRatio = Fin (4278419646001971 / 2 ^ 52)"
  by (simp add: DefaultReadinessMaxDepthRatio_def f64_lit_def) code_simp

lemma close_ratio:
  assumes "0 < d" "d < 2 ^ 53" "0 < m" "m \<le> 2 ^ 40"
  obtains r where "fratio d m = Fin r" "\<bar>r - of_int d / of_int m\<bar> \<le> of_int d / of_int m / 2 ^ 53"
proof -
  have "(of_int d :: rat) \<le> 2 ^ 53" "(of_int m :: rat) \<le> 2 ^ 40" "(1 :: rat) \<le> of_int d" "(1 :: rat) \<le> of_int m"
    using assms by (simp_all flip: of_int_le_iff)
  moreover from this have "(1 :: rat) / 2 ^ 40 \<le> of_int d / of_int m" by (intro frac_le) simp_all
  moreover have "(of_int d :: rat) / of_int m \<le> 2 ^ 53 / 1" using calculation by (intro frac_le) simp_all
  moreover have "two_pow (- 1022) \<le> 1 / 2 ^ 40" "(2 ^ 53 :: rat) \<le> two_pow 1000" by (simp_all add: two_pow_def)
  ultimately have "two_pow (- 1022) \<le> of_int d / of_int m" "of_int d / of_int m \<le> two_pow 1000" by linarith+
  then obtain r where "fround (of_int d / of_int m) = Fin r" "\<bar>r - of_int d / of_int m\<bar> \<le> of_int d / of_int m / 2 ^ 53"
    by (rule fround_close)
  then show thesis using assms that by (simp add: fratio_def)
qed

lemma default_ratio_exact:
  assumes "0 \<le> d" "d < 2 ^ 53" "0 < m" "m \<le> 2 ^ 40"
  shows "fle DefaultReadinessMaxDepthRatio (fratio d m) \<longleftrightarrow> 19 * m \<le> 20 * d"
proof (cases "d = 0")
  case True
  then show ?thesis using assms by (simp add: fratio_def default_ratio)
next
  case False
  let ?q = "of_int d / of_int m :: rat"
  have m: "(0 :: rat) < of_int m" "(of_int m :: rat) \<le> 2 ^ 40" using assms by (simp_all flip: of_int_le_iff)
  consider (above) "19 * m + 1 \<le> 20 * d" | (eq) "19 * m = 20 * d" | (below) "20 * d + 1 \<le> 19 * m" by linarith
  then show ?thesis
  proof cases
    case eq
    then have "(of_int (19 * m) :: rat) = of_int (20 * d)" by (simp only:)
    then have "?q = 95 / 100" using m by (simp add: field_simps)
    moreover have "fratio d m = fround ?q" using assms by (simp add: fratio_def)
    ultimately have "fratio d m = DefaultReadinessMaxDepthRatio"
      by (simp only: DefaultReadinessMaxDepthRatio_def f64_lit_def)
    then show ?thesis using eq by (simp add: default_ratio)
  next
    case above
    obtain r where r: "fratio d m = Fin r" "\<bar>r - ?q\<bar> \<le> ?q / 2 ^ 53"
      using close_ratio [of d m] assms False by auto
    have "(of_int (19 * m + 1) :: rat) \<le> of_int (20 * d)" using above by (simp only: of_int_le_iff)
    then have "(19 * of_int m + 1) / (20 * of_int m) \<le> (20 * of_int d) / (20 * of_int m :: rat)"
      using m by (intro divide_right_mono) simp_all
    then have "19 / 20 + 1 / (20 * of_int m) \<le> ?q" using m by (simp add: add_divide_distrib)
    moreover have "1 / (20 * 2 ^ 40) \<le> 1 / (20 * of_int m :: rat)" using m by (intro divide_left_mono) simp_all
    moreover have "?q * (1 - 1 / 2 ^ 53) \<le> r" using r(2) by (simp add: abs_le_iff field_simps)
    moreover have "19 / 20 + 1 / (20 * 2 ^ 40) \<le> ?q" using calculation by linarith
    then have "(19 / 20 + 1 / (20 * 2 ^ 40)) * (1 - 1 / 2 ^ 53) \<le> ?q * (1 - 1 / 2 ^ 53 :: rat)"
      by (rule mult_right_mono) simp
    moreover have "(4278419646001971 / 2 ^ 52 :: rat) \<le> (19 / 20 + 1 / (20 * 2 ^ 40)) * (1 - 1 / 2 ^ 53)" by simp
    ultimately have "4278419646001971 / 2 ^ 52 \<le> r" by linarith
    then show ?thesis using above by (simp add: r default_ratio)
  next
    case below
    obtain r where r: "fratio d m = Fin r" "\<bar>r - ?q\<bar> \<le> ?q / 2 ^ 53"
      using close_ratio [of d m] assms False by auto
    have "(of_int (20 * d + 1) :: rat) \<le> of_int (19 * m)" using below by (simp only: of_int_le_iff)
    then have "(20 * of_int d) / (20 * of_int m :: rat) \<le> (19 * of_int m - 1) / (20 * of_int m)"
      using m by (intro divide_right_mono) simp_all
    then have "?q \<le> 19 / 20 - 1 / (20 * of_int m)" using m by (simp add: diff_divide_distrib)
    moreover have "1 / (20 * 2 ^ 40) \<le> 1 / (20 * of_int m :: rat)" using m by (intro divide_left_mono) simp_all
    moreover have "r \<le> ?q * (1 + 1 / 2 ^ 53)" using r(2) by (simp add: abs_le_iff field_simps)
    moreover have "?q \<le> 19 / 20 - 1 / (20 * 2 ^ 40)" using calculation by linarith
    then have "?q * (1 + 1 / 2 ^ 53 :: rat) \<le> (19 / 20 - 1 / (20 * 2 ^ 40)) * (1 + 1 / 2 ^ 53)"
      by (rule mult_right_mono) simp
    moreover have "(19 / 20 - 1 / (20 * 2 ^ 40)) * (1 + 1 / 2 ^ 53) < (4278419646001971 / 2 ^ 52 :: rat)" by simp
    ultimately have "r < 4278419646001971 / 2 ^ 52" by linarith
    then show ?thesis using below by (simp add: r default_ratio)
  qed
qed

section \<open>Properties\<close>

text \<open>
  \<^verbatim>\<open>/readyz\<close> answers 503 exactly when a registered spool is at its depth ratio, holds
  a signal older than the staleness limit or has failed to fsync its directory too often in a row,
  or a registered audit log has failed too often in a row, and 200 in every other case; with nothing
  registered it always answers 200.
\<close>

theorem readiness_code:
  "fst (ReadinessCheckHandler now r s) =
    (if (\<exists>f. readinessSpoolStatus r = Some f
            \<and> (near_capacity r (f s) \<or> (HasPending (f s) \<and> readinessMaxStaleness r < OldestAge (f s))
               \<or> readinessMaxSpoolFsyncFailures r \<le> ConsecutiveDirFsyncFailures (f s)))
        \<or> (\<exists>f. readinessAuditStatus r = Some f \<and> readinessMaxAuditFailures r \<le> f s)
     then 503 else 200)"
  unfolding readiness_result by (simp add: degraded_def spool_degraded_def split: option.split)

text \<open>
  The floating-point capacity test of the default ratio 0.95 is exact: for any depth a counter
  can hold exactly and any capacity up to \<open>2^40\<close> it fires from 95\% on, rounding never moves it by a
  signal.
\<close>

theorem capacity_threshold_exact:
  assumes "readinessMaxDepthRatio r = DefaultReadinessMaxDepthRatio"
    and "0 \<le> status_depth st" "status_depth st < 2 ^ 53" "0 < status_max_depth st" "status_max_depth st \<le> 2 ^ 40"
  shows "near_capacity r st \<longleftrightarrow> 95 * status_max_depth st \<le> 100 * status_depth st"
  using assms by (simp add: near_capacity_def default_ratio_exact)

theorem capacity_threshold_exact_witness:
  "near_capacity (initial_readiness :: nat readiness)
      \<lparr>status_depth = 9500, status_max_depth = 10000, OldestAge = 0, HasPending = False, ConsecutiveDirFsyncFailures = 0\<rparr>
   \<and> \<not> near_capacity (initial_readiness :: nat readiness)
      \<lparr>status_depth = 9499, status_max_depth = 10000, OldestAge = 0, HasPending = False, ConsecutiveDirFsyncFailures = 0\<rparr>"
  by (simp add: capacity_threshold_exact initial_readiness_def)

end
