(* ===== verification/Sink.thy ===== *)
theory Sink
  imports DayLog
begin

text \<open>
  cmd/gateway/sink.go: the standalone destination, which appends the delivered payload itself to a
  day file over DayLog.
\<close>

text \<open>The struct: the day, the handle of its file, and the disk the directory is on.\<close>

type_synonym localSink = day_log

definition sink_files :: "bytes \<Rightarrow> log_cfg" where
  "sink_files directory =
     \<lparr>log_dir = directory, log_prefix = ''signals-'', open_failed = ''failed to open sink file'',
      dirsync_failed = ''failed to fsync sink directory after creating new day file'',
      write_failed = ''failed to write signal to sink''\<rparr>"

definition newLocalSink :: "fs \<Rightarrow> (goerr + localSink) \<times> fs" where
  "newLocalSink d =
     (case os_plain d of
        (Inl e, d1) \<Rightarrow> (Inl (Wrapf ''failed to create sink dir'' e), d1)
      | (Inr _, d1) \<Rightarrow> (Inr \<lparr>log_disk = d1, log_day = [], log_f = None\<rparr>, d1))"

definition Forward :: "bytes \<Rightarrow> instant \<Rightarrow> bytes \<Rightarrow> localSink \<Rightarrow> gores \<times> localSink" where
  "Forward directory now payload s = append_line (sink_files directory) (format_day now) (payload @ [CHR 0x0A]) s"

definition CloseSink :: "localSink \<Rightarrow> gores \<times> localSink" where
  "CloseSink s = close_log s"

section \<open>Laws\<close>

text \<open>A signal delivered at \<open>t\<close> is held when its line is in the file of its day.\<close>

definition sunk :: "bytes \<Rightarrow> day_log \<Rightarrow> instant \<times> bytes \<Rightarrow> bool" where
  "sunk directory s p = stored (sink_files directory) s (format_day (fst p), snd p @ [CHR 0x0A])"

interpretation sink_log: entry_log "\<lambda>p. Forward directory (fst p) (snd p)" "log_ok (sink_files directory)" "sunk directory"
  for directory
proof
  fix s l r s' m
  assume "log_ok (sink_files directory) s" "Forward directory (fst l) (snd l) s = (r, s')"
  note line_log.append_inv [OF this(1), of "(format_day (fst l), snd l @ [CHR 0x0A])" r s']
    and line_log.append_keeps [OF this(1), of "(format_day (fst l), snd l @ [CHR 0x0A])" r s'] and this
  then show "log_ok (sink_files directory) s'" "sunk directory s m \<Longrightarrow> sunk directory s' m"
    by (simp_all add: Forward_def sunk_def)
next
  fix s l s'
  assume "log_ok (sink_files directory) s" "Forward directory (fst l) (snd l) s = (None, s')"
  then show "sunk directory s' l"
    using line_log.append_holds [of "sink_files directory" s "(format_day (fst l), snd l @ [CHR 0x0A])" s']
    by (simp add: Forward_def sunk_def)
qed

text \<open>
  C29. Of any sequence of signals handed to the local sink under any disk faults, every one that was
  acknowledged is complete in its day file after a power loss at the end, whatever failed in between or later.
  The day file is new, or its name had reached the disk when the sequence began; the one exception is a day for which an
  earlier call has reported that the fsync of the directory failed when the file was created.
\<close>

theorem sink_acks_survive_crash:
  assumes "append_all (\<lambda>p. Forward directory (fst p) (snd p)) ps s = (rs, s')" "log_ok (sink_files directory) s"
    and "i < length ps" "rs ! i = None" "ps ! i = (t, payload)"
    and "day_durable (sink_files directory) (log_disk s) (format_day t)"
    and "\<And>j e. j < i \<Longrightarrow> format_day (fst (ps ! j)) = format_day t
           \<Longrightarrow> rs ! j \<noteq> Some (Wrapf ''failed to fsync sink directory after creating new day file'' e)"
    and "crash (log_disk s') d"
  shows "\<exists>pre post. file_content d (directory, ''signals-'' @ format_day t @ ''.ndjson'')
    = Some (pre @ payload @ CHR 0x0A # post)"
proof -
  let ?c = "sink_files directory"
  let ?line = "\<lambda>p. (format_day (fst p), snd p @ [CHR 0x0A])"
  have a: "append_all (\<lambda>l. append_line ?c (fst l) (snd l)) (map ?line ps) s = (rs, s')"
    using assms(1) by (simp add: append_all_map Forward_def [abs_def])
  have "\<not> dirsync_failure ?c (rs ! j)" if "j < i" "fst (map ?line ps ! j) = format_day t" for j
    using assms(7) [of j] that assms(3) by (auto simp: dirsync_failure_def sink_files_def)
  then have "day_durable ?c (log_disk s') (format_day t)"
    using acknowledged_durable [OF a assms(2), of i "format_day t" "payload @ [CHR 0x0A]"] assms(3-6) by simp
  from stored_survives [OF _ assms(8) this, of "payload @ [CHR 0x0A]"] sink_log.acknowledged_kept [OF assms(1-4)] assms(5)
  show ?thesis by (auto simp: sunk_def day_path_def sink_files_def)
qed

theorem sink_acks_survive_crash_witness:
  "\<exists>pre post. file_content (log_disk (snd (append_all (\<lambda>p. Forward ''/sink'' (fst p) (snd p)) [(0, ''a''), (1, ''b'')]
      (fresh_log [])))) (''/sink'', ''signals-'' @ format_day 1 @ ''.ndjson'') = Some (pre @ ''b'' @ CHR 0x0A # post)"
proof -
  define ps :: "(instant \<times> bytes) list" where "ps = [(0, ''a''), (1, ''b'')]"
  obtain rs s' where r: "append_all (\<lambda>p. Forward ''/sink'' (fst p) (snd p)) ps (fresh_log []) = (rs, s')" by fastforce
  then have "rs = fst (append_all (\<lambda>p. Forward ''/sink'' (fst p) (snd p)) ps (fresh_log []))" by simp
  moreover have "fst (append_all (\<lambda>p. Forward ''/sink'' (fst p) (snd p)) ps (fresh_log [])) = [None, None]"
    unfolding ps_def by code_simp
  ultimately have rs: "rs ! j = None" if "j < 2" for j using that by (simp add: less_2_cases_iff) auto
  have wf: "wf_fs (log_disk s')" using sink_log.all_keep [OF r fresh_log_ok(1)] by (simp add: log_ok_def)
  have ps: "1 < length ps" "ps ! 1 = (1, ''b'')" by (simp_all add: ps_def)
  have "rs ! j \<noteq> Some (Wrapf ''failed to fsync sink directory after creating new day file'' e)" if "j < 1" for j e
    using rs [of j] that by simp
  from sink_acks_survive_crash [OF r fresh_log_ok(1) ps(1) _ ps(2) fresh_log_ok(2) this crash_refl [OF wf]] rs [of 1] r
  show ?thesis by (simp add: ps_def)
qed

end
