(* ===== verification/Startup.thy ===== *)
theory Startup
  imports Configuration Inbound Metrics EgressAudit Sink
begin

text \<open>
  cmd/gateway/main.go up to the HTTP server: the checks of the configuration, the settings read from
  the environment, and the wiring of spool, destination, audit log and readiness check. Each
  directory (spool, sink, audit log) has a disk state of its own. Routes, the settings of the server and
  the end of the process are theory \<open>Serving\<close>, the log lines theory \<open>Logging\<close>.
\<close>

section \<open>Validation\<close>

definition pepperEnv :: "env \<Rightarrow> bytes" where
  "pepperEnv env = (if env ''MOSAIC_PEPPER'' \<noteq> [] then env ''MOSAIC_PEPPER'' else env ''REGIONAL_PEPPER'')"

definition resolvePepper :: "env \<Rightarrow> bytes" where
  "resolvePepper env = pepperEnv env"

definition problem :: "bool \<Rightarrow> bytes \<Rightarrow> bytes list" where
  "problem cond msg = (if cond then [msg] else [])"

text \<open>\<open>quote\<close> is \<^verbatim>\<open>strconv.Quote\<close>, the format \<^verbatim>\<open>%q\<close>.\<close>

definition mode_problems :: "(bytes \<Rightarrow> bytes) \<Rightarrow> env \<Rightarrow> GatewayConfig \<Rightarrow> bytes list" where
  "mode_problems quote env cfg =
     (if Mode cfg = ModeStandalone then []
      else if Mode cfg = ModeMiddleware then
        problem (APIKey (Hub cfg) = [])
          ''Required hub.api_key is not set (set API_KEY or provide config file) - required in middleware mode''
        @ problem (HubEndpointURL (Hub cfg) = [])
          (''Required hub.hub_endpoint_url is not set (set HUB_API_URL or provide config file) - ''
            @ ''middleware mode has no destination to forward signals to'')
        @ problem (env ''HMAC_SECRET'' = [])
          ''Required HMAC_SECRET is not set - every forward to the vendor platform would fail (required in middleware mode)''
      else [''Unknown GATEWAY_MODE '' @ quote (Mode cfg) @ '' - must be '' @ quote ModeMiddleware @ '' or '' @ quote ModeStandalone])"

definition keying_problems :: "(bytes \<Rightarrow> bytes) \<Rightarrow> env \<Rightarrow> GatewayConfig \<Rightarrow> bytes list" where
  "keying_problems quote env cfg =
     (if MosaicKeying cfg = MosaicKeyingBank then []
      else if MosaicKeying cfg = MosaicKeyingRegional then
        problem (pepperEnv env = [])
          (''Required MOSAIC_PEPPER (or its alias REGIONAL_PEPPER) is not set - MOSAIC_KEYING=regional keys ''
            @ ''national-ID mosaics on the shared pepper alone, so it must be set for cross-gateway derivability ''
            @ ''to work at all; set MOSAIC_KEYING=bank if there is no shared pepper'')
      else [''Unknown MOSAIC_KEYING '' @ quote (MosaicKeying cfg) @ '' - must be '' @ quote MosaicKeyingBank
              @ '' or '' @ quote MosaicKeyingRegional])"

definition validateStartup :: "(bytes \<Rightarrow> bytes) \<Rightarrow> env \<Rightarrow> GatewayConfig \<Rightarrow> bytes list" where
  "validateStartup quote env cfg =
     problem (HubInstitutionID (Hub cfg) = [])
       ''Required hub.institution_id is not set (set INSTITUTION_ID or provide config file)''
     @ problem (BankSalt (Local cfg) = [])
       ''Required local.bank_salt is not set (set BANK_SALT or provide config file)''
     @ mode_problems quote env cfg @ keying_problems quote env cfg"

section \<open>Settings\<close>

definition gateway_port :: "env \<Rightarrow> bytes" where
  "gateway_port env = (if env ''GATEWAY_PORT'' = [] then ''8080'' else env ''GATEWAY_PORT'')"

definition uses_tls :: "env \<Rightarrow> bool" where
  "uses_tls env \<longleftrightarrow> env ''TLS_CERT_FILE'' \<noteq> [] \<and> env ''TLS_KEY_FILE'' \<noteq> []"

definition sink_dir :: "env \<Rightarrow> bytes" where
  "sink_dir env = (if env ''STANDALONE_SINK_DIR'' = [] then ''./sink'' else env ''STANDALONE_SINK_DIR'')"

definition destination_name :: "GatewayConfig \<Rightarrow> env \<Rightarrow> bytes" where
  "destination_name cfg env = (if IsStandalone cfg then ''local-sink:'' @ sink_dir env else HubEndpointURL (Hub cfg))"

definition audit_config :: "env \<Rightarrow> logger_cfg option" where
  "audit_config env =
     (if env ''EGRESS_AUDIT_DIR'' = [] then None
      else Some \<lparr>audit_dir = env ''EGRESS_AUDIT_DIR'', storePayload = (env ''EGRESS_AUDIT_STORE_PAYLOAD'' = ''true'')\<rparr>)"

text \<open>A variable that holds a positive number.\<close>

definition positive_env :: "env \<Rightarrow> string \<Rightarrow> int option" where
  "positive_env env key =
     (if env key = [] then None
      else case parse_int64 (env key) of None \<Rightarrow> None | Some n \<Rightarrow> if 0 < n then Some n else None)"

definition spool_max_depth :: "env \<Rightarrow> int" where
  "spool_max_depth env = (case positive_env env ''SPOOL_MAX_DEPTH'' of Some n \<Rightarrow> n | None \<Rightarrow> 10000)"

definition spool_config :: "env \<Rightarrow> spool_cfg option" where
  "spool_config env =
     (if env ''SPOOL_DIR'' = [] then None
      else Some \<lparr>dir = env ''SPOOL_DIR'', maxDepth = spool_max_depth env,
                 fsyncEnabled = fsyncEnabledFromEnv (env ''SPOOL_FSYNC'')\<rparr>)"

text \<open>\<^verbatim>\<open>time.Duration(n) * time.Second\<close> is a 64-bit product.\<close>

definition seconds_wrapped :: "int \<Rightarrow> int" where
  "seconds_wrapped n = sint (word_of_int (n * 1000000000) :: 64 word)"

definition readiness_ratio :: "env \<Rightarrow> f64" where
  "readiness_ratio env =
     (let v = env ''READINESS_MAX_DEPTH_RATIO''
      in if v = [] then DefaultReadinessMaxDepthRatio
         else case parse_float v of
           None \<Rightarrow> DefaultReadinessMaxDepthRatio
         | Some f \<Rightarrow> if flt (Fin 0) f \<and> fle f (Fin 1) then f else DefaultReadinessMaxDepthRatio)"

definition readiness_staleness :: "env \<Rightarrow> int" where
  "readiness_staleness env =
     (case positive_env env ''READINESS_MAX_STALENESS_SECONDS'' of
        Some n \<Rightarrow> seconds_wrapped n
      | None \<Rightarrow> DefaultReadinessMaxStaleness)"

definition configure_readiness :: "env \<Rightarrow> 's readiness \<Rightarrow> 's readiness" where
  "configure_readiness env r0 =
     (let r = SetReadinessThresholds (readiness_ratio env) (readiness_staleness env) r0;
          r = (case positive_env env ''READINESS_MAX_AUDIT_FAILURES'' of
                 Some n \<Rightarrow> SetReadinessMaxAuditFailures n r | None \<Rightarrow> r)
      in case positive_env env ''READINESS_MAX_SPOOL_FSYNC_FAILURES'' of
           Some n \<Rightarrow> SetReadinessMaxSpoolFsyncFailures n r | None \<Rightarrow> r)"

section \<open>Wiring\<close>

text \<open>What the configuration means to an attempt of the vendor adapter.\<close>

definition hub_env_of :: "GatewayConfig \<Rightarrow> env \<Rightarrow> hub_env" where
  "hub_env_of cfg env =
     \<lparr>cfg_url = HubEndpointURL (Hub cfg), cfg_key = APIKey (Hub cfg), env_api_key = env ''API_KEY'',
      env_hmac_secret = env ''HMAC_SECRET''\<rparr>"

text \<open>The two destinations: the vendor platform behind the HTTP client, and the local sink with its clock.\<close>

record 'h destinations =
  hub :: "'h retry_state"
  sink :: day_log
  sink_clock :: "instant list"

definition sink_forward :: "env \<Rightarrow> bytes \<Rightarrow> 'h destinations \<Rightarrow> gores \<times> 'h destinations" where
  "sink_forward env payload d =
     (case Forward (sink_dir env) (case sink_clock d of [] \<Rightarrow> 0 | t # _ \<Rightarrow> t) payload (sink d) of
        (r, s) \<Rightarrow> (r, d\<lparr>sink := s, sink_clock := tl (sink_clock d)\<rparr>))"

definition deliver ::
  "GatewayConfig \<Rightarrow> env \<Rightarrow> (bytes \<Rightarrow> gores) \<Rightarrow> (http_request \<Rightarrow> 'h \<Rightarrow> (goerr + http_response) \<times> 'h)
    \<Rightarrow> bytes \<Rightarrow> 'h destinations \<Rightarrow> gores \<times> 'h destinations" where
  "deliver cfg env new_request send payload d =
     (if IsStandalone cfg then sink_forward env payload d
      else case ForwardPayload (hub_env_of cfg env) new_request send payload (remote (hub d)) of
             (r, h) \<Rightarrow> (r, d\<lparr>hub := (hub d)\<lparr>remote := h\<rparr>\<rparr>))"

definition syncDeliverBytes ::
  "GatewayConfig \<Rightarrow> env \<Rightarrow> (int \<Rightarrow> gores) \<Rightarrow> (bytes \<Rightarrow> gores) \<Rightarrow> (http_request \<Rightarrow> 'h \<Rightarrow> (goerr + http_response) \<times> 'h)
    \<Rightarrow> bytes \<Rightarrow> 'h destinations \<Rightarrow> gores \<times> 'h destinations" where
  "syncDeliverBytes cfg env cancelled new_request send payload d =
     (if IsStandalone cfg then sink_forward env payload d
      else case ForwardPayloadWithRetry cancelled (hub_env_of cfg env) new_request send payload 2 (hub d) of
             (r, h) \<Rightarrow> (r, d\<lparr>hub := h\<rparr>))"

text \<open>With an audit log configured both are wrapped; without one they act on the destination alone.\<close>

definition unaudited :: "(bytes \<Rightarrow> 'd \<Rightarrow> gores \<times> 'd) \<Rightarrow> bytes \<Rightarrow> 'd audit_state \<Rightarrow> gores \<times> 'd audit_state" where
  "unaudited f payload w = (case f payload (destination w) of (r, d) \<Rightarrow> (r, w\<lparr>destination := d\<rparr>))"

definition spool_deliver ::
  "GatewayConfig \<Rightarrow> env \<Rightarrow> (bytes \<Rightarrow> 'd \<Rightarrow> gores \<times> 'd) \<Rightarrow> bytes \<Rightarrow> 'd audit_state \<Rightarrow> gores \<times> 'd audit_state" where
  "spool_deliver cfg env f =
     (case audit_config env of
        Some c \<Rightarrow> auditingForward c (destination_name cfg env) f
      | None \<Rightarrow> unaudited f)"

definition sync_deliver ::
  "GatewayConfig \<Rightarrow> env \<Rightarrow> (bytes \<Rightarrow> 'd \<Rightarrow> gores \<times> 'd) \<Rightarrow> bytes \<Rightarrow> 'd audit_state \<Rightarrow> gores \<times> 'd audit_state" where
  "sync_deliver cfg env f =
     (case audit_config env of
        Some c \<Rightarrow> auditingSyncForward c (destination_name cfg env) f
      | None \<Rightarrow> unaudited f)"

text \<open>The part of the \<^verbatim>\<open>OnDead\<close> hook on the guard.\<close>

definition guard_on_dead :: "env \<Rightarrow> 'd audit_state \<Rightarrow> 'd audit_state" where
  "guard_on_dead env w = (case audit_config env of Some _ \<Rightarrow> clear_guard w | None \<Rightarrow> w)"

definition spool_status :: "spool_cfg \<Rightarrow> instant \<Rightarrow> Spool \<Rightarrow> SpoolStatus" where
  "spool_status c now s =
     (case OldestPendingAge s now of (age, pending) \<Rightarrow>
        \<lparr>status_depth = Depth s, status_max_depth = MaxDepth c, OldestAge = age, HasPending = pending,
         ConsecutiveDirFsyncFailures = DirFsyncFailures s\<rparr>)"

text \<open>The readiness check reads the spool and the audit health.\<close>

definition wired_readiness :: "env \<Rightarrow> instant \<Rightarrow> (Spool \<times> 'd audit_state) readiness" where
  "wired_readiness env now =
     (let r = configure_readiness env initial_readiness;
          r = (case audit_config env of None \<Rightarrow> r | Some _ \<Rightarrow> SetReadinessAuditStatus (Some (\<lambda>st. health_status (snd st))) r)
      in case spool_config env of
           None \<Rightarrow> r
         | Some c \<Rightarrow> SetReadinessSpoolStatus (Some (\<lambda>st. spool_status c now (fst st))) r)"

section \<open>Starting\<close>

record disks =
  sink_disk :: fs
  audit_disk :: fs
  spool_disk :: fs

record gateway =
  running_config :: GatewayConfig
  pepper :: bytes
  opened_sink :: "day_log option"
  opened_audit :: "day_log option"
  opened_spool :: "Spool option"
  started_metrics :: metrics

definition open_sink :: "GatewayConfig \<Rightarrow> disks \<Rightarrow> goerr + day_log option" where
  "open_sink cfg ds =
     (if IsStandalone cfg
      then (case newLocalSink (sink_disk ds) of (Inl e, _) \<Rightarrow> Inl e | (Inr s, _) \<Rightarrow> Inr (Some s))
      else Inr None)"

definition open_audit :: "(bytes \<Rightarrow> bytes) \<Rightarrow> env \<Rightarrow> bytes \<Rightarrow> disks \<Rightarrow> goerr + day_log option" where
  "open_audit quote env probe ds =
     (case audit_config env of
        None \<Rightarrow> Inr None
      | Some c \<Rightarrow>
          (case NewLogger c (quote (audit_dir c)) probe (audit_disk ds) of
             (Inl e, _) \<Rightarrow> Inl e | (Inr l, _) \<Rightarrow> Inr (Some l)))"

definition open_spool :: "env \<Rightarrow> instant \<Rightarrow> disks \<Rightarrow> goerr + Spool option" where
  "open_spool env now ds =
     (case spool_config env of
        None \<Rightarrow> Inr None
      | Some c \<Rightarrow> (case New c now (spool_disk ds) of (Inl e, _) \<Rightarrow> Inl e | (Inr s, _) \<Rightarrow> Inr (Some s)))"

text \<open>The metrics after the hooks of \<^verbatim>\<open>spool.New\<close> and the gauge of its limit.\<close>

definition metrics_at_start :: "env \<Rightarrow> instant \<Rightarrow> Spool option \<Rightarrow> metrics" where
  "metrics_at_start env now sp =
     (case sp of
        None \<Rightarrow> no_metrics
      | Some s \<Rightarrow> SetGauge ''spool_max_depth'' (spool_max_depth env) (run_hooks (map (Pair now) (events s)) no_metrics))"

text \<open>The messages of an exit with code 1, or the running gateway.\<close>

definition start ::
  "(bytes \<Rightarrow> bytes) \<Rightarrow> (bytes \<Rightarrow> bytes option) \<Rightarrow> env \<Rightarrow> bytes \<Rightarrow> instant \<Rightarrow> disks \<Rightarrow> bytes list + gateway" where
  "start quote read_file env probe now ds =
     (let cfg = fst (Load read_file env None); problems = validateStartup quote env cfg
      in if problems \<noteq> [] then Inl problems
         else case open_sink cfg ds of
           Inl e \<Rightarrow> Inl [''Failed to open standalone sink'']
         | Inr sk \<Rightarrow>
             (case open_audit quote env probe ds of
                Inl e \<Rightarrow> Inl [''Failed to open egress audit log'']
              | Inr l \<Rightarrow>
                  (case open_spool env now ds of
                     Inl e \<Rightarrow> Inl [''Failed to open spool'']
                   | Inr s \<Rightarrow> Inr \<lparr>running_config = cfg, pepper = resolvePepper env, opened_sink = sk,
                                   opened_audit = l, opened_spool = s, started_metrics = metrics_at_start env now s\<rparr>)))"

text \<open>Shutting down, after the forwarder has stopped: sink and audit log are closed, errors only warned of.\<close>

definition stop :: "gateway \<Rightarrow> gateway" where
  "stop g = g\<lparr>opened_sink := map_option (\<lambda>s. snd (CloseSink s)) (opened_sink g),
              opened_audit := map_option (\<lambda>l. snd (CloseLogger l)) (opened_audit g)\<rparr>"

text \<open>The self-probe: \<open>get\<close> is the HTTP client, the result the exit code.\<close>

definition healthcheck :: "env \<Rightarrow> (bytes \<Rightarrow> goerr + int) \<Rightarrow> int" where
  "healthcheck env get =
     (let scheme = (if uses_tls env then ''https'' else ''http'')
      in case get (scheme @ ''://localhost:'' @ gateway_port env @ ''/health'') of
           Inl e \<Rightarrow> 1
         | Inr statusCode \<Rightarrow> if statusCode \<noteq> 200 then 1 else 0)"

section \<open>Laws\<close>

lemma problem_Nil [simp]: "problem cond msg = [] \<longleftrightarrow> \<not> cond"
  by (simp add: problem_def)

lemma names_differ [simp]:
  "MosaicKeyingBank \<noteq> MosaicKeyingRegional" "MosaicKeyingRegional \<noteq> MosaicKeyingBank"
  "ModeMiddleware \<noteq> ModeStandalone" "ModeStandalone \<noteq> ModeMiddleware"
  by (simp_all add: MosaicKeyingBank_def MosaicKeyingRegional_def ModeMiddleware_def ModeStandalone_def)

text \<open>What the gateway needs before it starts.\<close>

definition complete :: "env \<Rightarrow> GatewayConfig \<Rightarrow> bool" where
  "complete env cfg \<longleftrightarrow> HubInstitutionID (Hub cfg) \<noteq> [] \<and> BankSalt (Local cfg) \<noteq> []
     \<and> (Mode cfg = ModeStandalone
        \<or> Mode cfg = ModeMiddleware \<and> APIKey (Hub cfg) \<noteq> [] \<and> HubEndpointURL (Hub cfg) \<noteq> [] \<and> env ''HMAC_SECRET'' \<noteq> [])
     \<and> (MosaicKeying cfg = MosaicKeyingBank \<or> MosaicKeying cfg = MosaicKeyingRegional \<and> pepperEnv env \<noteq> [])"

lemma validateStartup_complete: "validateStartup quote env cfg = [] \<longleftrightarrow> complete env cfg"
  by (auto simp: validateStartup_def mode_problems_def keying_problems_def complete_def)

lemma start_facts:
  assumes "start quote read_file env probe now ds = Inr g"
  shows "running_config g = read_config read_file env" "complete env (running_config g)" "pepper g = pepperEnv env"
    "open_sink (running_config g) ds = Inr (opened_sink g)" "open_audit quote env probe ds = Inr (opened_audit g)"
    "open_spool env now ds = Inr (opened_spool g)"
  unfolding validateStartup_complete [of quote, symmetric]
  using assms by (auto simp: start_def Let_def Load_def resolvePepper_def split: if_splits sum.splits)

lemma permanent_cause:
  assumes "ForwardPayload v new_request send payload h = (Some e, h')" "IsPermanent e" "configured v" "foreign_errors send"
  shows "new_request (cfg_url v) \<noteq> None \<or> (\<exists>a. fst (send (signed_request v payload) h) = Inr a
    \<and> 400 \<le> StatusCode a \<and> StatusCode a < 500 \<and> StatusCode a \<noteq> 429)"
proof (cases "new_request (cfg_url v)")
  case None
  obtain x h1 where x: "send (signed_request v payload) h = (x, h1)" by fastforce
  show ?thesis
  proof (cases x)
    case (Inl y)
    then have "e = Wrapf ''failed to send request'' y"
      using assms(1,3) None x by (simp add: ForwardPayload_def configured_def)
    moreover have "\<not> IsPermanent y" using assms(4) x Inl by (auto simp: foreign_errors_def)
    ultimately show ?thesis using assms(2) by simp
  next
    case (Inr a)
    then have "classify_response a = Some e"
      using assms(1,3) None x by (simp add: ForwardPayload_def configured_def)
    then show ?thesis using classify_response_simps(2) [of a e] assms(2) x Inr by auto
  qed
qed simp

lemma complete_configured:
  "complete env cfg \<Longrightarrow> \<not> IsStandalone cfg \<Longrightarrow> configured (hub_env_of cfg env)"
  by (auto simp: complete_def IsStandalone_def configured_def hub_env_of_def api_key_def)

lemma audited_wiring:
  "audit_config env = Some c \<Longrightarrow> guard_on_dead env = clear_guard"
  "audit_config env = Some c \<Longrightarrow> spool_deliver cfg env f = auditingForward c (destination_name cfg env) f"
  by (simp_all add: guard_on_dead_def spool_deliver_def fun_eq_iff)

text \<open>The failure count after a number of synchronous deliveries, and the outcomes of their audit writes.\<close>

fun run_sync ::
  "logger_cfg \<Rightarrow> bytes \<Rightarrow> (bytes \<Rightarrow> 'd \<Rightarrow> gores \<times> 'd) \<Rightarrow> bytes list \<Rightarrow> 'd audit_state \<Rightarrow> bool list \<times> 'd audit_state" where
  "run_sync c dst f [] w = ([], w)"
| "run_sync c dst f (p # ps) w =
     (case auditingSyncForward c dst f p w of (r, w1) \<Rightarrow>
      case run_sync c dst f ps w1 of (os, w2) \<Rightarrow>
        (if fst (f p (destination w)) = None then (r = None) # os else os, w2))"

lemma write_audit_failures: "write_audit c dst p w = (r, w') \<Longrightarrow> failures w' = failures w"
  by (auto simp: write_audit_def split: prod.splits)

lemma auditingSyncForward_failures:
  assumes "auditingSyncForward c dst f p w = (r, w')"
  shows "failures w' = (if fst (f p (destination w)) = None then (if r = None then 0 else failures w + 1) else failures w)"
proof (cases "f p (destination w)")
  case (Pair q d)
  obtain r1 w1 where 1: "write_audit c dst p (w\<lparr>destination := d\<rparr>) = (r1, w1)" by fastforce
  have "failures w1 = failures w" using write_audit_failures [OF 1] by simp
  with assms show ?thesis
    by (cases q; cases r1)
      (force simp: auditingSyncForward_def Pair 1 recordSuccess_def recordFailure_def count_audit_failure_def)+
qed

lemma run_sync_failures:
  "run_sync c dst f ps w = (os, w') \<Longrightarrow>
    failures w' = (if True \<in> set os then 0 else failures w) + int (trailing_failures os)"
proof -
  let ?step = "\<lambda>w ok. if ok then recordSuccess w else snd (recordFailure w)"
  have congr: "failures (foldl ?step v os) = failures (foldl ?step v' os)" if "failures v = failures v'"
    for v v' :: "'a audit_state" and os using that by (simp only: audit_failures.count_history)
  have "run_sync c dst f ps w = (os, w') \<Longrightarrow> failures w' = failures (foldl ?step w os)" for os
  proof (induction ps arbitrary: w os)
    case (Cons p ps)
    obtain r w1 where 1: "auditingSyncForward c dst f p w = (r, w1)" by fastforce
    obtain os1 w2 where 2: "run_sync c dst f ps w1 = (os1, w2)" by fastforce
    have w': "w' = w2" and os: "os = (if fst (f p (destination w)) = None then (r = None) # os1 else os1)"
      using Cons.prems by (simp_all add: 1 2)
    have IH: "failures w' = failures (foldl ?step w1 os1)" using Cons.IH [of w1 os1] 2 w' by simp
    show ?case
    proof (cases "fst (f p (destination w)) = None")
      case True
      then have "failures w1 = failures (?step w (r = None))"
        using auditingSyncForward_failures [OF 1] by (simp add: recordSuccess_def recordFailure_def)
      from congr [OF this, of os1] IH True show ?thesis by (simp add: os)
    next
      case False
      then obtain e where e: "fst (f p (destination w)) = Some e" by blast
      then have "failures w1 = failures w" using auditingSyncForward_failures [OF 1] by simp
      from congr [OF this, of os1] IH e show ?thesis by (simp add: os)
    qed
  qed simp
  then show "run_sync c dst f ps w = (os, w') \<Longrightarrow> ?thesis"
    using audit_failures.count_history [of w os] by simp
qed

text \<open>The number of failures the readiness check tolerates.\<close>

definition audit_limit :: "env \<Rightarrow> int" where
  "audit_limit env = (case positive_env env ''READINESS_MAX_AUDIT_FAILURES'' of Some n \<Rightarrow> n | None \<Rightarrow> 3)"

lemma positive_env_pos: "positive_env env k = Some n \<Longrightarrow> 0 < n"
  by (auto simp: positive_env_def split: if_splits option.splits)

lemma configured_limit: "readinessMaxAuditFailures (configure_readiness env initial_readiness) = audit_limit env"
proof -
  have t: "readinessMaxAuditFailures (SetReadinessThresholds a b r) = readinessMaxAuditFailures r" for a b and r :: "'a readiness"
    by (simp add: SetReadinessThresholds_def Let_def)
  have f: "readinessMaxAuditFailures (SetReadinessMaxSpoolFsyncFailures n r) = readinessMaxAuditFailures r" for n and r :: "'a readiness"
    by (simp add: SetReadinessMaxSpoolFsyncFailures_def)
  have "readinessMaxAuditFailures (SetReadinessMaxAuditFailures n r) = (if 0 < n then n else readinessMaxAuditFailures r)" for n and r :: "'a readiness"
    by (simp add: SetReadinessMaxAuditFailures_def)
  then show ?thesis
    by (simp add: configure_readiness_def Let_def t f audit_limit_def initial_readiness_def
        DefaultReadinessMaxAuditFailures_def positive_env_pos split: option.split)
qed

lemma seconds_wrapped_mod: "seconds_wrapped n = (n * 1000000000 + 2 ^ 63) mod 2 ^ 64 - 2 ^ 63"
  unfolding seconds_wrapped_def int_word_sint by simp

lemma seconds_exact: "0 < n \<Longrightarrow> n \<le> 9223372036 \<Longrightarrow> seconds_wrapped n = n * 1000000000"
  by (simp add: seconds_wrapped_mod mod_pos_pos_trivial)

lemma configured_spool: "readinessSpoolStatus (configure_readiness env initial_readiness) = None"
  by (simp add: configure_readiness_def Let_def SetReadinessThresholds_def SetReadinessMaxAuditFailures_def
      SetReadinessMaxSpoolFsyncFailures_def initial_readiness_def split: option.split)

lemma configured_staleness:
  "readinessMaxStaleness (configure_readiness env initial_readiness) =
    (if 0 < readiness_staleness env then readiness_staleness env else DefaultReadinessMaxStaleness)"
  by (simp add: configure_readiness_def Let_def SetReadinessThresholds_def SetReadinessMaxAuditFailures_def
      SetReadinessMaxSpoolFsyncFailures_def initial_readiness_def split: option.split)

section \<open>Properties\<close>

text \<open>
  C20. A gateway that has started is complete: it has an institution, a salt, a known mode and keying,
  a pepper when the keying is regional, and in middleware mode everything an attempt needs, so
  that no signal is ever dead-lettered for a missing setting: the adapter gives a permanent error
  only for a URL the HTTP library rejects or a 4xx answer other than 429. Its spool has replayed what was
  pending on disk and counts it.
\<close>

theorem started_gateway_is_complete:
  assumes "start quote read_file env probe now ds = Inr g" "wf_fs (spool_disk ds)" "foreign_errors send"
  shows "complete env (running_config g)
    \<and> (MosaicKeying (running_config g) = MosaicKeyingRegional \<longrightarrow> pepper g \<noteq> [])
    \<and> (\<forall>payload d e. \<not> IsStandalone (running_config g) \<longrightarrow> fst (deliver (running_config g) env new_request send payload d) = Some e
        \<longrightarrow> IsPermanent e \<longrightarrow> new_request (HubEndpointURL (Hub (running_config g))) \<noteq> None
          \<or> (\<exists>q a. fst (send q (remote (hub d))) = Inr a \<and> 400 \<le> StatusCode a \<and> StatusCode a < 500 \<and> StatusCode a \<noteq> 429))
    \<and> (\<forall>c s. spool_config env = Some c \<longrightarrow> opened_spool g = Some s \<longrightarrow>
          queue_of c (disk s) = queue_of c (spool_disk ds) \<and> depth s = int (card (dom (queue_of c (disk s)))))"
proof (intro conjI allI impI)
  note f = start_facts [OF assms(1)]
  show "complete env (running_config g)" by (fact f(2))
  show "pepper g \<noteq> []" if "MosaicKeying (running_config g) = MosaicKeyingRegional"
    using f(2,3) that by (auto simp: complete_def)
  show "new_request (HubEndpointURL (Hub (running_config g))) \<noteq> None
      \<or> (\<exists>q a. fst (send q (remote (hub d))) = Inr a \<and> 400 \<le> StatusCode a \<and> StatusCode a < 500 \<and> StatusCode a \<noteq> 429)"
    if h: "\<not> IsStandalone (running_config g)" "fst (deliver (running_config g) env new_request send payload d) = Some e" "IsPermanent e"
    for payload d e
  proof -
    let ?v = "hub_env_of (running_config g) env"
    have c: "configured ?v" using complete_configured f(2) h(1) by blast
    obtain h where "ForwardPayload ?v new_request send payload (remote (hub d)) = (Some e, h)"
      using h(1,2) by (auto simp: deliver_def split: prod.splits)
    from permanent_cause [OF this h(3) c assms(3)] show ?thesis by (auto simp: hub_env_of_def)
  qed
  show "queue_of c (disk s) = queue_of c (spool_disk ds)" "depth s = int (card (dom (queue_of c (disk s))))"
    if h: "spool_config env = Some c" "opened_spool g = Some s" for c s
  proof -
    obtain d where "New c now (spool_disk ds) = (Inr s, d)"
      using f(6) h by (auto simp: open_spool_def split: sum.splits prod.splits)
    from New_facts [OF this assms(2)]
    show "queue_of c (disk s) = queue_of c (spool_disk ds)" "depth s = int (card (dom (queue_of c (disk s))))" by simp_all
  qed
qed

text \<open>
  C22. Without a spool the readiness check reports a stuck audit log by itself: over any sequence of
  synchronous deliveries it answers 503 exactly when the deliveries since the last recorded one that
  were confirmed but not recorded have reached the limit (three, unless configured otherwise).
\<close>

theorem readyz_counts_unrecorded_deliveries:
  assumes "audit_config env = Some c" "spool_config env = None" "failures w = 0"
  shows "fst (ReadinessCheckHandler now (wired_readiness env now) (s, snd (run_sync c dst f ps w)))
    = (if audit_limit env \<le> int (trailing_failures (fst (run_sync c dst f ps w))) then 503 else 200)"
proof -
  obtain os w' where r: "run_sync c dst f ps w = (os, w')" by fastforce
  have "failures w' = int (trailing_failures os)" using run_sync_failures [OF r] assms(3) by simp
  then show ?thesis
    by (simp add: r configured_limit configured_spool readiness_result degraded_def wired_readiness_def assms(1,2) Let_def SetReadinessAuditStatus_def)
qed

text \<open>
  \<^verbatim>\<open>READINESS_MAX_STALENESS_SECONDS\<close> means what it says up to 9223372036; beyond, the product
  with a second overflows. Then a value can mean a limit of a fraction of a second, with which a
  healthy gateway is reported stale.
\<close>

theorem staleness_setting_overflows:
  "(\<forall>n. positive_env env ''READINESS_MAX_STALENESS_SECONDS'' = Some n \<longrightarrow> n \<le> 9223372036 \<longrightarrow>
      readinessMaxStaleness (configure_readiness env initial_readiness) = n * 1000000000)
   \<and> (env ''READINESS_MAX_STALENESS_SECONDS'' = ''18446744074'' \<longrightarrow>
      readinessMaxStaleness (configure_readiness env initial_readiness) = 290448384)"
proof (intro conjI allI impI)
  fix n assume n: "positive_env env ''READINESS_MAX_STALENESS_SECONDS'' = Some n" "n \<le> 9223372036"
  have "0 < n" using positive_env_pos [OF n(1)] .
  then have "seconds_wrapped n = n * 1000000000"
    using n(2) by (intro seconds_exact) simp_all
  with n(1) \<open>0 < n\<close> show "readinessMaxStaleness (configure_readiness env initial_readiness) = n * 1000000000"
    by (simp add: configured_staleness readiness_staleness_def)
next
  assume e: "env ''READINESS_MAX_STALENESS_SECONDS'' = ''18446744074''"
  have "parse_int64 ''18446744074'' = Some 18446744074"
    by (simp add: parse_int64_def parse_digits64_def digits_val_def digit_val_def is_digit_def)
  moreover have "seconds_wrapped 18446744074 = 290448384" by (simp add: seconds_wrapped_mod)
  ultimately show "readinessMaxStaleness (configure_readiness env initial_readiness) = 290448384"
    by (simp add: configured_staleness readiness_staleness_def positive_env_def e)
qed

definition env1 :: env where
  "env1 k = (if k = ''SPOOL_DIR'' then ''/spool'' else if k = ''EGRESS_AUDIT_DIR'' then ''/audit''
     else if k \<in> set [''INSTITUTION_ID'', ''API_KEY'', ''HUB_API_URL'', ''HMAC_SECRET'', ''BANK_SALT''] then ''x'' else [])"

definition disks1 :: disks where
  "disks1 = \<lparr>sink_disk = empty_fs [], audit_disk = empty_fs [], spool_disk = empty_fs []\<rparr>"

lemma start_env1: "\<not> isl (start id (\<lambda>_. None) env1 ''.probe'' 5 disks1)"
  by code_simp

theorem started_gateway_is_complete_witness:
  "\<exists>g. start id (\<lambda>_. None) env1 ''.probe'' 5 disks1 = Inr g \<and> complete env1 (running_config g)"
proof -
  obtain g where g: "start id (\<lambda>_. None) env1 ''.probe'' 5 disks1 = Inr g"
    using start_env1 by (cases "start id (\<lambda>_. None) env1 ''.probe'' 5 disks1") auto
  have "foreign_errors (\<lambda>q h. (Inr \<lparr>StatusCode = 200, resp_body = []\<rparr>, h :: nat))" by (simp add: foreign_errors_def)
  from started_gateway_is_complete [OF g _ this] g show ?thesis by (simp add: disks1_def)
qed

definition env2 :: env where
  "env2 k = (if k = ''EGRESS_AUDIT_DIR'' then ''/audit'' else [])"

theorem readyz_counts_unrecorded_deliveries_witness:
  "fst (ReadinessCheckHandler 0 (wired_readiness env2 0)
      (spool1, snd (run_sync \<lparr>audit_dir = ''/audit'', storePayload = False\<rparr> ''dst'' (\<lambda>b h. (Some ErrFull, h)) [''{}''] (audit_start ())))) = 200"
  using readyz_counts_unrecorded_deliveries [of env2 "\<lparr>audit_dir = ''/audit'', storePayload = False\<rparr>" "audit_start ()"
      0 spool1 "''dst''" "\<lambda>b h. (Some ErrFull, h)" "[''{}'']"]
  by (simp add: env2_def audit_config_def spool_config_def audit_start_def audit_limit_def positive_env_def
      trailing_failures_def auditingSyncForward_def)

theorem staleness_setting_overflows_witness:
  "readinessMaxStaleness (configure_readiness (\<lambda>k. if k = ''READINESS_MAX_STALENESS_SECONDS'' then ''18446744074'' else [])
     initial_readiness) = 290448384"
  by (rule conjunct2 [OF staleness_setting_overflows, THEN mp]) simp

end
