(* ===== verification/Middleware.thy ===== *)
theory Middleware
  imports GoStrings
begin

text \<open>
  internal/middleware/middleware.go: the API key check, the body limit and the request log, as
  functions from handlers to handlers. A handler takes a request and the state \<open>'s\<close> of the server
  to a response and the new state; no response means that it panicked, which
  \<^verbatim>\<open>net/http\<close> turns into a closed connection. \<open>Header\<close> is
  \<^verbatim>\<open>r.Header.Get\<close>, empty for an absent header.
\<close>

record request =
  Method :: bytes
  URLPath :: bytes
  Header :: "string \<Rightarrow> bytes"
  Body :: bytes

record response =
  code :: int
  content :: bytes

type_synonym 's handler = "request \<Rightarrow> 's \<Rightarrow> response option \<times> 's"

text \<open>\<^verbatim>\<open>http.Error\<close> ends the text with a newline.\<close>

definition http_error :: "bytes \<Rightarrow> int \<Rightarrow> response" where
  "http_error msg c = \<lparr>code = c, content = msg @ [CHR 0x0A]\<rparr>"

definition presented_key :: "request \<Rightarrow> bytes" where
  "presented_key r =
     (let presented = trim_prefix (Header r ''Authorization'') ''Bearer ''
      in if presented = [] \<or> presented = Header r ''Authorization'' then Header r ''X-Gateway-API-Key'' else presented)"

definition RequireAPIKey :: "'s handler \<Rightarrow> bytes \<Rightarrow> 's handler" where
  "RequireAPIKey next_handler key r s =
     (if key = [] then next_handler r s
      else if presented_key r \<noteq> key then (Some (http_error ''Unauthorized'' 401), s)
      else next_handler r s)"

text \<open>
  Of a body beyond the limit only the bytes up to it can be read. The read error behind them is
  nothing but an incomplete JSON text to the decoder.
\<close>

definition MaxBodySize :: "'s handler \<Rightarrow> nat \<Rightarrow> 's handler" where
  "MaxBodySize next_handler maxBytes r s = next_handler (r\<lparr>Body := take maxBytes (Body r)\<rparr>) s"

text \<open>
  The writer that remembers the status: 200 unless the handler sets one. A line of the log is the
  method, the path and the status; nothing is logged when the handler panics.
\<close>

record statusWriter =
  status :: int
  sent :: "int list"

definition WriteHeader :: "int \<Rightarrow> statusWriter \<Rightarrow> statusWriter" where
  "WriteHeader c w = w\<lparr>status := c, sent := sent w @ [c]\<rparr>"

type_synonym log_line = "bytes \<times> bytes \<times> int"

definition RequestLogger :: "'s handler \<Rightarrow> ('s \<times> log_line list) handler" where
  "RequestLogger next_handler r st =
     (case next_handler r (fst st) of
        (None, s) \<Rightarrow> (None, (s, snd st))
      | (Some resp, s) \<Rightarrow>
          (let sw = WriteHeader (code resp) \<lparr>status = 200, sent = []\<rparr>
           in (Some resp, (s, snd st @ [(Method r, URLPath r, status sw)]))))"

section \<open>Laws\<close>

text \<open>A token behind \<^verbatim>\<open>Bearer\<close> hides the second header, even a wrong one.\<close>

lemma presented_key_iff:
  assumes "key \<noteq> []"
  shows "presented_key r = key \<longleftrightarrow>
    Header r ''Authorization'' = ''Bearer '' @ key
    \<or> ((\<forall>t. t \<noteq> [] \<longrightarrow> Header r ''Authorization'' \<noteq> ''Bearer '' @ t) \<and> Header r ''X-Gateway-API-Key'' = key)"
proof (cases "has_prefix (Header r ''Authorization'') ''Bearer ''")
  case True
  then obtain t where t: "Header r ''Authorization'' = ''Bearer '' @ t"
    unfolding has_prefix_def by (metis append_take_drop_id)
  then have "has_prefix (''Bearer '' @ t) ''Bearer ''" by (simp add: has_prefix_def)
  with t assms show ?thesis by (auto simp: presented_key_def trim_prefix_def Let_def)
next
  case False
  then have "Header r ''Authorization'' \<noteq> ''Bearer '' @ t" for t by (auto simp: has_prefix_def)
  with False show ?thesis by (simp add: presented_key_def trim_prefix_def Let_def)
qed

section \<open>Properties\<close>

text \<open>
  With a key configured, a request reaches the handler exactly when it carries that key, as a
  bearer token or, when it has no bearer token at all, in \<^verbatim>\<open>X-Gateway-API-Key\<close>; any other
  request is answered 401 and leaves the state alone.
\<close>

theorem RequireAPIKey_guards:
  assumes "key \<noteq> []"
  shows "RequireAPIKey h key r s =
    (if Header r ''Authorization'' = ''Bearer '' @ key
        \<or> ((\<forall>t. t \<noteq> [] \<longrightarrow> Header r ''Authorization'' \<noteq> ''Bearer '' @ t) \<and> Header r ''X-Gateway-API-Key'' = key)
     then h r s else (Some (http_error ''Unauthorized'' 401), s))"
  by (simp only: presented_key_iff [OF assms, symmetric]) (simp add: RequireAPIKey_def assms)

theorem RequireAPIKey_guards_witness:
  "RequireAPIKey (\<lambda>r s. (Some \<lparr>code = 200, content = []\<rparr>, Suc s)) ''k''
     \<lparr>Method = ''POST'', URLPath = ''/process'', Header = (\<lambda>n. if n = ''Authorization'' then ''Bearer k'' else []), Body = []\<rparr> 0
   = (Some \<lparr>code = 200, content = []\<rparr>, 1)"
  by (simp add: RequireAPIKey_guards)

end
