(* ===== verification/Transaction.thy ===== *)
theory Transaction
  imports Startup Middleware
begin

text \<open>
  \<^verbatim>\<open>processTransaction\<close> of cmd/gateway/main.go, and \<^verbatim>\<open>/process\<close> behind the API key check
  and the body limit. What a request reads besides its own data is in \<open>circumstances\<close>: the
  entropy of \<^verbatim>\<open>crypto/rand\<close>, the time and the duration in milliseconds. The texts of
  \<^verbatim>\<open>encoding/json\<close> errors in a 400 answer are not modelled.
\<close>

record circumstances =
  entropy :: "goerr + bytes"
  at_time :: instant
  elapsed_ms :: int

record 'd server =
  spool_queue :: "(spool_cfg \<times> Spool) option"
  store :: metrics
  outlet :: 'd

section \<open>From the request to the signal\<close>

definition fallback_id :: "RawData \<Rightarrow> goerr + bytes \<Rightarrow> goerr + bytes" where
  "fallback_id raw read = (if NeedsFallbackSignalID (TransactionRef raw) then newSignalIDFrom read else Inr [])"

definition anonymize :: "GatewayConfig \<Rightarrow> bytes \<Rightarrow> RawData \<Rightarrow> bytes \<Rightarrow> AnonymizedSignal" where
  "anonymize cfg pep raw fallbackSignalID =
     AnonymizeSignal raw (HubInstitutionID (Hub cfg)) (BankSalt (Local cfg)) pep (MosaicKeying cfg)
       (ReportingThreshold (Local cfg)) fallbackSignalID"

definition note_sentinel :: "AnonymizedSignal \<Rightarrow> metrics \<Rightarrow> metrics" where
  "note_sentinel a m =
     (if SignalID a = MissingSignalIDSentinel then RecordMetric ''signal_id_missing_fallback'' 1 m else m)"

definition prepare_signal ::
  "(bytes \<Rightarrow> bytes) \<Rightarrow> GatewayConfig \<Rightarrow> bytes \<Rightarrow> circumstances \<Rightarrow> request \<Rightarrow> metrics
    \<Rightarrow> (response + AnonymizedSignal) \<times> metrics" where
  "prepare_signal quote cfg pep x r m =
     (if Method r \<noteq> ''POST'' then (Inl (http_error ''Method not allowed'' 405), m)
      else case ProcessInboundRequest quote (Body r) of
        Inl e \<Rightarrow> (Inl (http_error (''Invalid request: '' @ error_text e) 400), m)
      | Inr raw \<Rightarrow>
          (case fallback_id raw (entropy x) of
             Inl e \<Rightarrow> (Inl (http_error ''Failed to generate signal_id'' 500), RecordMetric ''signal_id_generation_failures'' 1 m)
           | Inr fallbackSignalID \<Rightarrow>
               (let anonymized = anonymize cfg pep raw fallbackSignalID
                in (Inr anonymized, note_sentinel anonymized m))))"

text \<open>\<^verbatim>\<open>IdentityMosaic[:16]\<close>, which panics on a shorter text.\<close>

definition mosaic_prefix :: "AnonymizedSignal \<Rightarrow> bytes option" where
  "mosaic_prefix a = (if 16 \<le> length (IdentityMosaic a) then Some (take 16 (IdentityMosaic a)) else None)"

definition json_response :: "int \<Rightarrow> (bytes \<times> json) list \<Rightarrow> response" where
  "json_response c ms = \<lparr>code = c, content = encode (JObj ms) @ [CHR 0x0A]\<rparr>"

section \<open>Queueing\<close>

text \<open>An operation of the spool with the hooks it ran.\<close>

definition hooked :: "instant \<Rightarrow> Spool \<Rightarrow> Spool \<Rightarrow> metrics \<Rightarrow> metrics" where
  "hooked now s s' m = run_hooks (map (Pair now) (drop (length (events s)) (events s'))) m"

definition queue_signal ::
  "spool_cfg \<Rightarrow> circumstances \<Rightarrow> AnonymizedSignal \<Rightarrow> Spool \<Rightarrow> metrics \<Rightarrow> response option \<times> Spool \<times> metrics" where
  "queue_signal c x anonymized s m =
     (case Enqueue c (at_time x) (marshal_signal anonymized) s of
        (Some e, s1) \<Rightarrow>
          (Some (if errors_is_full e then http_error ''Signal queue full, retry later'' 503
                 else http_error ''Failed to queue signal'' 500),
           s1, RecordMetric ''spool_rejects'' 1 (hooked (at_time x) s s1 m))
      | (None, s1) \<Rightarrow>
          (map_option (\<lambda>prefix. json_response 202
             [(''identity_mosaic'', JStr (prefix @ ''...'')), (''mosaic_scope'', JStr (MosaicScope anonymized)),
              (''signal_id'', JStr (SignalID anonymized)), (''spool_depth'', JNum (show_int (depth s1))),
              (''status'', JStr ''queued'')]) (mosaic_prefix anonymized),
           s1, RecordMetric ''signals_processed'' 1 (hooked (at_time x) s s1 m)))"

section \<open>Delivering synchronously\<close>

text \<open>\<^verbatim>\<open>syncForward\<close>: marshal once, then hand over the bytes.\<close>

definition syncForward :: "(bytes \<Rightarrow> 'd \<Rightarrow> gores \<times> 'd) \<Rightarrow> AnonymizedSignal \<Rightarrow> 'd \<Rightarrow> gores \<times> 'd" where
  "syncForward deliverBytes signal d = deliverBytes (marshal_signal signal) d"

definition deliver_signal ::
  "(AnonymizedSignal \<Rightarrow> 'd \<Rightarrow> gores \<times> 'd) \<Rightarrow> circumstances \<Rightarrow> AnonymizedSignal \<Rightarrow> 'd \<Rightarrow> metrics
    \<Rightarrow> response option \<times> 'd \<times> metrics" where
  "deliver_signal forward x anonymized d m =
     (case forward anonymized d of
        (Some e, d1) \<Rightarrow>
          (map_option (\<lambda>_. http_error (''Failed to deliver signal: '' @ error_text e) 502) (mosaic_prefix anonymized),
           d1, if mosaic_prefix anonymized = None then m else RecordMetric ''forward_failures'' 1 m)
      | (None, d1) \<Rightarrow>
          (map_option (\<lambda>prefix. json_response 200
             [(''identity_mosaic'', JStr (prefix @ ''...'')), (''mosaic_scope'', JStr (MosaicScope anonymized)),
              (''processing_time_ms'', JNum (show_int (elapsed_ms x))), (''signal_id'', JStr (SignalID anonymized)),
              (''status'', JStr ''processed'')]) (mosaic_prefix anonymized),
           d1, RecordMetric ''processing_time_ms_total'' (elapsed_ms x) (RecordMetric ''signals_processed'' 1 m)))"

definition processTransaction ::
  "(bytes \<Rightarrow> bytes) \<Rightarrow> GatewayConfig \<Rightarrow> bytes \<Rightarrow> (AnonymizedSignal \<Rightarrow> 'd \<Rightarrow> gores \<times> 'd) \<Rightarrow> circumstances \<Rightarrow> 'd server handler" where
  "processTransaction quote cfg pep forward x r st =
     (case prepare_signal quote cfg pep x r (store st) of
        (Inl resp, m) \<Rightarrow> (Some resp, st\<lparr>store := m\<rparr>)
      | (Inr anonymized, m) \<Rightarrow>
          (case spool_queue st of
             Some (c, s) \<Rightarrow>
               (case queue_signal c x anonymized s m of
                  (resp, s1, m1) \<Rightarrow> (resp, st\<lparr>spool_queue := Some (c, s1), store := m1\<rparr>))
           | None \<Rightarrow>
               (case deliver_signal forward x anonymized (outlet st) m of
                  (resp, d1, m1) \<Rightarrow> (resp, st\<lparr>outlet := d1, store := m1\<rparr>))))"

text \<open>The endpoint as \<^verbatim>\<open>main\<close> registers it; the request log is outside of it.\<close>

definition process_endpoint ::
  "(bytes \<Rightarrow> bytes) \<Rightarrow> GatewayConfig \<Rightarrow> bytes \<Rightarrow> bytes \<Rightarrow> (AnonymizedSignal \<Rightarrow> 'd \<Rightarrow> gores \<times> 'd) \<Rightarrow> circumstances \<Rightarrow> 'd server handler" where
  "process_endpoint quote cfg pep inboundKey forward x =
     MaxBodySize (RequireAPIKey (processTransaction quote cfg pep forward x) inboundKey) 1048576"

section \<open>Laws\<close>

lemma anonymize_fields:
  "SignalID (anonymize cfg pep raw fb) = signal_id raw (BankSalt (Local cfg)) fb"
  "IdentityMosaic (anonymize cfg pep raw fb) = fst (identity_mosaic raw (BankSalt (Local cfg)) pep (MosaicKeying cfg))"
  by (simp_all add: anonymize_def AnonymizeSignal_def split: prod.split)

lemma identity_mosaic_length: "length (fst (identity_mosaic raw salt pep keying)) = 64"
  by (simp add: identity_mosaic_def national_mosaic_def Let_def)

lemma prepared:
  assumes "prepare_signal quote cfg pep x r m = (Inr a, m')"
  obtains raw fb where "Method r = ''POST''" "ProcessInboundRequest quote (Body r) = Inr raw"
    "fallback_id raw (entropy x) = Inr fb" "a = anonymize cfg pep raw fb" "m' = note_sentinel a m"
  using assms by (auto simp: prepare_signal_def Let_def split: if_splits sum.splits)

lemma prepared_prefix: "prepare_signal quote cfg pep x r m = (Inr a, m') \<Longrightarrow> mosaic_prefix a = Some (take 16 (IdentityMosaic a))"
  by (erule prepared) (simp add: mosaic_prefix_def anonymize_fields identity_mosaic_length)

lemma refused_code:
  "prepare_signal quote cfg pep x r m = (Inl resp, m') \<Longrightarrow>
    code resp \<in> {400, 405} \<and> m' = m \<or> code resp = 500"
  by (auto simp: prepare_signal_def Let_def http_error_def split: if_splits sum.splits)

lemma queue_signal_result:
  assumes "mosaic_prefix a = Some p" "Enqueue c (at_time x) (marshal_signal a) s = (e, s1)"
  shows "\<exists>resp m1. queue_signal c x a s m = (Some resp, s1, m1)
    \<and> code resp = (case e of None \<Rightarrow> 202 | Some err \<Rightarrow> if errors_is_full err then 503 else 500)"
  using assms by (cases e) (simp_all add: queue_signal_def json_response_def http_error_def)

lemma deliver_signal_result:
  assumes "mosaic_prefix a = Some p" "forward a d = (e, d1)"
  shows "\<exists>resp m1. deliver_signal forward x a d m = (Some resp, d1, m1) \<and> code resp = (if e = None then 200 else 502)"
  using assms by (cases e) (simp_all add: deliver_signal_def json_response_def http_error_def)

text \<open>The branches of the handler on a request that yields a signal.\<close>

lemma queued_transaction:
  assumes "prepare_signal quote cfg pep x r (store st) = (Inr a, m)" "spool_queue st = Some (c, s)"
    and "Enqueue c (at_time x) (marshal_signal a) s = (e, s1)"
  shows "\<exists>resp m1. processTransaction quote cfg pep forward x r st = (Some resp, st\<lparr>spool_queue := Some (c, s1), store := m1\<rparr>)
    \<and> code resp = (case e of None \<Rightarrow> 202 | Some err \<Rightarrow> if errors_is_full err then 503 else 500)"
  using queue_signal_result [OF prepared_prefix [OF assms(1)] assms(3), of m] assms(1,2)
  by (auto simp: processTransaction_def)

lemma delivered_transaction:
  assumes "prepare_signal quote cfg pep x r (store st) = (Inr a, m)" "spool_queue st = None"
    and "forward a (outlet st) = (e, d1)"
  shows "\<exists>resp m1. processTransaction quote cfg pep forward x r st = (Some resp, st\<lparr>outlet := d1, store := m1\<rparr>)
    \<and> code resp = (if e = None then 200 else 502)"
  using deliver_signal_result [where forward = forward, OF prepared_prefix [OF assms(1)] assms(3), of x m] assms(1,2)
  by (auto simp: processTransaction_def)

lemma refused_transaction:
  assumes "prepare_signal quote cfg pep x r (store st) = (Inl resp, m)"
  shows "processTransaction quote cfg pep forward x r st = (Some resp, st\<lparr>store := m\<rparr>)"
  using assms by (simp add: processTransaction_def)

text \<open>A transaction either is refused, or queued, or delivered.\<close>

lemma transaction_cases:
  obtains (refused) resp m where "prepare_signal quote cfg pep x r (store st) = (Inl resp, m)"
  | (queued) a m c s e s1 where "prepare_signal quote cfg pep x r (store st) = (Inr a, m)" "spool_queue st = Some (c, s)"
      "Enqueue c (at_time x) (marshal_signal a) s = (e, s1)"
  | (delivered) a m e d1 where "prepare_signal quote cfg pep x r (store st) = (Inr a, m)" "spool_queue st = None"
      "forward a (outlet st) = (e, d1)"
proof -
  obtain q m where q: "prepare_signal quote cfg pep x r (store st) = (q, m)" by fastforce
  show thesis
  proof (cases q)
    case (Inl resp)
    then show ?thesis using q refused by simp
  next
    case (Inr a)
    show ?thesis
    proof (cases "spool_queue st")
      case None
      then show ?thesis using q Inr delivered by (metis surj_pair)
    next
      case (Some cs)
      then show ?thesis using q Inr queued by (metis surj_pair)
    qed
  qed
qed

lemma endpoint_cases:
  "process_endpoint quote cfg pep key forward x r st = (Some (http_error ''Unauthorized'' 401), st)
   \<or> process_endpoint quote cfg pep key forward x r st
       = processTransaction quote cfg pep forward x (r\<lparr>Body := take 1048576 (Body r)\<rparr>) st"
  by (simp add: process_endpoint_def MaxBodySize_def RequireAPIKey_def)

lemma endpoint_result:
  assumes "process_endpoint quote cfg pep key forward x r st = (Some resp, st')" "code resp \<noteq> 401"
  shows "processTransaction quote cfg pep forward x (r\<lparr>Body := take 1048576 (Body r)\<rparr>) st = (Some resp, st')"
  using endpoint_cases [of quote cfg pep key forward x r st] assms by (auto simp: http_error_def)

lemma uuid4_not_blank:
  assumes "uuid4_form s"
  shows "trim_space s = s" "length s = 36"
proof -
  show l: "length s = 36" using assms by (simp add: uuid4_form_def)
  have h: "\<forall>i \<in> {0..<36}. i \<in> {8, 13, 18, 23} \<or> is_hex (s ! i)"
    and dash: "s ! 8 = CHR ''-''" "s ! 13 = CHR ''-''" "s ! 18 = CHR ''-''" "s ! 23 = CHR ''-''"
    using assms by (simp_all add: uuid4_form_def list_all_iff)
  have "is_hex (s ! i) \<or> s ! i = CHR ''-''" if "i < 36" for i
  proof -
    have "i \<in> {0..<36}" using that by simp
    from bspec [OF h this] show ?thesis using dash by auto
  qed
  then have c: "is_hex c \<or> c = CHR ''-''" if "c \<in> set s" for c using that l by (metis in_set_conv_nth)
  have "\<not> is_space (byte_val c) \<and> byte_val c < 128" if "is_hex c \<or> c = CHR ''-''" for c
    using that by (auto simp: is_hex_def is_digit_def byte_val_def is_space_def in_ranges_def space_ranges_def)
  then show "trim_space s = s" using c by (intro trim_space_ascii_none) (auto simp: ascii_def list_all_iff)
qed

lemma fallback_not_sentinel:
  assumes "\<And>b. read = Inr b \<Longrightarrow> length b = 16" "fallback_id raw read = Inr fb"
  shows "signal_id raw salt fb \<noteq> MissingSignalIDSentinel"
proof (cases "NeedsFallbackSignalID (TransactionRef raw)")
  case True
  then have n: "newSignalIDFrom read = Inr fb" using assms(2) by (simp add: fallback_id_def)
  then obtain b where b: "read = Inr b" by (cases read) (simp_all add: newSignalIDFrom_def)
  have "uuid4_form fb" using newSignalIDFrom_form [OF assms(1) [OF b]] n b by auto
  note u = uuid4_not_blank [OF this]
  have "trim_space fb \<noteq> []" using u by auto
  moreover have "length MissingSignalIDSentinel \<noteq> 36" by (simp add: MissingSignalIDSentinel_def)
  ultimately show ?thesis using True u by (auto simp: signal_id_def)
next
  case False
  have "length MissingSignalIDSentinel \<noteq> 64" by (simp add: MissingSignalIDSentinel_def)
  then show ?thesis using False by (auto simp: signal_id_def dest!: arg_cong [where f = length])
qed

lemma processTransaction_codes:
  "\<exists>resp st'. processTransaction quote cfg pep forward x r st = (Some resp, st')
    \<and> code resp \<in> (if Method r \<noteq> ''POST'' then {405} else {400, 500} \<union> (if spool_queue st = None then {200, 502} else {202, 503}))"
proof (cases rule: transaction_cases [where quote = quote and cfg = cfg and pep = pep and x = x and r = r and st = st and forward = forward])
  case (refused resp m)
  then have "code resp \<in> (if Method r \<noteq> ''POST'' then {405} else {400, 500})"
    by (auto simp: prepare_signal_def Let_def http_error_def split: if_splits sum.splits)
  then show ?thesis using refused_transaction [OF refused] by auto
next
  case (queued a m c s e s1)
  have "Method r = ''POST''" using queued(1) by (rule prepared)
  then show ?thesis
    using queued_transaction [OF queued, of forward] queued(2) by (cases e) (auto split: if_splits)
next
  case (delivered a m e d1)
  have "Method r = ''POST''" using delivered(1) by (rule prepared)
  then show ?thesis
    using delivered_transaction [where forward = forward, OF delivered] delivered(2) by (auto split: if_splits)
qed

lemma auditingSyncForward_nil:
  assumes "auditingSyncForward c dst f p w = (None, w')" "logger_ok c w"
  shows "f p (destination w) = (None, destination w') \<and> audited_in c dst w' p"
proof -
  obtain q d where d: "f p (destination w) = (q, d)" by fastforce
  obtain r1 w1 where 1: "write_audit c dst p (w\<lparr>destination := d\<rparr>) = (r1, w1)" by fastforce
  have "q = None" using assms(1) by (cases q) (simp_all add: auditingSyncForward_def d)
  moreover have "r1 = None" "w' = recordSuccess w1"
    using assms(1) \<open>q = None\<close> by (cases r1; simp add: auditingSyncForward_def d 1)+
  moreover have "audited_in c dst w1 p" "destination w1 = d"
    using write_audit_outcome [OF 1] assms(2) \<open>r1 = None\<close> by simp_all
  ultimately show ?thesis by (simp add: d recordSuccess_def audited_in_def)
qed

lemma accepted_survives:
  assumes "process_endpoint quote cfg pep key forward x r st = (Some resp, st')" "code resp = 202"
    and "spool_queue st = Some (c, s)" "fsyncEnabled c" "wf_fs (disk s)" "0 \<le> depth s"
    and "spool_queue st' = Some (c, s')" "crash (disk s') d"
  shows "\<exists>raw fb. ProcessInboundRequest quote (take 1048576 (Body r)) = Inr raw
    \<and> queue_of c d (spool_name (at_time x) (seq s + 1)) = Some (marshal_signal (anonymize cfg pep raw fb))"
proof -
  let ?r = "r\<lparr>Body := take 1048576 (Body r)\<rparr>"
  have t: "processTransaction quote cfg pep forward x ?r st = (Some resp, st')"
    using endpoint_result [OF assms(1)] assms(2) by simp
  show ?thesis
  proof (cases rule: transaction_cases [where quote = quote and cfg = cfg and pep = pep and x = x and r = ?r and st = st and forward = forward])
    case (refused q m)
    then show ?thesis using refused_transaction [OF refused, of forward] t refused_code [OF refused] assms(2) by auto
  next
    case (delivered a m e d1)
    then show ?thesis using assms(3) by simp
  next
    case (queued a m c' s0 e s1)
    then have c: "c' = c" "s0 = s" using assms(3) by simp_all
    have "e = None" "s1 = s'" using queued_transaction [OF queued, of forward] t assms(2,7)
      by (auto simp: c split: option.splits if_splits)
    then have q: "Enqueue c (at_time x) (marshal_signal a) s = (None, s')" using queued(3) by (simp add: c)
    from queued(1) obtain raw fb where "ProcessInboundRequest quote (take 1048576 (Body r)) = Inr raw"
      "a = anonymize cfg pep raw fb" by (rule prepared) simp
    moreover have "queue_of c d (spool_name (at_time x) (seq s + 1)) = Some (marshal_signal a)"
      using Enqueue_acknowledged [OF q assms(4-6,8)] .
    ultimately show ?thesis by blast
  qed
qed

section \<open>Properties\<close>

text \<open>
  C23. Every request gets an answer: no branch of the handler panics, because the mosaic whose first
  16 digits it logs and returns always has 64. The status is 405 or 400 for a refused request, 202, 503 or 500
  with a spool, 200 or 502 without, and 500 when no signal id can be generated.
\<close>

theorem processTransaction_answers:
  "\<exists>resp st'. processTransaction quote cfg pep forward x r st = (Some resp, st')
    \<and> code resp \<in> (if Method r \<noteq> ''POST'' then {405} else {400, 500} \<union> (if spool_queue st = None then {200, 502} else {202, 503}))"
  by (rule processTransaction_codes)

text \<open>
  C21. A request that is answered 400, 401 or 405 leaves no trace: not in the queue, not at the destination,
  not in the audit log and not in the metrics.
\<close>

theorem refused_request_leaves_no_trace:
  assumes "process_endpoint quote cfg pep key forward x r st = (Some resp, st')" "code resp \<in> {400, 401, 405}"
  shows "st' = st"
proof -
  let ?r = "r\<lparr>Body := take 1048576 (Body r)\<rparr>"
  have "st' = st" if t: "processTransaction quote cfg pep forward x ?r st = (Some resp, st')"
  proof (cases rule: transaction_cases [where quote = quote and cfg = cfg and pep = pep and x = x and r = ?r and st = st and forward = forward])
    case (refused q m)
    then show ?thesis using refused_transaction [OF refused, of forward] t refused_code [OF refused] assms(2) by auto
  next
    case (queued a m c s e s1)
    then show ?thesis using queued_transaction [OF queued, of forward] t assms(2) by (cases e) (auto split: if_splits)
  next
    case (delivered a m e d1)
    then show ?thesis using delivered_transaction [where forward = forward, OF delivered] t assms(2) by (auto split: if_splits)
  qed
  then show ?thesis using endpoint_cases [of quote cfg pep key forward x r st] assms(1) by auto
qed

text \<open>
  The signal id that leaves the gateway is never the sentinel, and its metric never moves: the id
  is generated before whenever the caller's reference is blank, as long as
  \<^verbatim>\<open>crypto/rand\<close> fills its 16 bytes or fails.
\<close>

theorem sentinel_is_unreachable:
  assumes "prepare_signal quote cfg pep x r m = (Inr a, m')" "\<And>b. entropy x = Inr b \<Longrightarrow> length b = 16"
  shows "SignalID a \<noteq> MissingSignalIDSentinel \<and> m' = m"
  using assms(1)
proof (rule prepared)
  fix raw fb
  assume "fallback_id raw (entropy x) = Inr fb" and a: "a = anonymize cfg pep raw fb" and m': "m' = note_sentinel a m"
  from fallback_not_sentinel [OF assms(2) this(1), of "BankSalt (Local cfg)"] show ?thesis
    by (simp add: a m' note_sentinel_def anonymize_fields)
qed

text \<open>
  C16. What an answer of the queueing handler says about the queue: after 202 it is extended by exactly
  this signal; 503 is given exactly at the limit and changes nothing; after 500 the queue is as
  before, or does hold the signal although the caller is told otherwise (the directory fsync
  failed): then a retry delivers it twice, never not at all.
\<close>

theorem queue_answers_are_truthful:
  assumes "processTransaction quote cfg pep forward x r st = (Some resp, st')"
    and "prepare_signal quote cfg pep x r (store st) = (Inr a, m)" "spool_queue st = Some (c, s)"
    and "wf_fs (disk s)" "0 \<le> depth s"
  shows "\<exists>s'. spool_queue st' = Some (c, s') \<and>
    (let q = queue_of c (disk s); q' = queue_of c (disk s'); added = q(spool_name (at_time x) (seq s + 1) \<mapsto> marshal_signal a)
     in code resp = 202 \<and> depth s < maxDepth c \<and> q' = added
      \<or> code resp = 503 \<and> maxDepth c \<le> depth s \<and> s' = s
      \<or> code resp = 500 \<and> depth s < maxDepth c \<and> (q' = q \<or> q' = added))"
proof -
  obtain e s1 where e: "Enqueue c (at_time x) (marshal_signal a) s = (e, s1)" by fastforce
  have st': "spool_queue st' = Some (c, s1)"
    and code: "code resp = (case e of None \<Rightarrow> 202 | Some err \<Rightarrow> if errors_is_full err then 503 else 500)"
    using queued_transaction [OF assms(2,3) e, of forward] assms(1) by auto
  from Enqueue_outcome [OF e assms(4,5)]
  consider "enq_refused c s e s1" | "enq_abandoned c s e s1"
    | "enq_committed c (spool_name (at_time x) (seq s + 1)) (marshal_signal a) s e s1" by blast
  then show ?thesis
  proof cases
    case 1
    then show ?thesis using st' code by (simp add: enq_refused_def Let_def)
  next
    case 2
    then show ?thesis using st' code by (auto simp: enq_abandoned_def Let_def)
  next
    case 3
    then show ?thesis using st' code by (cases e) (simp_all add: enq_committed_def Let_def)
  qed
qed

text \<open>
  C14. 202 Accepted means durable: whatever power loss follows, the queue on disk holds the marshaled
  signal of this request, complete, under its name, provided fsync is not disabled. The signal is the
  pseudonymised form of the validated request body; nothing else of the request is stored.
\<close>

theorem accepted_request_survives_crash:
  assumes "process_endpoint quote cfg pep key forward x r st = (Some resp, st')" "code resp = 202"
    and "spool_queue st = Some (c, s)" "fsyncEnabled c" "wf_fs (disk s)" "0 \<le> depth s"
    and "spool_queue st' = Some (c, s')" "crash (disk s') d"
  shows "\<exists>raw fb. ProcessInboundRequest quote (take 1048576 (Body r)) = Inr raw
    \<and> queue_of c d (spool_name (at_time x) (seq s + 1)) = Some (marshal_signal (anonymize cfg pep raw fb))"
  using accepted_survives [OF assms] .

text \<open>
  C15. 200 OK in synchronous mode means delivered and on record: with an audit log configured the
  destination has confirmed exactly the bytes of this signal, and their record is fsynced in the log.
\<close>

theorem processed_request_is_recorded:
  assumes "process_endpoint quote cfg pep key (syncForward (sync_deliver cfg env f)) x r st = (Some resp, st')" "code resp = 200"
    and "audit_config env = Some lc" "logger_ok lc (outlet st)"
  shows "\<exists>raw fb. ProcessInboundRequest quote (take 1048576 (Body r)) = Inr raw
    \<and> f (marshal_signal (anonymize cfg pep raw fb)) (destination (outlet st)) = (None, destination (outlet st'))
    \<and> audited_in lc (destination_name cfg env) (outlet st') (marshal_signal (anonymize cfg pep raw fb))"
proof -
  let ?r = "r\<lparr>Body := take 1048576 (Body r)\<rparr>" and ?forward = "syncForward (sync_deliver cfg env f)"
  have t: "processTransaction quote cfg pep ?forward x ?r st = (Some resp, st')"
    using endpoint_result [OF assms(1)] assms(2) by simp
  show ?thesis
  proof (cases rule: transaction_cases [where quote = quote and cfg = cfg and pep = pep and x = x and r = ?r and st = st and forward = ?forward])
    case (refused q m)
    then show ?thesis using refused_transaction [OF refused, of ?forward] t refused_code [OF refused] assms(2) by auto
  next
    case (queued a m c s e s1)
    then show ?thesis using queued_transaction [OF queued, of ?forward] t assms(2) by (cases e) (auto split: if_splits)
  next
    case (delivered a m e d1)
    have e: "e = None" "outlet st' = d1"
      using delivered_transaction [where forward = ?forward, OF delivered] t assms(2) by (auto split: if_splits)
    then have "auditingSyncForward lc (destination_name cfg env) f (marshal_signal a) (outlet st) = (None, outlet st')"
      using delivered(3) assms(3) by (simp add: syncForward_def sync_deliver_def)
    from auditingSyncForward_nil [OF this assms(4)]
    have "f (marshal_signal a) (destination (outlet st)) = (None, destination (outlet st'))
        \<and> audited_in lc (destination_name cfg env) (outlet st') (marshal_signal a)" .
    moreover from delivered(1) obtain raw fb where "ProcessInboundRequest quote (take 1048576 (Body r)) = Inr raw"
      "a = anonymize cfg pep raw fb" by (rule prepared) simp
    ultimately show ?thesis by blast
  qed
qed

section \<open>Witnesses\<close>

definition body1 :: bytes where
  "body1 = ''{\"id\":\"1\",\"name\":\"A\",\"account\":\"2\",\"amount\":1,\"timestamp\":\"2024-01-01T00:00:00Z\",\"transaction_ref\":\"T1\"}''"

definition post1 :: request where
  "post1 = \<lparr>Method = ''POST'', URLPath = ''/process'', Header = (\<lambda>_. []), Body = body1\<rparr>"

definition circ1 :: circumstances where
  "circ1 = \<lparr>entropy = Inl (Leaf ''no entropy''), at_time = 5, elapsed_ms = 1\<rparr>"

definition server1 :: "unit server" where
  "server1 = \<lparr>spool_queue = Some (cfg1, spool1), store = no_metrics, outlet = ()\<rparr>"

lemma body1_ok: "case ProcessInboundRequest id body1 of Inl e \<Rightarrow> False | Inr raw \<Rightarrow> \<not> NeedsFallbackSignalID (TransactionRef raw)"
  by code_simp

lemma post1_prepared: "\<exists>a m'. prepare_signal id cfg pep circ1 post1 m = (Inr a, m')"
proof -
  obtain raw where "ProcessInboundRequest id body1 = Inr raw" "\<not> NeedsFallbackSignalID (TransactionRef raw)"
    using body1_ok by (cases "ProcessInboundRequest id body1") auto
  then show ?thesis by (simp add: prepare_signal_def post1_def fallback_id_def Let_def)
qed

lemma post1_endpoint: "process_endpoint quote cfg pep [] forward x post1 st = processTransaction quote cfg pep forward x post1 st"
proof -
  have "length body1 \<le> 1048576" by (simp add: body1_def)
  then have "take 1048576 (Body post1) = Body post1" by (simp add: post1_def)
  then have "post1\<lparr>Body := take 1048576 (Body post1)\<rparr> = post1" by (simp add: post1_def)
  then show ?thesis by (simp add: process_endpoint_def MaxBodySize_def RequireAPIKey_def)
qed

lemma cfg1_accepts: "\<exists>s'. Enqueue cfg1 5 b spool1 = (None, s')"
proof -
  have "fst (Enqueue cfg1 5 b spool1) = None" by code_simp
  then show ?thesis by (cases "Enqueue cfg1 5 b spool1") auto
qed

lemma server1_accepts:
  obtains a m resp s' m1 where "prepare_signal id empty_config [] circ1 post1 (store server1) = (Inr a, m)"
    "Enqueue cfg1 5 (marshal_signal a) spool1 = (None, s')" "code resp = 202"
    "processTransaction id empty_config [] forward circ1 post1 server1 = (Some resp, server1\<lparr>spool_queue := Some (cfg1, s'), store := m1\<rparr>)"
proof -
  obtain a m where a: "prepare_signal id empty_config [] circ1 post1 (store server1) = (Inr a, m)"
    using post1_prepared by blast
  obtain s' where e: "Enqueue cfg1 (at_time circ1) (marshal_signal a) spool1 = (None, s')"
    using cfg1_accepts by (auto simp: circ1_def)
  have q: "spool_queue server1 = Some (cfg1, spool1)" by (simp add: server1_def)
  from queued_transaction [OF a q e, of forward] that a e show thesis by (auto simp: circ1_def)
qed

lemma spool1_ok: "wf_fs (disk spool1)" "0 \<le> depth spool1" "fsyncEnabled cfg1"
  by (simp_all add: spool1_def cfg1_def)

theorem refused_request_leaves_no_trace_witness:
  "snd (process_endpoint id empty_config [] [] (\<lambda>a d. (None, d)) circ1 (post1\<lparr>Method := ''GET''\<rparr>) server1) = server1"
proof -
  have "process_endpoint id empty_config [] [] (\<lambda>a d. (None, d)) circ1 (post1\<lparr>Method := ''GET''\<rparr>) server1
      = (Some (http_error ''Method not allowed'' 405), server1)"
    by (simp add: process_endpoint_def MaxBodySize_def RequireAPIKey_def processTransaction_def prepare_signal_def server1_def)
  from refused_request_leaves_no_trace [OF this] this show ?thesis by (simp add: http_error_def)
qed

theorem sentinel_is_unreachable_witness:
  "\<exists>a m'. prepare_signal id empty_config [] circ1 post1 no_metrics = (Inr a, m') \<and> SignalID a \<noteq> MissingSignalIDSentinel \<and> m' = no_metrics"
proof -
  obtain a m' where a: "prepare_signal id empty_config [] circ1 post1 no_metrics = (Inr a, m')" using post1_prepared by blast
  from sentinel_is_unreachable [OF this] a show ?thesis by (simp add: circ1_def)
qed

theorem queue_answers_are_truthful_witness:
  "\<exists>resp st' s'. processTransaction id empty_config [] (\<lambda>a d. (None, d)) circ1 post1 server1 = (Some resp, st')
    \<and> code resp = 202 \<and> spool_queue st' = Some (cfg1, s') \<and> spool_name 5 (seq spool1 + 1) \<in> dom (queue_of cfg1 (disk s'))"
proof -
  obtain a m resp s' m1 where a: "prepare_signal id empty_config [] circ1 post1 (store server1) = (Inr a, m)"
    and c: "code resp = 202"
    and t: "processTransaction id empty_config [] (\<lambda>a d. (None, d)) circ1 post1 server1 = (Some resp, server1\<lparr>spool_queue := Some (cfg1, s'), store := m1\<rparr>)"
    by (rule server1_accepts)
  have q: "spool_queue server1 = Some (cfg1, spool1)" by (simp add: server1_def)
  from queue_answers_are_truthful [OF t a q spool1_ok(1,2)] c t show ?thesis by (auto simp: Let_def circ1_def)
qed

theorem accepted_request_survives_crash_witness:
  "\<exists>resp st' s' raw fb. process_endpoint id empty_config [] [] (\<lambda>a d. (None, d)) circ1 post1 server1 = (Some resp, st')
    \<and> spool_queue st' = Some (cfg1, s')
    \<and> queue_of cfg1 (disk s') (spool_name 5 (seq spool1 + 1)) = Some (marshal_signal (anonymize empty_config [] raw fb))"
proof -
  obtain a m resp s' m1 where c: "code resp = 202" and e: "Enqueue cfg1 5 (marshal_signal a) spool1 = (None, s')"
    and t: "processTransaction id empty_config [] (\<lambda>a d. (None, d)) circ1 post1 server1 = (Some resp, server1\<lparr>spool_queue := Some (cfg1, s'), store := m1\<rparr>)"
    by (rule server1_accepts)
  have q: "spool_queue server1 = Some (cfg1, spool1)" by (simp add: server1_def)
  have "wf_fs (disk s')" using Enqueue_outcome [OF e spool1_ok(1,2)] by blast
  from crash_refl [OF this] have k: "crash (disk s') (disk s')" .
  have p: "process_endpoint id empty_config [] [] (\<lambda>a d. (None, d)) circ1 post1 server1 = (Some resp, server1\<lparr>spool_queue := Some (cfg1, s'), store := m1\<rparr>)"
    using t by (simp add: post1_endpoint)
  from accepted_request_survives_crash [OF p c q spool1_ok(3,1,2) _ k] p show ?thesis by (auto simp: circ1_def)
qed

lemma env2_audit: "audit_config env2 = Some audit1"
  by (simp add: env2_def audit_config_def audit1_def)

lemma audit_start_syncs:
  assumes "decode_audit_fields p = Some a"
  shows "\<exists>w. auditingSyncForward audit1 dst (\<lambda>b d. (None, d)) p (audit_start d) = (None, w)"
proof -
  obtain l where "record_fields audit1 dst a p (read_clock (audit_start d)) (fresh_log []) = (None, l)"
    using fresh_record by blast
  then have "writeAuditFromPayload audit1 dst p (read_clock (audit_start d)) (logger (audit_start d)) = (None, l)"
    using assms by (simp add: writeAuditFromPayload_def audit_start_def)
  then show ?thesis by (simp add: auditingSyncForward_def write_audit_def read_clock_def audit_start_def)
qed

lemma anonymize_versions:
  "OutMosaicVersion (anonymize cfg pep raw fb) = MosaicVersion" "OutFeatureVersion (anonymize cfg pep raw fb) = FeatureVersion"
  by (simp_all add: anonymize_def AnonymizeSignal_def split: prod.split)

theorem processed_request_is_recorded_witness:
  "\<exists>resp st' raw fb. process_endpoint id empty_config [] []
      (syncForward (sync_deliver empty_config env2 (\<lambda>b d. (None, d)))) circ1 post1
      \<lparr>spool_queue = None, store = no_metrics, outlet = audit_start ()\<rparr> = (Some resp, st')
    \<and> audited_in audit1 (destination_name empty_config env2) (outlet st') (marshal_signal (anonymize empty_config [] raw fb))"
proof -
  let ?forward = "syncForward (sync_deliver empty_config env2 (\<lambda>b d. (None, d)))"
  define st :: "unit audit_state server" where "st = \<lparr>spool_queue = None, store = no_metrics, outlet = audit_start ()\<rparr>"
  obtain a m where a: "prepare_signal id empty_config [] circ1 post1 (store st) = (Inr a, m)" using post1_prepared by blast
  then obtain raw fb where "a = anonymize empty_config [] raw fb" by (rule prepared)
  then obtain y where y: "decode_audit_fields (marshal_signal a) = Some y"
    using decode_marshaled [of a] by (simp add: anonymize_versions MosaicVersion_def FeatureVersion_def)
  from audit_start_syncs [OF this, of "destination_name empty_config env2" "()"] obtain w where
    w: "?forward a (outlet st) = (None, w)" by (auto simp: syncForward_def sync_deliver_def env2_audit st_def)
  have "spool_queue st = None" by (simp add: st_def)
  from delivered_transaction [where forward = ?forward, OF a this w] obtain resp m1 where
    t: "process_endpoint id empty_config [] [] ?forward circ1 post1 st = (Some resp, st\<lparr>outlet := w, store := m1\<rparr>)"
    and c: "code resp = 200" by (auto simp: post1_endpoint)
  have "logger_ok audit1 (outlet st)" by (simp add: st_def)
  from processed_request_is_recorded [OF t c env2_audit this] t show ?thesis unfolding st_def by blast
qed

end
