(* ===== verification/Serving.thy ===== *)
theory Serving
  imports Transaction
begin

text \<open>
  The rest of \<^verbatim>\<open>main\<close> in cmd/gateway/main.go: what the arguments choose, the settings of the HTTP server,
  the routes with the middleware around them, and the end of the process. The JSON of the maps behind
  \<^verbatim>\<open>/health\<close>, \<^verbatim>\<open>/readyz\<close> and \<^verbatim>\<open>/metrics\<close> is the parameter \<open>render\<close>, the page of a redirect the
  parameter \<open>moved\<close>; of the path of a request only the form without percent escapes is modelled.
\<close>

section \<open>Routes\<close>

text \<open>
  \<^verbatim>\<open>http.ServeMux\<close> cleans the path of a request: empty and \<^verbatim>\<open>.\<close> elements go, \<^verbatim>\<open>..\<close> takes the element
  before it along, a slash at the end stays. A path that is not clean is redirected. The four patterns
  have no method and no trailing slash, so each matches one path, with every method.
\<close>

fun path_elements :: "bytes \<Rightarrow> bytes \<Rightarrow> bytes list" where
  "path_elements cur [] = [rev cur]"
| "path_elements cur (c # cs) = (if c = CHR ''/'' then rev cur # path_elements [] cs else path_elements (c # cur) cs)"

fun clean_elements :: "bytes list \<Rightarrow> bytes list \<Rightarrow> bytes list" where
  "clean_elements acc [] = rev acc"
| "clean_elements acc (e # es) =
     (if e = [] \<or> e = ''.'' then clean_elements acc es
      else if e = ''..'' then clean_elements (tl acc) es
      else clean_elements (e # acc) es)"

definition clean_path :: "bytes \<Rightarrow> bytes" where
  "clean_path p =
     (let es = clean_elements [] (path_elements [] p)
      in if es = [] then ''/''
         else concat (map (\<lambda>e. ''/'' @ e) es) @ (if last p = CHR ''/'' then ''/'' else []))"

datatype route = Health | Readyz | Metrics | Process | Moved bytes | NotFound

definition pattern_of :: "bytes \<Rightarrow> route" where
  "pattern_of p =
     (if p = ''/health'' then Health else if p = ''/readyz'' then Readyz
      else if p = ''/metrics'' then Metrics else if p = ''/process'' then Process else NotFound)"

definition route :: "request \<Rightarrow> route" where
  "route r =
     (if Method r = ''CONNECT'' then pattern_of (URLPath r)
      else let p = clean_path (URLPath r) in if p = URLPath r then pattern_of p else Moved p)"

section \<open>The handlers\<close>

text \<open>What the handlers are built from at the start: the environment and configuration, the keys, the
  delivery of the synchronous mode, the start time, and how the library writes.\<close>

record 'd site =
  site_env :: env
  site_config :: GatewayConfig
  site_pepper :: bytes
  inboundKey :: bytes
  site_forward :: "AnonymizedSignal \<Rightarrow> 'd audit_state \<Rightarrow> gores \<times> 'd audit_state"
  startTime :: instant
  quoting :: "bytes \<Rightarrow> bytes"
  render :: "(string \<rightharpoonup> body_value) \<Rightarrow> bytes"
  render_metrics :: "(string \<rightharpoonup> metric_value) \<Rightarrow> bytes"
  moved :: "bytes \<Rightarrow> bytes"

text \<open>The spool the readiness check reads; without one it is not registered and nothing is read.\<close>

definition no_spool :: Spool where
  "no_spool = \<lparr>disk = empty_fs [], depth = 0, seq = 0, oldestPendingAt = None, wake = False,
     dirFsyncFailures = 0, events = []\<rparr>"

definition spool_view :: "'d server \<Rightarrow> Spool" where
  "spool_view st = (case spool_queue st of Some (c, s) \<Rightarrow> s | None \<Rightarrow> no_spool)"

definition serve_mux :: "'d site \<Rightarrow> circumstances \<Rightarrow> int \<Rightarrow> 'd audit_state server handler" where
  "serve_mux g x uptime r st =
     (case route r of
        Health \<Rightarrow> (case HealthCheckHandler (at_time x) of (c, body) \<Rightarrow> (Some \<lparr>code = c, content = render g body\<rparr>, st))
      | Readyz \<Rightarrow>
          (case ReadinessCheckHandler (at_time x) (wired_readiness (site_env g) (at_time x)) (spool_view st, outlet st) of
             (c, body) \<Rightarrow> (Some \<lparr>code = c, content = render g body\<rparr>, st))
      | Metrics \<Rightarrow>
          (Some \<lparr>code = 200, content = render_metrics g (MetricsHandler (startTime g) uptime (at_time x) (store st))\<rparr>, st)
      | Process \<Rightarrow>
          RequireAPIKey (processTransaction (quoting g) (site_config g) (site_pepper g) (site_forward g) x) (inboundKey g) r st
      | Moved p \<Rightarrow> (Some \<lparr>code = 301, content = moved g p\<rparr>, st)
      | NotFound \<Rightarrow> (Some (http_error ''404 page not found'' 404), st))"

definition gateway_handler :: "'d site \<Rightarrow> circumstances \<Rightarrow> int \<Rightarrow> ('d audit_state server \<times> log_line list) handler" where
  "gateway_handler g x uptime = RequestLogger (MaxBodySize (serve_mux g x uptime) 1048576)"

section \<open>Starting and stopping\<close>

text \<open>The settings of \<^verbatim>\<open>http.Server\<close>; times in nanoseconds.\<close>

record http_server =
  Addr :: bytes
  ReadTimeout :: int
  WriteTimeout :: int
  IdleTimeout :: int
  with_tls :: bool

definition http_server_of :: "env \<Rightarrow> http_server" where
  "http_server_of env = \<lparr>Addr = '':'' @ gateway_port env, ReadTimeout = 10 * second, WriteTimeout = 10 * second,
     IdleTimeout = 120 * second, with_tls = uses_tls env\<rparr>"

definition site_of ::
  "env \<Rightarrow> gateway \<Rightarrow> (bytes \<Rightarrow> 'd \<Rightarrow> gores \<times> 'd) \<Rightarrow> instant \<Rightarrow> (bytes \<Rightarrow> bytes)
    \<Rightarrow> ((string \<rightharpoonup> body_value) \<Rightarrow> bytes) \<Rightarrow> ((string \<rightharpoonup> metric_value) \<Rightarrow> bytes) \<Rightarrow> (bytes \<Rightarrow> bytes) \<Rightarrow> 'd site" where
  "site_of env g f now quote rendering rendering_metrics moving =
     \<lparr>site_env = env, site_config = running_config g, site_pepper = pepper g, inboundKey = env ''INBOUND_API_KEY'',
      site_forward = syncForward (sync_deliver (running_config g) env f), startTime = now, quoting = quote,
      render = rendering, render_metrics = rendering_metrics, moved = moving\<rparr>"

definition server_of :: "env \<Rightarrow> gateway \<Rightarrow> 'd audit_state \<Rightarrow> 'd audit_state server" where
  "server_of env g w =
     \<lparr>spool_queue = (case spool_config env of None \<Rightarrow> None | Some c \<Rightarrow> map_option (Pair c) (opened_spool g)),
      store = started_metrics g, outlet = w\<rparr>"

text \<open>The process: a self-probe or a refused start exits at once.\<close>

datatype process = Exited int | Serving gateway

definition main_start ::
  "bytes list \<Rightarrow> (bytes \<Rightarrow> goerr + int) \<Rightarrow> (bytes \<Rightarrow> bytes) \<Rightarrow> (bytes \<Rightarrow> bytes option) \<Rightarrow> env \<Rightarrow> bytes \<Rightarrow> instant \<Rightarrow> disks
    \<Rightarrow> process" where
  "main_start args get quote read_file env probe now ds =
     (if 1 < length args \<and> args ! 1 = ''-healthcheck'' then Exited (healthcheck env get)
      else case start quote read_file env probe now ds of
        Inl problems \<Rightarrow> Exited 1
      | Inr g \<Rightarrow> Serving g)"

text \<open>\<^verbatim>\<open>errors.Is(err, http.ErrServerClosed)\<close>\<close>

definition ErrServerClosed :: goerr where "ErrServerClosed = Leaf ''http: Server closed''"

fun errors_is_server_closed :: "goerr \<Rightarrow> bool" where
  "errors_is_server_closed (Wrapf m e) = errors_is_server_closed e"
| "errors_is_server_closed (Permanent e) = errors_is_server_closed e"
| "errors_is_server_closed e = (e = ErrServerClosed)"

text \<open>After the server has returned: an error other than its orderly end exits with 1 and closes nothing;
  otherwise, once the requests under way and the forwarder are done, sink and audit log are closed.\<close>

definition main_end :: "gores \<Rightarrow> gateway \<Rightarrow> int \<times> gateway" where
  "main_end served g =
     (case served of
        Some e \<Rightarrow> if errors_is_server_closed e then (0, stop g) else (1, g)
      | None \<Rightarrow> (0, stop g))"

section \<open>Laws\<close>

lemma clean_patterns [simp]:
  "clean_path ''/health'' = ''/health''" "clean_path ''/readyz'' = ''/readyz''"
  "clean_path ''/metrics'' = ''/metrics''" "clean_path ''/process'' = ''/process''"
  by (simp_all add: clean_path_def Let_def)

lemma pattern_of_simps [simp]:
  "pattern_of p = Health \<longleftrightarrow> p = ''/health''" "pattern_of p = Readyz \<longleftrightarrow> p = ''/readyz''"
  "pattern_of p = Metrics \<longleftrightarrow> p = ''/metrics''" "pattern_of p = Process \<longleftrightarrow> p = ''/process''"
  "pattern_of p \<noteq> Moved q"
  by (auto simp: pattern_of_def)

lemma route_iff:
  "route r = Health \<longleftrightarrow> URLPath r = ''/health''" "route r = Readyz \<longleftrightarrow> URLPath r = ''/readyz''"
  "route r = Metrics \<longleftrightarrow> URLPath r = ''/metrics''" "route r = Process \<longleftrightarrow> URLPath r = ''/process''"
  by (auto simp: route_def Let_def)

lemma route_body [simp]: "route (r\<lparr>Body := b\<rparr>) = route r"
  by (simp add: route_def)

lemma presented_key_body [simp]: "presented_key (r\<lparr>Body := b\<rparr>) = presented_key r"
  by (simp add: presented_key_def Let_def)

lemma wrong_method_unchanged:
  "Method r \<noteq> ''POST'' \<Longrightarrow> snd (processTransaction quote cfg pep forward x r st) = st"
  by (simp add: processTransaction_def prepare_signal_def)

lemma serve_mux_effect:
  "\<exists>resp st'. serve_mux g x uptime r st = (Some resp, st')
    \<and> (st' = st \<or> route r = Process \<and> Method r = ''POST'' \<and> (inboundKey g = [] \<or> presented_key r = inboundKey g))"
proof (cases "route r = Process \<and> (inboundKey g = [] \<or> presented_key r = inboundKey g)")
  case True
  then have e: "serve_mux g x uptime r st
      = processTransaction (quoting g) (site_config g) (site_pepper g) (site_forward g) x r st"
    by (auto simp: serve_mux_def RequireAPIKey_def)
  obtain resp st' where t: "processTransaction (quoting g) (site_config g) (site_pepper g) (site_forward g) x r st = (Some resp, st')"
    using processTransaction_codes by blast
  show ?thesis
  proof (cases "Method r = ''POST''")
    case False
    from wrong_method_unchanged [OF this] t have "st' = st" by (metis snd_conv)
    then show ?thesis by (simp add: e t)
  qed (use True e t in auto)
next
  case False
  then show ?thesis by (cases "route r") (auto simp: serve_mux_def RequireAPIKey_def split: prod.splits)
qed

lemma gateway_handler_mux:
  assumes "serve_mux g x uptime (r\<lparr>Body := take 1048576 (Body r)\<rparr>) st = (Some resp, st')"
  shows "gateway_handler g x uptime r (st, lines) = (Some resp, (st', lines @ [(Method r, URLPath r, code resp)]))"
  using assms by (simp add: gateway_handler_def RequestLogger_def MaxBodySize_def WriteHeader_def)

text \<open>\<^verbatim>\<open>/process\<close> behind the whole chain is the endpoint of theory \<open>Transaction\<close>, logged.\<close>

lemma gateway_process:
  assumes "URLPath r = ''/process''"
  shows "gateway_handler g x uptime r (st, lines) =
    RequestLogger (process_endpoint (quoting g) (site_config g) (site_pepper g) (inboundKey g) (site_forward g) x) r (st, lines)"
proof -
  have "route r = Process" using assms by (simp add: route_iff)
  then show ?thesis by (simp add: gateway_handler_def RequestLogger_def MaxBodySize_def serve_mux_def process_endpoint_def)
qed

lemma configured_ratio:
  assumes "readiness_ratio env = DefaultReadinessMaxDepthRatio"
  shows "readinessMaxDepthRatio (configure_readiness env initial_readiness) = DefaultReadinessMaxDepthRatio"
  using assms by (simp add: configure_readiness_def Let_def SetReadinessThresholds_def SetReadinessMaxAuditFailures_def
      SetReadinessMaxSpoolFsyncFailures_def initial_readiness_def split: option.split)

section \<open>Properties\<close>

text \<open>
  C7. Every request is answered, and only an authorised POST to \<^verbatim>\<open>/process\<close> changes anything: whatever the
  method, path, headers and body, the handler does not panic, adds exactly one line to the request log, made of
  the method, the path and the status (nothing of the body, which holds personal data), and leaves queue,
  destination, audit log and metrics alone unless the request is a POST to \<^verbatim>\<open>/process\<close> with the key.
\<close>

theorem only_process_changes_state:
  "\<exists>resp st'. gateway_handler g x uptime r (st, lines) = (Some resp, (st', lines @ [(Method r, URLPath r, code resp)]))
    \<and> (st' = st \<or> URLPath r = ''/process'' \<and> Method r = ''POST'' \<and> (inboundKey g = [] \<or> presented_key r = inboundKey g))"
  using serve_mux_effect [of g x uptime "r\<lparr>Body := take 1048576 (Body r)\<rparr>" st] gateway_handler_mux
  by (fastforce simp: route_iff)

text \<open>
  Liveness and readiness are apart: \<^verbatim>\<open>/health\<close> answers 200 with the same body whatever the queue, the
  audit log and the metrics are, so that a backlog never restarts the process; it needs no key.
\<close>

lemma liveness_ignores_backlog:
  assumes "URLPath r = ''/health''"
  shows "gateway_handler g x uptime r (st, lines)
    = (Some \<lparr>code = 200, content = render g (snd (HealthCheckHandler (at_time x)))\<rparr>, (st, lines @ [(Method r, ''/health'', 200)]))"
proof -
  have "route r = Health" using assms by (simp add: route_iff)
  then have "serve_mux g x uptime (r\<lparr>Body := take 1048576 (Body r)\<rparr>) st
      = (Some \<lparr>code = 200, content = render g (snd (HealthCheckHandler (at_time x)))\<rparr>, st)"
    by (simp add: serve_mux_def HealthCheckHandler_def)
  from gateway_handler_mux [OF this] assms show ?thesis by simp
qed

text \<open>
  C11. A restart does not hide a backlog: the first \<^verbatim>\<open>/readyz\<close> of a new process counts the signals left on
  disk by the former one, and answers 503 when they fill 95\% of the limit, before any delivery is attempted.
\<close>

theorem restart_reports_backlog:
  assumes "start quote read_file env probe now ds = Inr g" "spool_config env = Some c" "wf_fs (spool_disk ds)"
    and "env ''READINESS_MAX_DEPTH_RATIO'' = []" "URLPath r = ''/readyz''"
    and "maxDepth c \<le> 2 ^ 40" "card (dom (queue_of c (spool_disk ds))) < 2 ^ 53"
    and "95 * maxDepth c \<le> 100 * int (card (dom (queue_of c (spool_disk ds))))"
  shows "\<exists>body st'. gateway_handler (site_of env g f now quote rendering rendering_metrics moving) x uptime r (server_of env g w, lines)
    = (Some \<lparr>code = 503, content = body\<rparr>, st')"
proof -
  let ?g = "site_of env g f now quote rendering rendering_metrics moving" and ?st = "server_of env g w"
  have "open_spool env now ds = Inr (opened_spool g)" using start_facts [OF assms(1)] by simp
  then obtain s d where n: "New c now (spool_disk ds) = (Inr s, d)" and o: "opened_spool g = Some s"
    using assms(2) by (auto simp: open_spool_def split: sum.splits prod.splits)
  note dep = New_facts(4) [OF n assms(3)]
  have v: "spool_view ?st = s" by (simp add: spool_view_def server_of_def assms(2) o)
  let ?r = "wired_readiness env (at_time x) :: (Spool \<times> 'a audit_state) readiness"
  have pos: "0 < maxDepth c"
    using assms(2) by (auto simp: spool_config_def spool_max_depth_def positive_env_pos split: if_splits option.splits)
  have status: "readinessSpoolStatus ?r = Some (\<lambda>st. spool_status c (at_time x) (fst st))"
    by (simp add: wired_readiness_def assms(2) Let_def SetReadinessSpoolStatus_def)
  have ratio: "readinessMaxDepthRatio ?r = DefaultReadinessMaxDepthRatio"
    by (simp add: wired_readiness_def assms(2,4) Let_def SetReadinessSpoolStatus_def SetReadinessAuditStatus_def
        configured_ratio readiness_ratio_def split: option.split)
  have near: "near_capacity ?r (spool_status c (at_time x) s)"
    using assms(6-8) pos dep ratio
    by (simp add: near_capacity_def default_ratio_exact spool_status_def split: prod.split)
  then have "fst (ReadinessCheckHandler (at_time x) ?r (s, outlet ?st)) = 503"
    by (simp add: readiness_result degraded_def status spool_degraded_def)
  then obtain body where "ReadinessCheckHandler (at_time x) ?r (s, outlet ?st) = (503, body)" by (metis prod.collapse)
  moreover have "route (r\<lparr>Body := b\<rparr>) = Readyz" for b using assms(5) by (simp add: route_iff)
  ultimately have "\<exists>body. serve_mux ?g x uptime (r\<lparr>Body := take 1048576 (Body r)\<rparr>) ?st = (Some \<lparr>code = 503, content = body\<rparr>, ?st)"
    by (simp add: serve_mux_def v site_of_def)
  with gateway_handler_mux show ?thesis by blast
qed

text \<open>A spool of one place, in which a former run has left a signal.\<close>

definition env3 :: env where
  "env3 = env1(''SPOOL_MAX_DEPTH'' := ''1'')"

definition disks3 :: disks where
  "disks3 = disks1\<lparr>spool_disk := disk (snd (Enqueue cfg1 5 ''x'' spool1))\<rparr>"

lemma start_env3: "\<not> isl (start id (\<lambda>_. None) env3 ''.probe'' 5 disks3)"
  by code_simp

lemma disks3_pending: "card (dom (queue_of (cfg1\<lparr>maxDepth := 1\<rparr>) (spool_disk disks3))) = 1" "wf_fs (spool_disk disks3)"
proof -
  have "set (filter is_pending_name (dir_names (dir (cfg1\<lparr>maxDepth := 1\<rparr>)) (spool_disk disks3))) = {spool_name 5 1}" by code_simp
  then show "card (dom (queue_of (cfg1\<lparr>maxDepth := 1\<rparr>) (spool_disk disks3))) = 1" by (simp only: queue_dom_names) simp
  show "wf_fs (spool_disk disks3)"
    using Enqueue_outcome [of cfg1 5 "''x''" spool1] by (simp add: disks3_def disks1_def spool1_def prod_eq_iff)
qed

theorem restart_reports_backlog_witness:
  "\<exists>g body st'. start id (\<lambda>_. None) env3 ''.probe'' 5 disks3 = Inr g
    \<and> gateway_handler (site_of env3 g (\<lambda>b h. (None, h)) 5 id (\<lambda>_. []) (\<lambda>_. []) id) circ1 0 (post1\<lparr>URLPath := ''/readyz''\<rparr>)
        (server_of env3 g (audit_start (0 :: nat)), []) = (Some \<lparr>code = 503, content = body\<rparr>, st')"
proof -
  obtain g where g: "start id (\<lambda>_. None) env3 ''.probe'' 5 disks3 = Inr g"
    using start_env3 by (cases "start id (\<lambda>_. None) env3 ''.probe'' 5 disks3") auto
  have c: "spool_config env3 = Some (cfg1\<lparr>maxDepth := 1\<rparr>)" by code_simp
  have e: "env3 ''READINESS_MAX_DEPTH_RATIO'' = []" by (simp add: env3_def env1_def)
  from restart_reports_backlog [OF g c disks3_pending(2) e, of "post1\<lparr>URLPath := ''/readyz''\<rparr>"] g
  show ?thesis by (simp add: disks3_pending(1)) blast
qed

end
