(* ===== verification/ShaEval.thy ===== *)
theory ShaEval
  imports GoCrypto
begin

text \<open>
  SHA-256 computed by the simplifier on concrete messages: equations that keep every word reduced, for the
  compression function and its message schedule; the published digest of \<^verbatim>\<open>abc\<close> as a check of the
  definitions, and two MACs that the witness of the mosaic property uses.
\<close>

lemma word_mask: "(x :: u32) AND 4294967295 = x"
proof -
  have "(4294967295 :: u32) = mask 32" by (simp add: mask_eq_exp_minus_1)
  moreover have "x AND mask 32 = take_bit 32 x" by (simp only: take_bit_eq_mask)
  moreover have "take_bit 32 x = x" by (rule bit_word_eqI) (simp add: bit_take_bit_iff)
  ultimately show ?thesis by (simp only:)
qed

lemma rotr_eval: "rotr n x = (drop_bit n x OR push_bit (32 - n) x) AND 4294967295"
  by (simp only: rotr_def word_mask)

lemma round_eval:
  "sha_round [a, b, c, d, e, f, g, h] (k, w) =
     (let t1 = (h + sha_big1 e + sha_ch e f g + k + w) AND 4294967295
      in [(t1 + (sha_big0 a + sha_maj a b c)) AND 4294967295, a, b, c, (d + t1) AND 4294967295, e, f, g])"
  by (simp only: sha_round.simps Let_def word_mask)

lemma schedule_eval:
  "sha_schedule (numeral n) [w0, w1, w2, w3, w4, w5, w6, w7, w8, w9, w10, w11, w12, w13, w14, w15] =
     w0 # sha_schedule (pred_numeral n) [w1, w2, w3, w4, w5, w6, w7, w8, w9, w10, w11, w12, w13, w14, w15,
       (sha_small1 w14 + w9 + sha_small0 w1 + w0) AND 4294967295]"
  "sha_schedule (Suc 0) [w0, w1, w2, w3, w4, w5, w6, w7, w8, w9, w10, w11, w12, w13, w14, w15] = [w0]"
  by (simp_all add: word_mask numeral_eq_Suc)

lemma block_eval:
  "sha_block h w = map2 (\<lambda>a b. (a + b) AND 4294967295) h (foldl sha_round h (zip sha_k (sha_schedule 64 w)))"
  by (simp add: sha_block_def word_mask)

lemmas sha_eval = block_eval round_eval rotr_eval schedule_eval sha_k_def sha_big0_def sha_big1_def
  sha_small0_def sha_small1_def sha_ch_def sha_maj_def Let_def

lemma abc_schedule: "last (sha_schedule 64 [1633837952, 0, 0, 0, 0, 0, 0, 0, 0, 0, 0, 0, 0, 0, 0, 24]) = 313650667"
  by (simp add: schedule_eval sha_small0_def sha_small1_def rotr_eval del: sha_schedule.simps(2))

lemma abc_block:
  "sha_block sha_init [1633837952, 0, 0, 0, 0, 0, 0, 0, 0, 0, 0, 0, 0, 0, 0, 24]
     = [3128432319, 2399260650, 1094795486, 1571693091, 2953011619, 2518121116, 3021012833, 4060091821]"
  by (simp add: sha_eval sha_init_def del: sha_round.simps sha_schedule.simps(2))

lemma abc_words: "blocks_of (words_of (sha_pad ''abc'')) = [[1633837952, 0, 0, 0, 0, 0, 0, 0, 0, 0, 0, 0, 0, 0, 0, 24]]"
  by code_simp

lemma sha256_abc: "hex_encode (sha256 ''abc'') = ''ba7816bf8f01cfea414140de5dae2223b00361a396177a9cb410ff61f20015ad''"
proof -
  have "hex_encode (concat (map (\<lambda>w. be_bytes 4 (uint w)) [3128432319, 2399260650, 1094795486, 1571693091, 2953011619,
      2518121116, 3021012833, 4060091821 :: u32])) = ''ba7816bf8f01cfea414140de5dae2223b00361a396177a9cb410ff61f20015ad''"
    by code_simp
  then show ?thesis by (simp add: sha256_def abc_words abc_block)
qed

section \<open>One identifier under two bank keys\<close>

text \<open>The MAC of one message under the keys of two banks, block by block: inner hash, outer hash.\<close>

lemma bank1_block1: "sha_block sha_init [1158105670, 909522486, 909522486, 909522486, 909522486, 909522486, 909522486, 909522486, 909522486,
      909522486, 909522486, 909522486, 909522486, 909522486, 909522486, 909522486] = [1496267948, 3549718476, 3729998837, 1072776307, 580851544,
      1066786466, 3716243608, 1489181093]"
  by (simp add: sha_eval sha_init_def del: sha_round.simps sha_schedule.simps(2))

lemma bank1_block2: "sha_block [1496267948, 3549718476, 3729998837, 1072776307, 580851544, 1066786466, 3716243608, 1489181093] [1983085673,
      1685860914, 859059510, 926431536, 830472192, 0, 0, 0, 0, 0, 0, 0, 0, 0, 0, 648] = [4072050112, 2725604330, 2121995206, 2171458549, 1891684692,
      570109618, 3884346034, 1614243191]"
  by (simp add: sha_eval del: sha_round.simps sha_schedule.simps(2))

lemma bank1_block3: "sha_block sha_init [795680812, 1549556828, 1549556828, 1549556828, 1549556828, 1549556828, 1549556828, 1549556828, 1549556828,
      1549556828, 1549556828, 1549556828, 1549556828, 1549556828, 1549556828, 1549556828] = [2623231723, 844640576, 29455959, 1457921075, 1964836210,
      3823468219, 3089737570, 175543639]"
  by (simp add: sha_eval sha_init_def del: sha_round.simps sha_schedule.simps(2))

lemma bank1_block4: "sha_block [2623231723, 844640576, 29455959, 1457921075, 1964836210, 3823468219, 3089737570, 175543639] [4072050112, 2725604330,
      2121995206, 2171458549, 1891684692, 570109618, 3884346034, 1614243191, 2147483648, 0, 0, 0, 0, 0, 0, 768] = [4288219821, 658457558, 4216255030,
      2969507250, 878871634, 3582731533, 429980807, 3119504222]"
  by (simp add: sha_eval del: sha_round.simps sha_schedule.simps(2))

lemma bank1_inner_blocks: "blocks_of (words_of (sha_pad (map (xor_byte 54) (hmac_key ''s1|p'') @ ''v3|id|22345678901''))) = [[1158105670, 909522486,
      909522486, 909522486, 909522486, 909522486, 909522486, 909522486, 909522486, 909522486, 909522486, 909522486, 909522486, 909522486, 909522486,
      909522486], [1983085673, 1685860914, 859059510, 926431536, 830472192, 0, 0, 0, 0, 0, 0, 0, 0, 0, 0, 648]]"
  by code_simp

lemma bank1_inner: "sha256 (map (xor_byte 54) (hmac_key ''s1|p'') @ ''v3|id|22345678901'') = [CHR 0xF2, CHR 0xB6, CHR 0x8D, CHR 0xC0, CHR 0xA2, CHR
      0x75, CHR 0x6B, CHR 0xEA, CHR 0x7E, CHR 0x7B, CHR 0x13, CHR 0xC6, CHR 0x81, CHR 0x6D, CHR 0xD3, CHR 0xF5, CHR 0x70, CHR 0xC0, CHR 0xD1, CHR
      0x54, CHR 0x21, CHR 0xFB, CHR 0x2E, CHR 0xB2, CHR 0xE7, CHR 0x86, CHR 0x6A, CHR 0xB2, CHR 0x60, CHR 0x37, CHR 0x65, CHR 0x77]"
  unfolding sha256_def bank1_inner_blocks foldl.simps bank1_block1 bank1_block2 by code_simp

lemma bank1_outer_blocks: "blocks_of (words_of (sha_pad (map (xor_byte 92) (hmac_key ''s1|p'') @ [CHR 0xF2, CHR 0xB6, CHR 0x8D, CHR 0xC0, CHR 0xA2,
      CHR 0x75, CHR 0x6B, CHR 0xEA, CHR 0x7E, CHR 0x7B, CHR 0x13, CHR 0xC6, CHR 0x81, CHR 0x6D, CHR 0xD3, CHR 0xF5, CHR 0x70, CHR 0xC0, CHR 0xD1, CHR
      0x54, CHR 0x21, CHR 0xFB, CHR 0x2E, CHR 0xB2, CHR 0xE7, CHR 0x86, CHR 0x6A, CHR 0xB2, CHR 0x60, CHR 0x37, CHR 0x65, CHR 0x77]))) = [[795680812,
      1549556828, 1549556828, 1549556828, 1549556828, 1549556828, 1549556828, 1549556828, 1549556828, 1549556828, 1549556828, 1549556828, 1549556828,
      1549556828, 1549556828, 1549556828], [4072050112, 2725604330, 2121995206, 2171458549, 1891684692, 570109618, 3884346034, 1614243191, 2147483648,
      0, 0, 0, 0, 0, 0, 768]]"
  by code_simp

lemma bank1_mac: "hex_encode (hmac_sha256 ''s1|p'' ''v3|id|22345678901'') = ''ff990aad273f43d6fb4ef236b0ff15b234628452d58c250d19a0fc87b9efdb5e''"
  unfolding hmac_sha256_def bank1_inner unfolding sha256_def bank1_outer_blocks foldl.simps bank1_block3 bank1_block4 by code_simp

lemma bank2_block1: "sha_block sha_init [1157909062, 909522486, 909522486, 909522486, 909522486, 909522486, 909522486, 909522486, 909522486,
      909522486, 909522486, 909522486, 909522486, 909522486, 909522486, 909522486] = [558662517, 1790784417, 1116170032, 910391477, 3949502976,
      3740588530, 1603717789, 2742269586]"
  by (simp add: sha_eval sha_init_def del: sha_round.simps sha_schedule.simps(2))

lemma bank2_block2: "sha_block [558662517, 1790784417, 1116170032, 910391477, 3949502976, 3740588530, 1603717789, 2742269586] [1983085673, 1685860914,
      859059510, 926431536, 830472192, 0, 0, 0, 0, 0, 0, 0, 0, 0, 0, 648] = [1337926126, 3902101699, 3682223216, 1826680050, 1270876008, 2151512144,
      526731590, 1945025705]"
  by (simp add: sha_eval del: sha_round.simps sha_schedule.simps(2))

lemma bank2_block3: "sha_block sha_init [795746348, 1549556828, 1549556828, 1549556828, 1549556828, 1549556828, 1549556828, 1549556828, 1549556828,
      1549556828, 1549556828, 1549556828, 1549556828, 1549556828, 1549556828, 1549556828] = [4004709887, 3931508157, 3537509351, 144897502,
      2001476571, 1533798389, 984792722, 3724040399]"
  by (simp add: sha_eval sha_init_def del: sha_round.simps sha_schedule.simps(2))

lemma bank2_block4: "sha_block [4004709887, 3931508157, 3537509351, 144897502, 2001476571, 1533798389, 984792722, 3724040399] [1337926126, 3902101699,
      3682223216, 1826680050, 1270876008, 2151512144, 526731590, 1945025705, 2147483648, 0, 0, 0, 0, 0, 0, 768] = [4102941210, 1554249273, 3331332422,
      3656888624, 3705528486, 4285485321, 1932750876, 1257291319]"
  by (simp add: sha_eval del: sha_round.simps sha_schedule.simps(2))

lemma bank2_inner_blocks: "blocks_of (words_of (sha_pad (map (xor_byte 54) (hmac_key ''s2|p'') @ ''v3|id|22345678901''))) = [[1157909062, 909522486,
      909522486, 909522486, 909522486, 909522486, 909522486, 909522486, 909522486, 909522486, 909522486, 909522486, 909522486, 909522486, 909522486,
      909522486], [1983085673, 1685860914, 859059510, 926431536, 830472192, 0, 0, 0, 0, 0, 0, 0, 0, 0, 0, 648]]"
  by code_simp

lemma bank2_inner: "sha256 (map (xor_byte 54) (hmac_key ''s2|p'') @ ''v3|id|22345678901'') = [CHR 0x4F, CHR 0xBF, CHR 0x21, CHR 0xEE, CHR 0xE8, CHR
      0x95, CHR 0x58, CHR 0xC3, CHR 0xDB, CHR 0x7A, CHR 0x44, CHR 0x70, CHR 0x6C, CHR 0xE0, CHR 0xEC, CHR 0xF2, CHR 0x4B, CHR 0xC0, CHR 0x07, CHR
      0x68, CHR 0x80, CHR 0x3D, CHR 0x78, CHR 0x50, CHR 0x1F, CHR 0x65, CHR 0x49, CHR 0x46, CHR 0x73, CHR 0xEE, CHR 0xBC, CHR 0xA9]"
  unfolding sha256_def bank2_inner_blocks foldl.simps bank2_block1 bank2_block2 by code_simp

lemma bank2_outer_blocks: "blocks_of (words_of (sha_pad (map (xor_byte 92) (hmac_key ''s2|p'') @ [CHR 0x4F, CHR 0xBF, CHR 0x21, CHR 0xEE, CHR 0xE8,
      CHR 0x95, CHR 0x58, CHR 0xC3, CHR 0xDB, CHR 0x7A, CHR 0x44, CHR 0x70, CHR 0x6C, CHR 0xE0, CHR 0xEC, CHR 0xF2, CHR 0x4B, CHR 0xC0, CHR 0x07, CHR
      0x68, CHR 0x80, CHR 0x3D, CHR 0x78, CHR 0x50, CHR 0x1F, CHR 0x65, CHR 0x49, CHR 0x46, CHR 0x73, CHR 0xEE, CHR 0xBC, CHR 0xA9]))) = [[795746348,
      1549556828, 1549556828, 1549556828, 1549556828, 1549556828, 1549556828, 1549556828, 1549556828, 1549556828, 1549556828, 1549556828, 1549556828,
      1549556828, 1549556828, 1549556828], [1337926126, 3902101699, 3682223216, 1826680050, 1270876008, 2151512144, 526731590, 1945025705, 2147483648,
      0, 0, 0, 0, 0, 0, 768]]"
  by code_simp

lemma bank2_mac: "hex_encode (hmac_sha256 ''s2|p'' ''v3|id|22345678901'') = ''f48dea1a5ca3f639c6901946d9f7b130dcdde0a6ff6f51097333701c4af0be37''"
  unfolding hmac_sha256_def bank2_inner unfolding sha256_def bank2_outer_blocks foldl.simps bank2_block3 bank2_block4 by code_simp


end
