(* ===== verification/Privacy.thy ===== *)
theory Privacy
  imports Processor ShaEval
begin

text \<open>
  What a signal discloses. The laws of \<^verbatim>\<open>AnonymizeSignal\<close> about a pair of inputs:
  which parts of the raw record the outgoing record depends on, when two mosaics or signal ids
  agree, and the closed vocabularies of the coarse fields.
\<close>

section \<open>Domain separation\<close>

text \<open>The prefixes under which values are fed to the MAC.\<close>

definition domain_tags :: "string list" where
  "domain_tags = [''v3|id|'', ''v3|local|'', ''v2|sigid|'', ''v3|account|'', ''v3|device|'', ''v3|ip|'']"

lemma domain_tags_prefix_free:
  "t \<in> set domain_tags \<Longrightarrow> u \<in> set domain_tags \<Longrightarrow> t @ x = u @ y \<Longrightarrow> t = u \<and> x = y"
  by (auto simp: domain_tags_def)

section \<open>Selectors of the outgoing record\<close>

lemma national_mosaic_eq:
  "national_mosaic salt pepper keying n =
    (if keying = KeyingRegional then (HMACHash pepper (''v3|id|'' @ n), ScopeRegional)
     else (HMACHash (mosaicKeyMaterial salt pepper) (''v3|id|'' @ n), ScopeBank))"
  by (simp add: national_mosaic_def)

lemma AnonymizeSignal_fields:
  "SignalID (AnonymizeSignal raw inst salt pepper keying thr fb) = signal_id raw salt fb"
  "IdentityMosaic (AnonymizeSignal raw inst salt pepper keying thr fb) = fst (identity_mosaic raw salt pepper keying)"
  "MosaicScope (AnonymizeSignal raw inst salt pepper keying thr fb) = fst (snd (identity_mosaic raw salt pepper keying))"
  "MosaicBasis (AnonymizeSignal raw inst salt pepper keying thr fb) = snd (snd (identity_mosaic raw salt pepper keying))"
  "DestinationMosaic (AnonymizeSignal raw inst salt pepper keying thr fb) = fst (destination_mosaic raw salt pepper keying)"
  "DestinationMosaicScope (AnonymizeSignal raw inst salt pepper keying thr fb) = fst (snd (destination_mosaic raw salt pepper keying))"
  "DestinationMosaicBasis (AnonymizeSignal raw inst salt pepper keying thr fb) = snd (snd (destination_mosaic raw salt pepper keying))"
  "OutSignalType (AnonymizeSignal raw inst salt pepper keying thr fb) = (if SignalType raw = [] then ''transaction'' else SignalType raw)"
  "OutTimestamp (AnonymizeSignal raw inst salt pepper keying thr fb) = BucketTimestamp (Timestamp raw)"
  "Metadata (AnonymizeSignal raw inst salt pepper keying thr fb) = metadata raw salt thr"
  by (simp_all add: AnonymizeSignal_def split: prod.split)

lemma national_identity:
  assumes "NormalizeID (NationalID raw) \<noteq> []"
  shows "identity_mosaic raw salt pepper keying =
    (let m = national_mosaic salt pepper keying (NormalizeID (NationalID raw)) in (fst m, snd m, BasisNationalID))"
  using assms by (simp add: identity_mosaic_def Let_def split: prod.split)

lemma local_identity:
  assumes "NormalizeID (NationalID raw) = []"
  shows "identity_mosaic raw salt pepper keying =
    (HMACHash (mosaicKeyMaterial salt pepper) (local_message (ID raw) (Name raw)), ScopeBank, BasisInternalIDFallback)"
  using assms by (simp add: identity_mosaic_def)

section \<open>What the signal depends on\<close>

text \<open>
  The coarse view of a record: the classes the derived features map it to, and the exact values
  that go through the MAC or, for a caller-supplied hash, branch and type, straight to the output.
\<close>

datatype person = Canonical bytes | Local bytes bytes

definition person_of :: "RawData \<Rightarrow> person" where
  "person_of r =
     (if NormalizeID (NationalID r) \<noteq> [] then Canonical (NormalizeID (NationalID r))
      else Local (NormalizeID (ID r)) (NormalizeName (Name r)))"

datatype counterparty = NoCounterparty | CanonicalParty bytes | LocalParty bytes

definition counterparty_of :: "RawData \<Rightarrow> counterparty" where
  "counterparty_of r =
     (if NormalizeID (CounterpartyNationalID r) \<noteq> [] then CanonicalParty (NormalizeID (CounterpartyNationalID r))
      else if CounterpartyID r \<noteq> [] then LocalParty (NormalizeID (CounterpartyID r)) else NoCounterparty)"

definition zone_of :: "RawData \<Rightarrow> (int \<times> int) option" where
  "zone_of r =
     (case (Latitude r, Longitude r) of
        (Some (Fin x), Some (Fin y)) \<Rightarrow> if in_box x y then Some (lat_cell 12 x, lon_cell 13 y) else None
      | _ \<Rightarrow> None)"

definition window_of :: "RawData \<Rightarrow> int option" where
  "window_of r = map_option (\<lambda>t. t div BucketWidth) (parse_rfc3339nano (Timestamp r))"

definition supplied_or :: "bytes \<Rightarrow> bytes \<Rightarrow> bytes + bytes" where
  "supplied_or supplied raw_value = (if supplied \<noteq> [] then Inl supplied else Inr raw_value)"

record disclosure =
  d_person :: person
  d_counterparty :: counterparty
  d_tier :: nat
  d_near :: bool
  d_zone :: "(int \<times> int) option"
  d_window :: "int option"
  d_ref :: bytes
  d_account :: bytes
  d_device :: "bytes + bytes"
  d_ip :: "bytes + bytes"
  d_branch :: bytes
  d_type :: bytes
  d_endpoint :: bytes

definition disclosure_of :: "f64 \<Rightarrow> RawData \<Rightarrow> disclosure" where
  "disclosure_of thr r =
    \<lparr>d_person = person_of r, d_counterparty = counterparty_of r, d_tier = tier_no (Amount r),
     d_near = near_threshold thr (Amount r), d_zone = zone_of r, d_window = window_of r,
     d_ref = trim_space (TransactionRef r), d_account = Account r,
     d_device = supplied_or (DeviceIDHash r) (DeviceID r), d_ip = supplied_or (IPHash r) (IP r),
     d_branch = BranchID r, d_type = SignalType r, d_endpoint = EndpointType r\<rparr>"

lemma identity_mosaic_cong:
  "person_of r = person_of r' \<Longrightarrow> identity_mosaic r s p k = identity_mosaic r' s p k"
  by (simp add: person_of_def identity_mosaic_def local_message_def Let_def split: if_splits)

lemma destination_mosaic_cong:
  "counterparty_of r = counterparty_of r' \<Longrightarrow> destination_mosaic r s p k = destination_mosaic r' s p k"
  by (simp add: counterparty_of_def destination_mosaic_def Let_def split: if_splits)

lemma Geohash_out: "\<not> geo_in_range lat lon \<Longrightarrow> Geohash lat lon p = ''ZONE_UNKNOWN''"
  by (simp add: Geohash_def)

lemma Geohash_5: "in_box x y \<Longrightarrow> Geohash (Fin x) (Fin y) GeohashPrecision = grid_hash x y 5"
  using Geohash_grid [of x y 5] by (simp add: GeohashPrecision_def)

lemma Geohash_not_in_box:
  "\<not> (\<exists>x y. lat = Fin x \<and> lon = Fin y \<and> in_box x y) \<Longrightarrow> Geohash lat lon p = ''ZONE_UNKNOWN''"
  using Geohash_out by (simp add: geo_in_range_iff)

lemma zone_None: "zone_of r = None \<Longrightarrow> location_zone r = ''ZONE_UNKNOWN''"
  by (auto simp: zone_of_def location_zone_def intro!: Geohash_not_in_box
      split: option.splits f64.splits if_splits)

lemma zone_Some: "zone_of r = Some c \<Longrightarrow>
  \<exists>x y. in_box x y \<and> c = (lat_cell 12 x, lon_cell 13 y) \<and> location_zone r = grid_hash x y 5"
  by (auto simp: zone_of_def location_zone_def Geohash_5 split: option.splits f64.splits if_splits)

lemma location_zone_cong: "zone_of r = zone_of r' \<Longrightarrow> location_zone r = location_zone r'"
proof (cases "zone_of r")
  case None
  moreover assume "zone_of r = zone_of r'"
  ultimately show ?thesis by (simp add: zone_None)
next
  case (Some c)
  moreover assume "zone_of r = zone_of r'"
  ultimately obtain x y x' y' where b: "in_box x y" "in_box x' y'" and c: "c = (lat_cell 12 x, lon_cell 13 y)"
      "c = (lat_cell 12 x', lon_cell 13 y')"
    and z: "location_zone r = grid_hash x y 5" "location_zone r' = grid_hash x' y' 5"
    using zone_Some [of r c] zone_Some [of r' c] by auto
  from grid_hash_cells [OF b, of 5] c show ?thesis by (simp add: z)
qed

lemma BucketTimestamp_cong: "window_of r = window_of r' \<Longrightarrow> BucketTimestamp (Timestamp r) = BucketTimestamp (Timestamp r')"
  by (cases "parse_rfc3339nano (Timestamp r)"; cases "parse_rfc3339nano (Timestamp r')")
    (auto simp: window_of_def BucketTimestamp_Some bucket_of_def BucketTimestamp_def [where ts = "Timestamp r"]
      BucketTimestamp_def [where ts = "Timestamp r'"] truncate_bucket)

lemma hash_field_cong:
  "supplied_or s v = supplied_or s' v' \<Longrightarrow> hash_field salt tag s v = hash_field salt tag s' v'"
  by (auto simp: supplied_or_def hash_field_def split: if_splits)

lemma metadata_cong:
  assumes "disclosure_of thr r = disclosure_of thr r'"
  shows "metadata r salt thr = metadata r' salt thr"
proof -
  have "MapToTier (Amount r) = MapToTier (Amount r')" "location_zone r = location_zone r'"
    "hash_field salt ''v3|ip|'' (IPHash r) (IP r) = hash_field salt ''v3|ip|'' (IPHash r') (IP r')"
    "hash_field salt ''v3|device|'' (DeviceIDHash r) (DeviceID r) = hash_field salt ''v3|device|'' (DeviceIDHash r') (DeviceID r')"
    "Account r = Account r'" "near_threshold thr (Amount r) = near_threshold thr (Amount r')"
    "BranchID r = BranchID r'" "EndpointType r = EndpointType r'"
    using assms by (auto simp: disclosure_of_def MapToTier_no intro: location_zone_cong hash_field_cong)
  then show ?thesis by (simp add: metadata_def)
qed

lemma AnonymizeSignal_cong:
  assumes "disclosure_of thr r = disclosure_of thr r'"
  shows "AnonymizeSignal r inst salt pepper keying thr fb = AnonymizeSignal r' inst salt pepper keying thr fb"
proof -
  have "identity_mosaic r salt pepper keying = identity_mosaic r' salt pepper keying"
    "destination_mosaic r salt pepper keying = destination_mosaic r' salt pepper keying"
    "BucketTimestamp (Timestamp r) = BucketTimestamp (Timestamp r')"
    "SignalType r = SignalType r'" "trim_space (TransactionRef r) = trim_space (TransactionRef r')"
    using assms by (auto simp: disclosure_of_def intro: identity_mosaic_cong destination_mosaic_cong BucketTimestamp_cong)
  then show ?thesis
    by (simp add: AnonymizeSignal_def metadata_cong [OF assms] signal_id_def NeedsFallbackSignalID_def signal_id_message_def)
qed

section \<open>When two mosaics agree\<close>

text \<open>The key and the message of a person's mosaic.\<close>

definition identity_key :: "RawData \<Rightarrow> bytes \<Rightarrow> bytes \<Rightarrow> bytes \<Rightarrow> bytes" where
  "identity_key r salt pepper keying =
     (if NormalizeID (NationalID r) \<noteq> [] \<and> keying = KeyingRegional then pepper
      else mosaicKeyMaterial salt pepper)"

definition identity_message :: "RawData \<Rightarrow> bytes" where
  "identity_message r =
     (if NormalizeID (NationalID r) \<noteq> [] then ''v3|id|'' @ NormalizeID (NationalID r)
      else local_message (ID r) (Name r))"

lemma identity_mosaic_mac:
  "fst (identity_mosaic r salt pepper keying) = HMACHash (identity_key r salt pepper keying) (identity_message r)"
  by (simp add: identity_mosaic_def identity_key_def identity_message_def national_mosaic_def Let_def)

text \<open>
  \<open>mac_separates\<close> is the assumption on the MAC at the pairs in question: it gives them
  different values when they differ.
\<close>

definition mac_separates :: "bytes \<times> bytes \<Rightarrow> bytes \<times> bytes \<Rightarrow> bool" where
  "mac_separates p q \<longleftrightarrow> (HMACHash (fst p) (snd p) = HMACHash (fst q) (snd q) \<longrightarrow> p = q)"

lemma local_message_inj:
  assumes "CHR ''|'' \<notin> set (NormalizeID i)" "CHR ''|'' \<notin> set (NormalizeID j)"
    and "local_message i m = local_message j n"
  shows "NormalizeID i = NormalizeID j \<and> NormalizeName m = NormalizeName n"
  using assms delimited_inj [OF assms(1,2)] by (simp add: local_message_def)

lemma identity_message_person:
  assumes "CHR ''|'' \<notin> set (NormalizeID (ID r))" "CHR ''|'' \<notin> set (NormalizeID (ID r'))"
  shows "identity_message r = identity_message r' \<longleftrightarrow> person_of r = person_of r'"
proof
  assume "identity_message r = identity_message r'"
  then show "person_of r = person_of r'"
    using local_message_inj [OF assms]
    by (auto simp: identity_message_def person_of_def split: if_splits) (simp_all add: local_message_def)
next
  assume "person_of r = person_of r'"
  then show "identity_message r = identity_message r'"
    by (simp add: identity_message_def person_of_def local_message_def split: if_splits)
qed

section \<open>Properties\<close>

definition sample :: RawData where
  "sample = \<lparr>ID = ''cust-77'', Name = ''Ngozi  Adeyemi'', NationalID = ''2234-5678 901'',
     Account = ''0123456789'', Amount = Fin 9600, Latitude = Some (Fin (13 / 2)), Longitude = Some (Fin (27 / 8)),
     Timestamp = ''2026-01-15T14:07:33+01:00'', DeviceID = ''dev1'', DeviceIDHash = [], IP = ''10.0.0.1'',
     IPHash = [], BranchID = ''LAG-01'', SignalType = ''Transfer'', EndpointType = ''ussd'',
     CounterpartyID = [], CounterpartyNationalID = ''223.456.78901'', TransactionRef = ''TX-001''\<rparr>"

text \<open>C12. \<^verbatim>\<open>AnonymizeSignal\<close> depends on the raw record only through its disclosure: the
  normalised national identifier (or, without one, the normalised local identity), the amount tier and
  the near-threshold flag, the geohash cell, the 15-minute window, the counterparty, and the fields
  that pass through a MAC or verbatim. Records with the same disclosure give the same signal, so name,
  internal id, exact amount, exact place, exact time and the spelling of identifiers do not show.\<close>

theorem signal_depends_on_disclosure:
  assumes "disclosure_of thr r = disclosure_of thr r'"
  shows "AnonymizeSignal r inst salt pepper keying thr fb = AnonymizeSignal r' inst salt pepper keying thr fb"
  using assms by (rule AnonymizeSignal_cong)

lemma signal_depends_on_disclosure_witness:
  "AnonymizeSignal sample ''BNK'' ''salt'' ''pepper'' KeyingBank (Fin 10000) [] =
   AnonymizeSignal (sample\<lparr>ID := ''other'', Name := ''X'', NationalID := ''22345678901'', Amount := Fin 9999,
     Latitude := Some (Fin (649 / 100)), Timestamp := ''2026-01-15T13:00:00Z''\<rparr>)
     ''BNK'' ''salt'' ''pepper'' KeyingBank (Fin 10000) []"
proof (rule signal_depends_on_disclosure)
  show "disclosure_of (Fin 10000) sample = disclosure_of (Fin 10000)
    (sample\<lparr>ID := ''other'', Name := ''X'', NationalID := ''22345678901'', Amount := Fin 9999,
     Latitude := Some (Fin (649 / 100)), Timestamp := ''2026-01-15T13:00:00Z''\<rparr>)"
    by code_simp
qed

text \<open>C32. Under bank keying two identity mosaics are equal exactly when institution secret, pepper and
  normalised person are all equal, so a mosaic never matches across banks. This is given that HMAC-SHA-256 does not
  collide on the two pairs of key and message, and that the delimiter | occurs in neither salt and in neither normalised
  internal id (without that: \<open>local_mosaic_boundary_collision\<close>).\<close>

theorem bank_mosaic_matches_exactly:
  assumes "keying \<noteq> KeyingRegional" "CHR ''|'' \<notin> set salt" "CHR ''|'' \<notin> set salt'"
    and "CHR ''|'' \<notin> set (NormalizeID (ID r))" "CHR ''|'' \<notin> set (NormalizeID (ID r'))"
    and "mac_separates (identity_key r salt pepper keying, identity_message r)
          (identity_key r' salt' pepper' keying, identity_message r')"
  shows "IdentityMosaic (AnonymizeSignal r inst salt pepper keying thr fb) =
      IdentityMosaic (AnonymizeSignal r' inst' salt' pepper' keying thr' fb') \<longleftrightarrow>
    salt = salt' \<and> pepper = pepper' \<and> person_of r = person_of r'"
  unfolding AnonymizeSignal_fields identity_mosaic_mac
  using assms(1,6) identity_message_person [OF assms(4,5)] mosaicKeyMaterial_inj [OF assms(2,3), of pepper pepper']
  by (auto simp: mac_separates_def identity_key_def)

text \<open>One customer at two banks that share a pepper: the two MACs are computed.\<close>

lemma bank_mosaic_matches_exactly_witness:
  "IdentityMosaic (AnonymizeSignal sample ''A'' ''s1'' ''p'' KeyingBank NaN [])
     \<noteq> IdentityMosaic (AnonymizeSignal sample ''B'' ''s2'' ''p'' KeyingBank NaN [])"
proof -
  have m: "identity_message sample = ''v3|id|22345678901''" by code_simp
  have k: "identity_key sample ''s1'' ''p'' KeyingBank = ''s1|p''" "identity_key sample ''s2'' ''p'' KeyingBank = ''s2|p''"
    by code_simp+
  have sep: "mac_separates (identity_key sample ''s1'' ''p'' KeyingBank, identity_message sample)
      (identity_key sample ''s2'' ''p'' KeyingBank, identity_message sample)"
    unfolding m k mac_separates_def HMACHash_def fst_conv snd_conv bank1_mac bank2_mac by simp
  have "KeyingBank \<noteq> KeyingRegional" "CHR ''|'' \<notin> set (''s1'' :: bytes)" "CHR ''|'' \<notin> set (''s2'' :: bytes)"
    "CHR ''|'' \<notin> set (NormalizeID (ID sample))" by code_simp+
  from bank_mosaic_matches_exactly [OF this(1-3) this(4) this(4) sep] show ?thesis by simp
qed

text \<open>Under regional keying two gateways with different salts give the same person the same
  identity mosaic exactly when they share the pepper: the mosaics of two records with national
  identifiers agree exactly when pepper and normalised identifier do, whatever the salts.\<close>

theorem regional_mosaic_matches_exactly:
  assumes "NormalizeID (NationalID r) \<noteq> []" "NormalizeID (NationalID r') \<noteq> []"
    and "mac_separates (pepper, identity_message r) (pepper', identity_message r')"
  shows "IdentityMosaic (AnonymizeSignal r inst salt pepper KeyingRegional thr fb) =
      IdentityMosaic (AnonymizeSignal r' inst' salt' pepper' KeyingRegional thr' fb') \<longleftrightarrow>
    pepper = pepper' \<and> NormalizeID (NationalID r) = NormalizeID (NationalID r')"
  unfolding AnonymizeSignal_fields identity_mosaic_mac
  using assms by (auto simp: mac_separates_def identity_key_def identity_message_def)

lemma regional_mosaic_matches_exactly_witness:
  "IdentityMosaic (AnonymizeSignal sample ''A'' ''s1'' ''p'' KeyingRegional NaN []) =
      IdentityMosaic (AnonymizeSignal (sample\<lparr>NationalID := ''22345678901''\<rparr>) ''B'' ''s2'' ''p'' KeyingRegional NaN []) \<longleftrightarrow>
    ''p'' = ''p'' \<and> NormalizeID (NationalID sample) = NormalizeID (NationalID (sample\<lparr>NationalID := ''22345678901''\<rparr>))"
proof (rule regional_mosaic_matches_exactly)
  have "identity_message sample = identity_message (sample\<lparr>NationalID := ''22345678901''\<rparr>)" by code_simp
  then show "mac_separates (''p'', identity_message sample) (''p'', identity_message (sample\<lparr>NationalID := ''22345678901''\<rparr>))"
    by (simp add: mac_separates_def)
qed code_simp+

text \<open>C33. Route following: the destination mosaic a payer's record derives for a counterparty is the identity
  mosaic that counterparty gets when transacting itself, with the same scope and basis, whatever the spelling of the
  identifier. This holds when both records give a national identifier that is the same and not empty after
  normalisation, under the same pepper and keying, and under one institution's salt or regional keying. It does not hold
  for a counterparty known by its id only, nor under bank keying across institutions with different salts.\<close>

theorem destination_matches_identity:
  assumes "NormalizeID (CounterpartyNationalID a) = NormalizeID (NationalID b)" "NormalizeID (NationalID b) \<noteq> []"
    and "salt = salt' \<or> keying = KeyingRegional"
  shows "DestinationMosaic (AnonymizeSignal a inst salt pepper keying thr fb) =
      IdentityMosaic (AnonymizeSignal b inst' salt' pepper keying thr' fb')
    \<and> DestinationMosaicScope (AnonymizeSignal a inst salt pepper keying thr fb) =
      MosaicScope (AnonymizeSignal b inst' salt' pepper keying thr' fb')
    \<and> DestinationMosaicBasis (AnonymizeSignal a inst salt pepper keying thr fb) =
      MosaicBasis (AnonymizeSignal b inst' salt' pepper keying thr' fb')"
  unfolding AnonymizeSignal_fields
  using assms by (auto simp: identity_mosaic_def destination_mosaic_def national_mosaic_def Let_def)

lemma destination_matches_identity_witness:
  "DestinationMosaic (AnonymizeSignal sample ''A'' ''s1'' ''p'' KeyingRegional NaN []) =
      IdentityMosaic (AnonymizeSignal sample ''B'' ''s2'' ''p'' KeyingRegional NaN [])
    \<and> DestinationMosaicScope (AnonymizeSignal sample ''A'' ''s1'' ''p'' KeyingRegional NaN []) =
      MosaicScope (AnonymizeSignal sample ''B'' ''s2'' ''p'' KeyingRegional NaN [])
    \<and> DestinationMosaicBasis (AnonymizeSignal sample ''A'' ''s1'' ''p'' KeyingRegional NaN []) =
      MosaicBasis (AnonymizeSignal sample ''B'' ''s2'' ''p'' KeyingRegional NaN [])"
  by (rule destination_matches_identity) code_simp+

text \<open>Signal ids of supplied references are deterministic and distinct: two records with non-blank
  references get the same signal id exactly when salt and trimmed reference agree byte for byte
  (the MAC separating the two), whatever the fallback ids are.\<close>

theorem signal_id_matches_exactly:
  assumes "\<not> NeedsFallbackSignalID (TransactionRef r)" "\<not> NeedsFallbackSignalID (TransactionRef r')"
    and "mac_separates (salt, signal_id_message (TransactionRef r)) (salt', signal_id_message (TransactionRef r'))"
  shows "SignalID (AnonymizeSignal r inst salt pepper keying thr fb) =
      SignalID (AnonymizeSignal r' inst' salt' pepper' keying' thr' fb') \<longleftrightarrow>
    salt = salt' \<and> trim_space (TransactionRef r) = trim_space (TransactionRef r')"
  unfolding AnonymizeSignal_fields
  using assms by (auto simp: signal_id_def signal_id_message_def mac_separates_def)

lemma signal_id_matches_exactly_witness:
  "SignalID (AnonymizeSignal sample ''A'' ''s'' ''p'' KeyingBank NaN []) =
      SignalID (AnonymizeSignal (sample\<lparr>TransactionRef := '' TX-001 ''\<rparr>) ''B'' ''s'' ''q'' KeyingBank NaN ''zz'') \<longleftrightarrow>
    ''s'' = ''s'' \<and> trim_space (TransactionRef sample) = trim_space (TransactionRef (sample\<lparr>TransactionRef := '' TX-001 ''\<rparr>))"
proof (rule signal_id_matches_exactly)
  have "signal_id_message (TransactionRef sample) = signal_id_message (TransactionRef (sample\<lparr>TransactionRef := '' TX-001 ''\<rparr>))"
    by code_simp
  then show "mac_separates (''s'', signal_id_message (TransactionRef sample))
     (''s'', signal_id_message (TransactionRef (sample\<lparr>TransactionRef := '' TX-001 ''\<rparr>)))"
    by (simp add: mac_separates_def)
qed code_simp+

text \<open>The signal id is never blank: it is a 64-digit MAC for a supplied reference, the caller's
  fallback id when that is not blank, and the loud sentinel otherwise.\<close>

theorem signal_id_never_blank:
  "trim_space (SignalID (AnonymizeSignal r inst salt pepper keying thr fb)) \<noteq> []
   \<and> SignalID (AnonymizeSignal r inst salt pepper keying thr fb) \<in>
        (if NeedsFallbackSignalID (TransactionRef r) then {fb, MissingSignalIDSentinel}
         else range (HMACHash salt))"
proof -
  have hex: "\<not> is_space (byte_val c) \<and> byte_val c < 128" if "is_hex c" for c
    using that by (auto simp: is_hex_def is_digit_def byte_val_def is_space_def in_ranges_def space_ranges_def)
  have mac: "trim_space (HMACHash k m) \<noteq> []" for k m
  proof -
    from HMACHash_hex [of k m] have "list_all (\<lambda>c. \<not> is_space (byte_val c) \<and> byte_val c < 128) (HMACHash k m)"
      by (auto simp: list_all_iff dest: hex)
    then have "trim_space (HMACHash k m) = HMACHash k m"
      by (intro trim_space_ascii_none) (auto simp: ascii_def list_all_iff)
    then show ?thesis by simp
  qed
  moreover have "trim_space MissingSignalIDSentinel \<noteq> []" by code_simp
  ultimately show ?thesis unfolding AnonymizeSignal_fields by (auto simp: signal_id_def)
qed

text \<open>C37. The delimiter does not keep the local identity's fields apart: \<^verbatim>\<open>NormalizeID\<close> and
  \<^verbatim>\<open>NormalizeName\<close> keep \<^verbatim>\<open>|\<close>, so two different customers, both accepted by
  \<^verbatim>\<open>Validate\<close>, get one mosaic under every salt and pepper.\<close>

theorem local_mosaic_boundary_collision:
  "\<exists>r r'. fst (Validate quote r) = None \<and> fst (Validate quote r') = None \<and> person_of r \<noteq> person_of r'
    \<and> (\<forall>inst salt pepper keying thr fb.
         IdentityMosaic (AnonymizeSignal r inst salt pepper keying thr fb) =
         IdentityMosaic (AnonymizeSignal r' inst salt pepper keying thr fb))"
proof -
  let ?r = "sample\<lparr>NationalID := [], ID := ''A|B'', Name := ''C''\<rparr>"
  let ?r' = "sample\<lparr>NationalID := [], ID := ''A'', Name := ''B|C''\<rparr>"
  have ok: "first_failing (field_checks ?r) = None" "first_failing (field_checks ?r') = None" by code_simp+
  have "fst (Validate quote ?r) = None" "fst (Validate quote ?r') = None"
    using Validate_field [of quote ?r] Validate_field [of quote ?r'] ok by simp_all
  moreover have "person_of ?r \<noteq> person_of ?r'" by code_simp
  moreover have "identity_message ?r = identity_message ?r'" by code_simp
  moreover have n: "NormalizeID (NationalID ?r) = []" "NormalizeID (NationalID ?r') = []" by code_simp+
  ultimately show ?thesis
    by (intro exI [of _ ?r] exI [of _ ?r']) (simp add: AnonymizeSignal_fields identity_mosaic_mac identity_key_def)
qed

section \<open>Validation\<close>

text \<open>C34. \<^verbatim>\<open>Validate\<close> reports the first check that fails, in the order of the code, by the
  name of its field, and accepts a record exactly when all eleven checks hold; an accepted record is
  rewritten to the canonical spelling of its two types and otherwise unchanged.\<close>

theorem Validate_first_failure:
  "map_option field_of (fst (Validate quote r)) = first_failing (field_checks r)
   \<and> (if list_all snd (field_checks r) then Validate quote r = (None, canonical r)
      else fst (Validate quote r) \<noteq> None)"
proof -
  have "fst (Validate quote r) = None \<longleftrightarrow> list_all snd (field_checks r)"
    using Validate_field [of quote r] first_failing_None [of "field_checks r"] by auto
  then show ?thesis
    using Validate_field [of quote r] Validate_canonical [of quote r] by (auto simp: prod_eq_iff)
qed

lemma accepted_checks:
  assumes "Validate quote raw = (None, r)"
  shows "list_all snd (field_checks raw)" "r = canonical raw"
  using assms Validate_field [of quote raw] first_failing_None [of "field_checks raw"]
    Validate_canonical [of quote raw] by auto

lemma length_grid_hash [simp]: "length (grid_hash x y p) = p"
  by (simp add: grid_hash_def)

lemma BucketTimestamp_known:
  assumes "parse_rfc3339nano ts \<noteq> None"
  shows "BucketTimestamp ts \<noteq> ''TIME_UNKNOWN''"
proof -
  from assms obtain t where "parse_rfc3339nano ts = Some t" by auto
  then have "last (BucketTimestamp ts) = CHR ''Z''" by (simp add: BucketTimestamp_Some format_rfc3339_def)
  then show ?thesis by auto
qed

lemma to_lower_types: "s \<in> set ValidSignalTypes \<Longrightarrow> s \<noteq> []"
  by (auto simp: ValidSignalTypes_def)

lemma metadata_endpoint: "metadata raw salt thr ''endpoint_type'' = nonempty (EndpointType raw)"
  by (auto simp: metadata_def put_def nonempty_def hash_field_def)

lemma metadata_zone: "metadata raw salt thr ''location_zone'' = Some (MStr (location_zone raw))"
  by (auto simp: metadata_def put_def nonempty_def hash_field_def)

lemma metadata_tier: "metadata raw salt thr ''amount_tier'' = Some (MStr (MapToTier (Amount raw)))"
  by (auto simp: metadata_def put_def nonempty_def hash_field_def)

lemma location_zone_known:
  assumes "list_all snd (coordinate_checks raw)"
  shows "location_zone raw = ''ZONE_UNKNOWN'' \<longleftrightarrow> Latitude raw = None"
proof (cases "Latitude raw")
  case None
  then show ?thesis by (simp add: location_zone_def)
next
  case (Some lat)
  with assms obtain lon where lon: "Longitude raw = Some lon" by (auto simp: coordinate_checks_def)
  from assms Some lon have "coordinate_ok 90 lat" "coordinate_ok 180 lon" by (simp_all add: coordinate_checks_def)
  then obtain x y where xy: "lat = Fin x" "lon = Fin y" "in_box x y"
    by (cases lat; cases lon) (auto simp: coordinate_ok_def in_box_def)
  then have "location_zone raw = grid_hash x y 5" using Some lon by (simp add: location_zone_def Geohash_5)
  then have "length (location_zone raw) = 5" by simp
  then have "location_zone raw \<noteq> ''ZONE_UNKNOWN''" by auto
  with Some show ?thesis by simp
qed

lemma validated_signal_parts:
  assumes "Validate quote raw = (None, r)"
  shows "OutSignalType (AnonymizeSignal r inst salt pepper keying thr fb) \<in> set ValidSignalTypes"
    "Metadata (AnonymizeSignal r inst salt pepper keying thr fb) ''endpoint_type'' \<in> insert None ((Some \<circ> MStr) ` set ValidEndpointTypes)"
    "Metadata (AnonymizeSignal r inst salt pepper keying thr fb) ''amount_tier'' \<in> (Some \<circ> MStr) ` {''TIER_1'', ''TIER_2'', ''TIER_3'', ''TIER_4''}"
    "OutTimestamp (AnonymizeSignal r inst salt pepper keying thr fb) \<noteq> ''TIME_UNKNOWN''"
    "Metadata (AnonymizeSignal r inst salt pepper keying thr fb) ''location_zone'' = Some (MStr ''ZONE_UNKNOWN'') \<longleftrightarrow> Latitude raw = None"
proof -
  note c = accepted_checks [OF assms]
  have opt: "list_all snd (optional_checks raw)" and req: "list_all snd (required_checks raw)"
    and coord: "list_all snd (coordinate_checks raw)"
    using c(1) by (auto simp: field_checks_def)
  have sel: "SignalType r = str_to_lower (SignalType raw)" "EndpointType r = str_to_upper (EndpointType raw)"
    "Timestamp r = Timestamp raw" "location_zone r = location_zone raw"
    by (simp_all add: c(2) canonical_def location_zone_def)
  show "OutSignalType (AnonymizeSignal r inst salt pepper keying thr fb) \<in> set ValidSignalTypes"
    using opt unfolding AnonymizeSignal_fields sel
    by (cases "SignalType raw = []") (auto simp: optional_checks_def ValidSignalTypes_def)
  show "Metadata (AnonymizeSignal r inst salt pepper keying thr fb) ''endpoint_type'' \<in> insert None ((Some \<circ> MStr) ` set ValidEndpointTypes)"
    using opt unfolding AnonymizeSignal_fields metadata_endpoint sel
    by (cases "EndpointType raw = []") (auto simp: optional_checks_def nonempty_def)
  show "Metadata (AnonymizeSignal r inst salt pepper keying thr fb) ''amount_tier'' \<in> (Some \<circ> MStr) ` {''TIER_1'', ''TIER_2'', ''TIER_3'', ''TIER_4''}"
    unfolding AnonymizeSignal_fields metadata_tier by (simp add: MapToTier_def)
  show "OutTimestamp (AnonymizeSignal r inst salt pepper keying thr fb) \<noteq> ''TIME_UNKNOWN''"
    using req unfolding AnonymizeSignal_fields sel
    by (intro BucketTimestamp_known) (simp add: required_checks_def)
  show "Metadata (AnonymizeSignal r inst salt pepper keying thr fb) ''location_zone'' = Some (MStr ''ZONE_UNKNOWN'') \<longleftrightarrow> Latitude raw = None"
    unfolding AnonymizeSignal_fields metadata_zone sel using location_zone_known [OF coord] by simp
qed

text \<open>A signal built from an accepted record has only values of the closed vocabularies in its
  coarse fields: an allowed signal type and endpoint type, one of four tiers, a known time bucket, and
  an unknown zone exactly when no location was given.\<close>

theorem validated_signal_vocabulary:
  assumes "Validate quote raw = (None, r)"
  shows "OutSignalType (AnonymizeSignal r inst salt pepper keying thr fb) \<in> set ValidSignalTypes
    \<and> Metadata (AnonymizeSignal r inst salt pepper keying thr fb) ''endpoint_type'' \<in> insert None ((Some \<circ> MStr) ` set ValidEndpointTypes)
    \<and> Metadata (AnonymizeSignal r inst salt pepper keying thr fb) ''amount_tier'' \<in> (Some \<circ> MStr) ` {''TIER_1'', ''TIER_2'', ''TIER_3'', ''TIER_4''}
    \<and> OutTimestamp (AnonymizeSignal r inst salt pepper keying thr fb) \<noteq> ''TIME_UNKNOWN''
    \<and> (Metadata (AnonymizeSignal r inst salt pepper keying thr fb) ''location_zone'' = Some (MStr ''ZONE_UNKNOWN'') \<longleftrightarrow> Latitude raw = None)"
  by (intro conjI validated_signal_parts [OF assms])

lemma validated_signal_vocabulary_witness:
  "OutSignalType (AnonymizeSignal (canonical sample) [] ''s'' ''p'' KeyingBank NaN []) \<in> set ValidSignalTypes
    \<and> Metadata (AnonymizeSignal (canonical sample) [] ''s'' ''p'' KeyingBank NaN []) ''endpoint_type'' \<in> insert None ((Some \<circ> MStr) ` set ValidEndpointTypes)
    \<and> Metadata (AnonymizeSignal (canonical sample) [] ''s'' ''p'' KeyingBank NaN []) ''amount_tier'' \<in> (Some \<circ> MStr) ` {''TIER_1'', ''TIER_2'', ''TIER_3'', ''TIER_4''}
    \<and> OutTimestamp (AnonymizeSignal (canonical sample) [] ''s'' ''p'' KeyingBank NaN []) \<noteq> ''TIME_UNKNOWN''
    \<and> (Metadata (AnonymizeSignal (canonical sample) [] ''s'' ''p'' KeyingBank NaN []) ''location_zone'' = Some (MStr ''ZONE_UNKNOWN'') \<longleftrightarrow> Latitude sample = None)"
proof (rule validated_signal_vocabulary)
  show "Validate (\<lambda>s. s) sample = (None, canonical sample)" by code_simp
qed

text \<open>Scope and basis label the mosaic truthfully: regional exactly for a national identifier under
  regional keying, and the destination triple is present or absent as a whole.\<close>

theorem scope_and_basis:
  "MosaicScope (AnonymizeSignal r inst salt pepper keying thr fb) =
     (if NormalizeID (NationalID r) \<noteq> [] \<and> keying = KeyingRegional then ScopeRegional else ScopeBank)
   \<and> MosaicBasis (AnonymizeSignal r inst salt pepper keying thr fb) =
     (if NormalizeID (NationalID r) \<noteq> [] then BasisNationalID else BasisInternalIDFallback)
   \<and> (DestinationMosaic (AnonymizeSignal r inst salt pepper keying thr fb) = [] \<longleftrightarrow> counterparty_of r = NoCounterparty)
   \<and> (DestinationMosaicScope (AnonymizeSignal r inst salt pepper keying thr fb) = [] \<longleftrightarrow> counterparty_of r = NoCounterparty)
   \<and> (DestinationMosaicBasis (AnonymizeSignal r inst salt pepper keying thr fb) = [] \<longleftrightarrow> counterparty_of r = NoCounterparty)"
  unfolding AnonymizeSignal_fields
  by (auto simp: identity_mosaic_def destination_mosaic_def national_mosaic_def counterparty_of_def Let_def
      ScopeBank_def ScopeRegional_def BasisNationalID_def BasisInternalIDFallback_def)

end
