(* ===== verification/Logging.thy ===== *)
theory Logging
  imports Serving Privacy
begin

text \<open>
  The structured log of cmd/gateway/main.go and internal/config/config.go: what the start of the gateway
  and a request to \<^verbatim>\<open>/process\<close> write, line by line, with the attributes of each line. The
  functions follow the branches of the ones that act (theories \<open>Startup\<close> and \<open>Transaction\<close>); the line of the
  request log is in theory \<open>Middleware\<close>. The theory proves what the log, and everything else a request
  leaves behind, can reveal.
\<close>

section \<open>Lines\<close>

datatype level = Info | Warn | Error

datatype attr = Str bytes | Num int | Flag bool | Err goerr | Meta "meta_value option"

datatype slog = Slog level bytes "(string \<times> attr) list"

section \<open>The start\<close>

text \<open>The error of \<^verbatim>\<open>encoding/json\<close> for a file that does not parse is the library's: \<open>syntax\<close> gives it for
  the text of the file, which it may quote a character of.\<close>

definition config_log :: "(bytes \<Rightarrow> goerr) \<Rightarrow> (bytes \<Rightarrow> bytes option) \<Rightarrow> env \<Rightarrow> slog list" where
  "config_log syntax read_file env =
     (case read_file (config_path env) of
        None \<Rightarrow> []
      | Some text \<Rightarrow>
          (case decode_config text of
             Some _ \<Rightarrow> [Slog Info ''Loaded config defaults from file'' [(''path'', Str (config_path env))]]
           | None \<Rightarrow> [Slog Warn ''Failed to parse config file, ignoring'' [(''path'', Str (config_path env)), (''error'', Err (syntax text))]]))"

definition inbound_key_log :: "env \<Rightarrow> slog list" where
  "inbound_key_log env =
     (if env ''INBOUND_API_KEY'' = []
      then [Slog Warn ''INBOUND_API_KEY not set - /process accepts unauthenticated requests; set it in production'' []] else [])"

definition keying_log :: "GatewayConfig \<Rightarrow> bytes \<Rightarrow> slog list" where
  "keying_log cfg pep =
     [Slog Info
       (if MosaicKeying cfg = MosaicKeyingRegional then
          ''MOSAIC_KEYING=regional: identity/destination mosaics derived from a national ID are keyed on the ''
          @ ''shared pepper alone and are derivable cross-gateway by anyone holding it''
        else if pep = [] then
          ''MOSAIC_KEYING=bank (default): pepper not set, mosaics keyed by BANK_SALT alone - this is not a ''
          @ ''weakened mosaic, BANK_SALT is always folded in''
        else ''MOSAIC_KEYING=bank (default): pepper set, folded in alongside BANK_SALT as additional key material'') []]"

definition sink_log :: "GatewayConfig \<Rightarrow> env \<Rightarrow> slog list" where
  "sink_log cfg env =
     (if IsStandalone cfg
      then [Slog Info ''Standalone mode: signals are written locally, not forwarded anywhere'' [(''sink_dir'', Str (sink_dir env))]]
      else [])"

definition audit_log :: "GatewayConfig \<Rightarrow> env \<Rightarrow> slog list" where
  "audit_log cfg env =
     (case audit_config env of
        Some c \<Rightarrow> [Slog Info ''Egress audit log enabled''
          [(''dir'', Str (audit_dir c)), (''store_full_payload'', Flag (storePayload c)),
           (''destination'', Str (destination_name cfg env))]]
      | None \<Rightarrow> [Slog Warn (''EGRESS_AUDIT_DIR not set - confirmed deliveries are not durably recorded; an auditor cannot be ''
          @ ''shown what left the bank'') []])"

definition spool_log :: "GatewayConfig \<Rightarrow> env \<Rightarrow> Spool option \<Rightarrow> slog list" where
  "spool_log cfg env spool =
     (case (spool_config env, spool) of
        (Some c, Some s) \<Rightarrow>
          Slog Info ''Durable spool enabled''
            [(''dir'', Str (dir c)), (''max_depth'', Num (maxDepth c)), (''pending'', Num (Depth s)), (''fsync'', Flag (FsyncEnabled c))]
          # (if \<not> FsyncEnabled c
             then [Slog Warn (''SPOOL_FSYNC=false - a 202 Accepted no longer implies a signal survives host power loss, only a ''
                    @ ''process crash; see README's Durable spool section'') []] else [])
      | _ \<Rightarrow>
          [Slog Warn
            (if IsStandalone cfg
             then ''SPOOL_DIR not set - writing to the local sink synchronously; a slow/unwritable disk blocks /process''
             else ''SPOOL_DIR not set - forwarding synchronously; signals are lost if the destination is down'') []])"

definition greeting_log :: "GatewayConfig \<Rightarrow> env \<Rightarrow> slog list" where
  "greeting_log cfg env =
     [Slog Info ''Starting Edge Gateway''
       [(''port'', Str (gateway_port env)), (''mode'', Str (Mode cfg)), (''institution_id'', Str (HubInstitutionID (Hub cfg))),
        (''hub_url'', Str (HubEndpointURL (Hub cfg)))]]"

definition listen_log :: "env \<Rightarrow> slog list" where
  "listen_log env =
     (let addr = (''addr'', Str ('':'' @ gateway_port env))
      in if uses_tls env then [Slog Info ''Server listening with TLS'' [addr]]
         else [Slog Warn ''TLS_CERT_FILE/TLS_KEY_FILE not set - serving plain HTTP; raw PII will transit unencrypted'' [],
               Slog Info ''Server listening'' [addr]])"

text \<open>From the loaded configuration to the server, with every exit on the way.\<close>

definition startup_log ::
  "(bytes \<Rightarrow> bytes) \<Rightarrow> GatewayConfig \<Rightarrow> env \<Rightarrow> bytes \<Rightarrow> instant \<Rightarrow> disks \<Rightarrow> slog list" where
  "startup_log quote cfg env probe now ds =
     (let problems = validateStartup quote env cfg
      in if problems \<noteq> [] then map (\<lambda>p. Slog Error p []) problems
         else inbound_key_log env @ keying_log cfg (resolvePepper env) @
           (case open_sink cfg ds of
              Inl e \<Rightarrow> [Slog Error ''Failed to open standalone sink'' [(''dir'', Str (sink_dir env)), (''error'', Err e)]]
            | Inr _ \<Rightarrow> sink_log cfg env @
                (case open_audit quote env probe ds of
                   Inl e \<Rightarrow> [Slog Error ''Failed to open egress audit log'' [(''dir'', Str (env ''EGRESS_AUDIT_DIR'')), (''error'', Err e)]]
                 | Inr _ \<Rightarrow> audit_log cfg env @
                     (case open_spool env now ds of
                        Inl e \<Rightarrow> [Slog Error ''Failed to open spool'' [(''dir'', Str (env ''SPOOL_DIR'')), (''error'', Err e)]]
                      | Inr s \<Rightarrow> spool_log cfg env s @ greeting_log cfg env @ listen_log env))))"

definition boot_log ::
  "(bytes \<Rightarrow> goerr) \<Rightarrow> (bytes \<Rightarrow> bytes) \<Rightarrow> (bytes \<Rightarrow> bytes option) \<Rightarrow> env \<Rightarrow> bytes \<Rightarrow> instant \<Rightarrow> disks \<Rightarrow> slog list" where
  "boot_log syntax quote read_file env probe now ds =
     config_log syntax read_file env @ startup_log quote (fst (Load read_file env None)) env probe now ds"

section \<open>A transaction\<close>

definition prepare_log :: "(bytes \<Rightarrow> bytes) \<Rightarrow> GatewayConfig \<Rightarrow> bytes \<Rightarrow> circumstances \<Rightarrow> request \<Rightarrow> slog list" where
  "prepare_log quote cfg pep x r =
     (if Method r \<noteq> ''POST'' then []
      else case ProcessInboundRequest quote (Body r) of
        Inl e \<Rightarrow> [Slog Error ''Invalid request'' [(''error'', Err e)]]
      | Inr raw \<Rightarrow>
          (case fallback_id raw (entropy x) of
             Inl e \<Rightarrow> [Slog Error ''Failed to generate signal_id'' [(''error'', Err e)]]
           | Inr fallbackSignalID \<Rightarrow>
               (let anonymized = anonymize cfg pep raw fallbackSignalID
                in if SignalID anonymized = MissingSignalIDSentinel
                   then [Slog Warn ''signal_id fell back to sentinel - fallbackSignalID was unexpectedly blank''
                          [(''institution_id'', Str (InstitutionID anonymized))]] else [])))"

definition queue_log :: "spool_cfg \<Rightarrow> circumstances \<Rightarrow> AnonymizedSignal \<Rightarrow> Spool \<Rightarrow> slog list" where
  "queue_log c x anonymized s =
     (case Enqueue c (at_time x) (marshal_signal anonymized) s of
        (Some e, s1) \<Rightarrow>
          (if errors_is_full e then [Slog Error ''Spool full, rejecting signal'' [(''depth'', Num (Depth s1))]]
           else [Slog Error ''Failed to spool signal'' [(''error'', Err e)]])
      | (None, s1) \<Rightarrow>
          (case mosaic_prefix anonymized of
             None \<Rightarrow> []
           | Some pre \<Rightarrow> [Slog Info ''Transaction queued''
               [(''mosaic_prefix'', Str pre), (''mosaic_scope'', Str (MosaicScope anonymized)),
                (''amount_tier'', Meta (Metadata anonymized ''amount_tier'')), (''spool_depth'', Num (Depth s1))]]))"

text \<open>The processing time is given in milliseconds.\<close>

definition deliver_log ::
  "(AnonymizedSignal \<Rightarrow> 'd \<Rightarrow> gores \<times> 'd) \<Rightarrow> circumstances \<Rightarrow> AnonymizedSignal \<Rightarrow> 'd \<Rightarrow> slog list" where
  "deliver_log forward x anonymized d =
     (case (forward anonymized d, mosaic_prefix anonymized) of
        (_, None) \<Rightarrow> []
      | ((Some e, _), Some pre) \<Rightarrow> [Slog Error ''Failed to deliver signal''
          [(''error'', Err e), (''institution_id'', Str (InstitutionID anonymized)), (''mosaic_prefix'', Str pre)]]
      | ((None, _), Some pre) \<Rightarrow> [Slog Info ''Transaction processed''
          [(''processing_time'', Num (elapsed_ms x)), (''mosaic_prefix'', Str pre),
           (''mosaic_scope'', Str (MosaicScope anonymized)), (''institution_id'', Str (InstitutionID anonymized)),
           (''amount_tier'', Meta (Metadata anonymized ''amount_tier''))]])"

definition transaction_log ::
  "(bytes \<Rightarrow> bytes) \<Rightarrow> GatewayConfig \<Rightarrow> bytes \<Rightarrow> (AnonymizedSignal \<Rightarrow> 'd \<Rightarrow> gores \<times> 'd) \<Rightarrow> circumstances \<Rightarrow> request \<Rightarrow> 'd server
    \<Rightarrow> slog list" where
  "transaction_log quote cfg pep forward x r st =
     prepare_log quote cfg pep x r @
     (case fst (prepare_signal quote cfg pep x r (store st)) of
        Inl _ \<Rightarrow> []
      | Inr anonymized \<Rightarrow>
          (case spool_queue st of
             Some (c, s) \<Rightarrow> queue_log c x anonymized s
           | None \<Rightarrow> deliver_log forward x anonymized (outlet st)))"

text \<open>What a request to the gateway logs before its line in the request log.\<close>

definition gateway_log :: "'d site \<Rightarrow> circumstances \<Rightarrow> request \<Rightarrow> 'd audit_state server \<Rightarrow> slog list" where
  "gateway_log g x r st =
     (if route r = Process \<and> (inboundKey g = [] \<or> presented_key r = inboundKey g)
      then transaction_log (quoting g) (site_config g) (site_pepper g) (site_forward g) x
             (r\<lparr>Body := take 1048576 (Body r)\<rparr>) st
      else [])"

section \<open>Secrets\<close>

text \<open>The settings that must not be read off the log, and what remains of them: whether they are set.\<close>

definition masked :: "bytes \<Rightarrow> bytes" where
  "masked v = (if v = [] then [] else ''*'')"

definition secret_names :: "string list" where
  "secret_names = [''API_KEY'', ''HMAC_SECRET'', ''BANK_SALT'', ''MOSAIC_PEPPER'', ''REGIONAL_PEPPER'', ''INBOUND_API_KEY'']"

definition mask_env :: "env \<Rightarrow> env" where
  "mask_env env k = (if k \<in> set secret_names then masked (env k) else env k)"

definition mask_config :: "GatewayConfig \<Rightarrow> GatewayConfig" where
  "mask_config cfg = cfg\<lparr>Hub := (Hub cfg)\<lparr>APIKey := masked (APIKey (Hub cfg))\<rparr>,
     GatewayConfig.Local := (GatewayConfig.Local cfg)\<lparr>BankSalt := masked (BankSalt (GatewayConfig.Local cfg))\<rparr>\<rparr>"

lemma masked_Nil [simp]: "masked v = [] \<longleftrightarrow> v = []"
  by (simp add: masked_def)

lemma mask_env_public [simp]: "k \<notin> set secret_names \<Longrightarrow> mask_env env k = env k"
  by (simp add: mask_env_def)

lemma mask_env_set [simp]: "mask_env env k = [] \<longleftrightarrow> env k = []"
  by (simp add: mask_env_def)

lemma mask_config_simps [simp]:
  "Mode (mask_config cfg) = Mode cfg" "MosaicKeying (mask_config cfg) = MosaicKeying cfg"
  "HubInstitutionID (Hub (mask_config cfg)) = HubInstitutionID (Hub cfg)" "HubEndpointURL (Hub (mask_config cfg)) = HubEndpointURL (Hub cfg)"
  "APIKey (Hub (mask_config cfg)) = masked (APIKey (Hub cfg))"
  "BankSalt (GatewayConfig.Local (mask_config cfg)) = masked (BankSalt (GatewayConfig.Local cfg))"
  "IsStandalone (mask_config cfg) = IsStandalone cfg"
  by (simp_all add: mask_config_def IsStandalone_def)

text \<open>Each part of the start sees the same behind the mask.\<close>

lemma mask_parts:
  "config_path (mask_env env) = config_path env" "gateway_port (mask_env env) = gateway_port env"
  "uses_tls (mask_env env) = uses_tls env" "sink_dir (mask_env env) = sink_dir env"
  "audit_config (mask_env env) = audit_config env" "spool_config (mask_env env) = spool_config env"
  "destination_name (mask_config cfg) (mask_env env) = destination_name cfg env"
  "resolvePepper (mask_env env) = [] \<longleftrightarrow> resolvePepper env = []" "pepperEnv (mask_env env) = [] \<longleftrightarrow> pepperEnv env = []"
  "mask_env env ''EGRESS_AUDIT_DIR'' = env ''EGRESS_AUDIT_DIR''" "mask_env env ''SPOOL_DIR'' = env ''SPOOL_DIR''"
  by (simp_all add: config_path_def gateway_port_def uses_tls_def sink_dir_def audit_config_def spool_config_def
      spool_max_depth_def positive_env_def destination_name_def resolvePepper_def pepperEnv_def secret_names_def)

lemma mask_validate: "validateStartup quote (mask_env env) (mask_config cfg) = validateStartup quote env cfg"
  by (simp add: validateStartup_def mode_problems_def keying_problems_def mask_parts)

lemma mask_opens:
  "open_sink (mask_config cfg) ds = open_sink cfg ds" "open_audit quote (mask_env env) probe ds = open_audit quote env probe ds"
  "open_spool (mask_env env) now ds = open_spool env now ds"
  by (simp_all add: open_sink_def open_audit_def open_spool_def mask_parts)

lemma mask_logs:
  "inbound_key_log (mask_env env) = inbound_key_log env"
  "keying_log (mask_config cfg) (resolvePepper (mask_env env)) = keying_log cfg (resolvePepper env)"
  "sink_log (mask_config cfg) (mask_env env) = sink_log cfg env"
  "audit_log (mask_config cfg) (mask_env env) = audit_log cfg env"
  "spool_log (mask_config cfg) (mask_env env) s = spool_log cfg env s"
  "greeting_log (mask_config cfg) (mask_env env) = greeting_log cfg env"
  "listen_log (mask_env env) = listen_log env"
  by (simp_all only: inbound_key_log_def keying_log_def sink_log_def audit_log_def spool_log_def greeting_log_def
      listen_log_def mask_parts mask_config_simps mask_env_set)

lemma startup_log_masked:
  "startup_log quote (mask_config cfg) (mask_env env) probe now ds = startup_log quote cfg env probe now ds"
  unfolding startup_log_def Let_def mask_validate mask_opens mask_logs mask_parts ..

text \<open>Loading commutes with the mask, so the loaded configurations of two starts that differ in secrets only
  differ in secrets only.\<close>

lemma masked_override: "masked (override v old) = override (masked v) (masked old)"
  by (simp add: override_def)

lemma mask_env_config: "mask_config (env_config env c) = env_config (mask_env env) (mask_config c)"
  by (simp add: mask_config_def env_config_def masked_override envInt_def envFloat_def secret_names_def mask_env_def Let_def
      split: option.split)

lemma mask_builtin_defaults: "mask_config (builtin_defaults c) = builtin_defaults (mask_config c)"
  by (simp add: mask_config_def builtin_defaults_def Let_def)

text \<open>Two configuration files that differ in secrets only: both missing, or both read into the same settings up to the
  mask, or both rejected with the same error.\<close>

definition same_public_file :: "(bytes \<Rightarrow> goerr) \<Rightarrow> bytes option \<Rightarrow> bytes option \<Rightarrow> bool" where
  "same_public_file syntax f f' \<longleftrightarrow>
     (case (f, f') of
        (None, None) \<Rightarrow> True
      | (Some t, Some t') \<Rightarrow>
          (case (decode_config t, decode_config t') of
             (Some c, Some c') \<Rightarrow> mask_config c = mask_config c'
           | (None, None) \<Rightarrow> syntax t = syntax t'
           | _ \<Rightarrow> False)
      | _ \<Rightarrow> False)"

lemma same_public_config:
  assumes "mask_env env = mask_env env'" "same_public_file syntax (read_file (config_path env)) (read_file' (config_path env'))"
  shows "mask_config (read_config read_file env) = mask_config (read_config read_file' env')"
proof -
  have "mask_config (file_config read_file env) = mask_config (file_config read_file' env')"
    using assms(2) by (auto simp: same_public_file_def file_config_def split: option.splits)
  then show ?thesis by (simp add: read_config_def mask_builtin_defaults mask_env_config assms(1))
qed

lemma same_public_config_log:
  assumes "mask_env env = mask_env env'" "same_public_file syntax (read_file (config_path env)) (read_file' (config_path env'))"
  shows "config_log syntax read_file env = config_log syntax read_file' env'"
proof -
  have "config_path env = config_path env'" using mask_parts(1) [of env] mask_parts(1) [of env'] assms(1) by simp
  with assms(2) show ?thesis by (auto simp: same_public_file_def config_log_def split: option.splits)
qed

section \<open>What a request depends on\<close>

text \<open>Requests with the same disclosure are prepared alike.\<close>

lemma same_disclosure:
  assumes "ProcessInboundRequest quote b = Inr raw" "ProcessInboundRequest quote b' = Inr raw'"
    and "disclosure_of (ReportingThreshold (GatewayConfig.Local cfg)) raw = disclosure_of (ReportingThreshold (GatewayConfig.Local cfg)) raw'"
  shows "prepare_signal quote cfg pep x (r\<lparr>Body := b\<rparr>) m = prepare_signal quote cfg pep x (r\<lparr>Body := b'\<rparr>) m"
    "prepare_log quote cfg pep x (r\<lparr>Body := b\<rparr>) = prepare_log quote cfg pep x (r\<lparr>Body := b'\<rparr>)"
proof -
  have "fallback_id raw = fallback_id raw'"
    using arg_cong [OF assms(3), of d_ref] by (simp add: fallback_id_def fun_eq_iff NeedsFallbackSignalID_def disclosure_of_def)
  moreover have "anonymize cfg pep raw = anonymize cfg pep raw'"
    unfolding anonymize_def fun_eq_iff using AnonymizeSignal_cong [OF assms(3)] by blast
  ultimately show "prepare_signal quote cfg pep x (r\<lparr>Body := b\<rparr>) m = prepare_signal quote cfg pep x (r\<lparr>Body := b'\<rparr>) m"
    "prepare_log quote cfg pep x (r\<lparr>Body := b\<rparr>) = prepare_log quote cfg pep x (r\<lparr>Body := b'\<rparr>)"
    by (simp_all add: prepare_signal_def prepare_log_def assms(1,2) split: sum.split)
qed

lemma handler_by_preparation:
  assumes "\<And>m. prepare_signal (quoting g) (site_config g) (site_pepper g) x (r\<lparr>Body := take 1048576 b\<rparr>) m
      = prepare_signal (quoting g) (site_config g) (site_pepper g) x (r\<lparr>Body := take 1048576 b'\<rparr>) m"
  shows "gateway_handler g x uptime (r\<lparr>Body := b\<rparr>) st = gateway_handler g x uptime (r\<lparr>Body := b'\<rparr>) st"
proof -
  have "serve_mux g x uptime (r\<lparr>Body := take 1048576 b\<rparr>) s = serve_mux g x uptime (r\<lparr>Body := take 1048576 b'\<rparr>) s" for s
    using assms by (simp add: serve_mux_def RequireAPIKey_def processTransaction_def split: route.split)
  then show ?thesis
    by (simp add: gateway_handler_def RequestLogger_def MaxBodySize_def split: prod.split option.split)
qed

section \<open>Properties\<close>

text \<open>
  C3. A request shows no more than its disclosure, on any channel: two requests that differ only in their
  bodies, both accepted and with the same disclosure (pseudonymised person, amount tier, geohash cell, 15-minute
  window, and the fields that are MACed or passed on), get the same answer, write the same log lines, and leave
  the same queue on disk, destination, audit log, metrics and request log. Nothing that the gateway
  writes, sends or answers tells the two apart.
\<close>

theorem request_shows_disclosure_only:
  assumes "ProcessInboundRequest (quoting g) (take 1048576 b) = Inr raw" "ProcessInboundRequest (quoting g) (take 1048576 b') = Inr raw'"
    and "disclosure_of (ReportingThreshold (GatewayConfig.Local (site_config g))) raw
      = disclosure_of (ReportingThreshold (GatewayConfig.Local (site_config g))) raw'"
  shows "gateway_handler g x uptime (r\<lparr>Body := b\<rparr>) (st, lines) = gateway_handler g x uptime (r\<lparr>Body := b'\<rparr>) (st, lines)
    \<and> gateway_log g x (r\<lparr>Body := b\<rparr>) st = gateway_log g x (r\<lparr>Body := b'\<rparr>) st"
proof
  note same = same_disclosure [OF assms]
  have limited: "(r\<lparr>Body := c\<rparr>)\<lparr>Body := take 1048576 (Body (r\<lparr>Body := c\<rparr>))\<rparr> = r\<lparr>Body := take 1048576 c\<rparr>" for c by simp
  show "gateway_handler g x uptime (r\<lparr>Body := b\<rparr>) (st, lines) = gateway_handler g x uptime (r\<lparr>Body := b'\<rparr>) (st, lines)"
    by (rule handler_by_preparation) (rule same)
  show "gateway_log g x (r\<lparr>Body := b\<rparr>) st = gateway_log g x (r\<lparr>Body := b'\<rparr>) st"
    unfolding gateway_log_def transaction_log_def limited same route_body presented_key_body ..
qed

text \<open>Two customers of one national identifier, with other names, ids, amounts and seconds.\<close>

definition body2 :: bytes where
  "body2 = ''{\"id\":\"7\",\"name\":\"Ada\",\"national_id\":\"12-34\",\"account\":\"2\",\"amount\":150,\"timestamp\":\"2024-01-01T00:00:00Z\"}''"

definition body3 :: bytes where
  "body3 = ''{\"id\":\"9\",\"name\":\"Eve\",\"national_id\":\"1234\",\"account\":\"2\",\"amount\":151,\"timestamp\":\"2024-01-01T00:14:59Z\"}''"

definition site1 :: "unit site" where
  "site1 = \<lparr>site_env = env1, site_config = empty_config, site_pepper = [], inboundKey = [],
     site_forward = (\<lambda>a w. (None, w)), startTime = 0, quoting = id, render = (\<lambda>_. []), render_metrics = (\<lambda>_. []), moved = id\<rparr>"

lemma bodies_alike:
  "case (ProcessInboundRequest id body2, ProcessInboundRequest id body3) of
     (Inr raw, Inr raw') \<Rightarrow> disclosure_of (Fin 0) raw = disclosure_of (Fin 0) raw' | _ \<Rightarrow> False"
  by code_simp

definition audited1 :: "unit audit_state server" where
  "audited1 = \<lparr>spool_queue = Some (cfg1, spool1), store = no_metrics, outlet = audit_start ()\<rparr>"

lemma request_shows_disclosure_only_witness:
  "gateway_handler site1 (circ1\<lparr>entropy := Inr (replicate 16 CHR ''A'')\<rparr>) 0 (post1\<lparr>Body := body2\<rparr>) (audited1, [])
    = gateway_handler site1 (circ1\<lparr>entropy := Inr (replicate 16 CHR ''A'')\<rparr>) 0 (post1\<lparr>Body := body3\<rparr>) (audited1, [])"
proof -
  obtain raw raw' where "ProcessInboundRequest id body2 = Inr raw" "ProcessInboundRequest id body3 = Inr raw'"
    and d: "disclosure_of (Fin 0) raw = disclosure_of (Fin 0) raw'"
    using bodies_alike by (auto split: sum.splits)
  moreover have "take 1048576 body2 = body2" "take 1048576 body3 = body3" by (simp_all add: body2_def body3_def)
  ultimately have "ProcessInboundRequest (quoting site1) (take 1048576 body2) = Inr raw"
    "ProcessInboundRequest (quoting site1) (take 1048576 body3) = Inr raw'" by (simp_all add: site1_def)
  from request_shows_disclosure_only [OF this] d show ?thesis by (simp add: site1_def empty_config_def)
qed

text \<open>
  C10. The log of the start reveals no secret: two starts on the same disks that differ only in the API
  keys, the HMAC secret, the salt and the peppers write the same log, line by line, whichever exit the start takes and
  wherever the secrets come from, the environment or the configuration file. Only whether each is set shows. A file
  that cannot be parsed is logged with the error of the JSON decoder, which may quote a character of it: such files are
  compared by that error.
\<close>

theorem startup_log_hides_secrets:
  assumes "mask_env env = mask_env env'"
    and "same_public_file syntax (read_file (config_path env)) (read_file' (config_path env'))"
  shows "boot_log syntax quote read_file env probe now ds = boot_log syntax quote read_file' env' probe now ds"
proof -
  have "startup_log quote (read_config read_file env) env probe now ds = startup_log quote (read_config read_file' env') env' probe now ds"
    using startup_log_masked [of quote "read_config read_file env" env probe now ds]
      startup_log_masked [of quote "read_config read_file' env'" env' probe now ds] same_public_config [where read_file = read_file and read_file' = read_file', OF assms] assms(1) by simp
  with same_public_config_log [where read_file = read_file and read_file' = read_file', OF assms] show ?thesis by (simp add: boot_log_def Load_def Let_def)
qed

text \<open>Two files and two environments with other keys, salts and peppers.\<close>

definition file5 :: bytes where
  "file5 = ''{\"hub\":{\"api_key\":\"k1\",\"hub_endpoint_url\":\"https://h\"},\"local\":{\"bank_salt\":\"salt1\"}}''"

definition file6 :: bytes where
  "file6 = ''{\"local\":{\"bank_salt\":\"another\"},\"hub\":{\"api_key\":\"k2\",\"hub_endpoint_url\":\"https://h\"}}''"

lemma files_parse:
  "parse_first file5 = Some (JObj [(''hub'', JObj [(''api_key'', JStr ''k1''), (''hub_endpoint_url'', JStr ''https://h'')]),
     (''local'', JObj [(''bank_salt'', JStr ''salt1'')])], [])"
  "parse_first file6 = Some (JObj [(''local'', JObj [(''bank_salt'', JStr ''another'')]),
     (''hub'', JObj [(''api_key'', JStr ''k2''), (''hub_endpoint_url'', JStr ''https://h'')])], [])"
  by code_simp+

lemma set_secret_member:
  "set_member config_setters (''hub'', v) r = map_option (\<lambda>x. r\<lparr>Hub := x\<rparr>) (decode_struct hub_setters v (Hub r))"
  "set_member config_setters (''local'', v) r
     = map_option (\<lambda>x. r\<lparr>GatewayConfig.Local := x\<rparr>) (decode_struct local_setters v (GatewayConfig.Local r))"
  "set_member hub_setters (''api_key'', JStr k) h = Some (h\<lparr>APIKey := k\<rparr>)"
  "set_member hub_setters (''hub_endpoint_url'', JStr k) h = Some (h\<lparr>HubEndpointURL := k\<rparr>)"
  "set_member local_setters (''bank_salt'', JStr k) l = Some (l\<lparr>BankSalt := k\<rparr>)"
  by (simp_all add: set_member_def config_setters_def hub_setters_def local_setters_def set_string_def)

lemma files_read:
  "decode_config file5 = Some (empty_config\<lparr>Hub := (Hub empty_config)\<lparr>APIKey := ''k1'', HubEndpointURL := ''https://h''\<rparr>,
     GatewayConfig.Local := (GatewayConfig.Local empty_config)\<lparr>BankSalt := ''salt1''\<rparr>\<rparr>)"
  "decode_config file6 = Some (empty_config\<lparr>Hub := (Hub empty_config)\<lparr>APIKey := ''k2'', HubEndpointURL := ''https://h''\<rparr>,
     GatewayConfig.Local := (GatewayConfig.Local empty_config)\<lparr>BankSalt := ''another''\<rparr>\<rparr>)"
  by (simp_all add: decode_config_def files_parse decode_struct_def set_secret_member)

definition env_with :: "bytes \<Rightarrow> env" where
  "env_with secret = env1(''API_KEY'' := [], ''BANK_SALT'' := [], ''HMAC_SECRET'' := secret)"

lemma startup_log_hides_secrets_witness:
  "file5 \<noteq> file6 \<and> env_with ''s1'' \<noteq> env_with ''s2''
   \<and> boot_log (\<lambda>_. json_error) id (\<lambda>_. Some file5) (env_with ''s1'') ''.probe'' 5 disks1
     = boot_log (\<lambda>_. json_error) id (\<lambda>_. Some file6) (env_with ''s2'') ''.probe'' 5 disks1"
proof -
  have e: "mask_env (env_with ''s1'') = mask_env (env_with ''s2'')"
    by (simp add: mask_env_def masked_def env_with_def secret_names_def fun_eq_iff)
  have f: "same_public_file (\<lambda>_. json_error) (Some file5) (Some file6)"
    by (simp add: same_public_file_def files_read mask_config_def masked_def)
  have "file5 \<noteq> file6" by (simp add: file5_def file6_def)
  moreover have "env_with ''s1'' ''HMAC_SECRET'' \<noteq> env_with ''s2'' ''HMAC_SECRET''" by (simp add: env_with_def)
  then have "env_with ''s1'' \<noteq> env_with ''s2''" by auto
  ultimately show ?thesis
    using startup_log_hides_secrets [OF e, of "\<lambda>_. json_error" "\<lambda>_. Some file5" "\<lambda>_. Some file6"] f by simp
qed

text \<open>What a refusal can say without quoting the record.\<close>

definition fixed_messages :: "string list" where
  "fixed_messages = [''must be a non-empty string'', ''must be a positive number'',
     ''must be RFC 3339 (e.g. 2026-01-15T14:07:33Z)'', ''must be provided together or omitted together'',
     ''must be between -90 and 90'', ''must be between -180 and 180'', ref_message]"

definition sayable :: "(bytes \<Rightarrow> bytes) \<Rightarrow> RawData \<Rightarrow> goerr \<Rightarrow> bool" where
  "sayable quote r e \<longleftrightarrow> (\<exists>f m. e = FieldError f m
     \<and> (m \<in> set fixed_messages \<or> m = ''unknown signal_type '' @ quote (SignalType r)
        \<or> m = ''unknown endpoint_type '' @ quote (EndpointType r)))"

lemma sayable_fixed:
  "sayable quote r (FieldError f ''must be a non-empty string'')" "sayable quote r (FieldError f ''must be a positive number'')"
  "sayable quote r (FieldError f ''must be RFC 3339 (e.g. 2026-01-15T14:07:33Z)'')"
  "sayable quote r (FieldError f ''must be provided together or omitted together'')"
  "sayable quote r (FieldError f ''must be between -90 and 90'')" "sayable quote r (FieldError f ''must be between -180 and 180'')"
  "sayable quote r (FieldError f ref_message)"
  by (simp_all add: sayable_def fixed_messages_def)

lemma sayable_type:
  "sayable quote r (FieldError f (''unknown signal_type '' @ quote (SignalType r)))"
  "EndpointType r1 = EndpointType r \<Longrightarrow> sayable quote r (FieldError f (''unknown endpoint_type '' @ quote (EndpointType r1)))"
  unfolding sayable_def by auto

lemma optional_message:
  assumes "fst (check_optional quote r) = Some e"
  shows "sayable quote r e"
proof (cases "check_signal_type quote r")
  case (Pair e1 r1)
  have r1: "EndpointType r1 = EndpointType r"
    using Pair by (auto simp: check_signal_type_def Let_def split: if_splits)
  have 1: "sayable quote r e1'" if "e1 = Some e1'" for e1'
    using Pair that sayable_type(1) unfolding check_signal_type_def Let_def by (fastforce split: if_split_asm simp del: append.simps)
  have 2: "sayable quote r e2" if "fst (check_endpoint_type quote r1) = Some e2" for e2
    using that sayable_type(2) [OF r1] unfolding check_endpoint_type_def Let_def by (fastforce split: if_split_asm simp del: append.simps)
  show ?thesis
    using assms 1 2 sayable_fixed(7) unfolding check_optional_def Pair by (auto split: if_split_asm option.split_asm)
qed

lemma coordinates_message: "check_coordinates r = Some e \<Longrightarrow> sayable quote r e"
  unfolding check_coordinates_def by (auto intro: sayable_fixed split: if_split_asm option.split_asm)

lemma refusal_message: "fst (Validate quote r) = Some e \<Longrightarrow> sayable quote r e"
  unfolding Validate_def
  by (auto intro: sayable_fixed coordinates_message optional_message split: if_split_asm option.split_asm)

definition body4 :: bytes where
  "body4 = ''{\"id\":\"7\",\"name\":\"Ngozi Adeyemi\",\"account\":\"2\",\"amount\":150,\"timestamp\":\"2024-01-01T00:00:00Z\",\"signal_type\":\"Ngozi Adeyemi\"}''"

lemma body4_checks:
  "case decode_raw body4 of None \<Rightarrow> False
   | Some r \<Rightarrow> first_failing (required_checks r) = None \<and> check_coordinates r = None \<and> TransactionRef r = []
      \<and> SignalType r = ''Ngozi Adeyemi'' \<and> str_to_lower (SignalType r) \<notin> set ValidSignalTypes"
  by code_simp

text \<open>
  C39. A refused request is logged without the record, except that a rejected type is quoted: the
  error in the line is the one of the JSON decoder, or one of fixed texts, or it contains the offending
  \<^verbatim>\<open>signal_type\<close> or \<^verbatim>\<open>endpoint_type\<close> in full. A caller that fills such a field
  with a name has the name in the log, against the documented absence of personal data there.
\<close>

theorem refused_type_is_logged:
  "(ProcessInboundRequest quote b = Inl e \<longrightarrow>
      e = Wrapf ''invalid JSON'' json_error \<or> (\<exists>raw. decode_raw b = Some raw \<and> sayable quote raw e))
   \<and> prepare_log quote cfg pep x (post1\<lparr>Body := body4\<rparr>)
     = [Slog Error ''Invalid request'' [(''error'', Err (FieldError ''signal_type'' (''unknown signal_type '' @ quote ''Ngozi Adeyemi'')))]]"
proof
  show "ProcessInboundRequest quote b = Inl e \<longrightarrow>
      e = Wrapf ''invalid JSON'' json_error \<or> (\<exists>raw. decode_raw b = Some raw \<and> sayable quote raw e)"
  proof
    assume p: "ProcessInboundRequest quote b = Inl e"
    show "e = Wrapf ''invalid JSON'' json_error \<or> (\<exists>raw. decode_raw b = Some raw \<and> sayable quote raw e)"
    proof (cases "decode_raw b")
      case (Some raw)
      then have "fst (Validate quote raw) = Some e" using p by (simp add: ProcessInboundRequest_def split: prod.splits option.splits)
      from refusal_message [OF this] Some show ?thesis by blast
    qed (use p in \<open>simp add: ProcessInboundRequest_def\<close>)
  qed
  obtain r where r: "decode_raw body4 = Some r" and c: "first_failing (required_checks r) = None" "check_coordinates r = None"
    and t: "TransactionRef r = []" "SignalType r = ''Ngozi Adeyemi''" "str_to_lower (SignalType r) \<notin> set ValidSignalTypes"
    using body4_checks by (auto split: option.splits)
  have "trim_space [] = []" by code_simp
  then have "fst (check_optional quote r) = Some (FieldError ''signal_type'' (''unknown signal_type '' @ quote ''Ngozi Adeyemi''))"
    using t by (simp add: check_optional_def check_signal_type_def Let_def)
  then have "ProcessInboundRequest quote body4 = Inl (FieldError ''signal_type'' (''unknown signal_type '' @ quote ''Ngozi Adeyemi''))"
    using Validate_parts [OF c(1), of quote] c(2) r by (cases "check_optional quote r") (simp add: ProcessInboundRequest_def)
  then show "prepare_log quote cfg pep x (post1\<lparr>Body := body4\<rparr>)
     = [Slog Error ''Invalid request'' [(''error'', Err (FieldError ''signal_type'' (''unknown signal_type '' @ quote ''Ngozi Adeyemi'')))]]"
    by (simp add: prepare_log_def post1_def)
qed

lemma refused_type_is_logged_witness:
  "\<exists>raw. decode_raw body4 = Some raw \<and> sayable id raw (FieldError ''signal_type'' ''unknown signal_type Ngozi Adeyemi'')"
proof -
  have "ProcessInboundRequest id body4 = Inl (FieldError ''signal_type'' ''unknown signal_type Ngozi Adeyemi'')" by code_simp
  with refused_type_is_logged [of id body4 "FieldError ''signal_type'' ''unknown signal_type Ngozi Adeyemi''"]
  show ?thesis by blast
qed

end
