(* ===== verification/Spec2Isabelle.thy ===== *)
theory Spec2Isabelle
  imports SpoolQueue SyncThreads Logging
begin

text \<open>
  EdgeGW takes transaction records of a bank over HTTP, pseudonymises them and delivers the resulting
  signals to one destination: a vendor platform (mode middleware) or a local directory (mode
  standalone). A signal is queued in a durable spool and delivered later, or, without a spool,
  delivered within the request; each confirmed delivery is recorded in an egress audit log.

  \<^bold>\<open>The program and its theories.\<close> Paths are under src/.
  \<^item> internal/processor/anonymizer.go: \<open>Mosaic\<close> (Hash, HMACHash, key material, NormalizeID and
    NormalizeName), \<open>Features\<close> (MapToTier, Geohash, BucketTimestamp, newSignalIDFrom) and
    \<open>Processor\<close> (RawData, Validate, AnonymizeSignal). \<open>Privacy\<close> proves what the signal depends on,
    when two mosaics or signal ids are equal, what Validate accepts, and where fields can collide.
  \<^item> internal/dirsync/dirsync.go and the operating system: \<open>FileSys\<close>, a file system with directory
    entries, data that is or is not yet on stable storage, faults injected into any call, and the
    relation \<open>crash\<close> from a state to every state a power loss can leave.
  \<^item> internal/spool/spool.go: \<open>Spool\<close> (New, Enqueue, forwardOldest, Run and their helpers, one function
    each) and \<open>SpoolLaws\<close> (durability of an acknowledgement, the abstract queue with its inductive
    step relation \<open>attempt\<close> and the refinement of it, reachable states, names, backoff).
    Its goroutines: \<open>SpoolSteps\<close> cuts Enqueue and the delivery loop into the steps another goroutine
    cannot interrupt (a critical section of s.mu, a system call, a hook call, a channel operation) and shows
    that the uninterrupted steps are the functions of \<open>Spool\<close>; \<open>SpoolConc\<close> puts any number of calls and
    the loop together (\<open>proc_step\<close>) and proves the assertions of each free from interference, an
    interpretation of the locale \<open>interference_free\<close> of \<open>Interleave\<close>; \<open>SpoolThreads\<close> counts the
    places in the queue and follows the wake-up channel and the signals of a former run; \<open>SpoolRuns\<close> has
    the runs (\<open>spool_run\<close>) and the properties of the concurrent spool; \<open>SpoolQueue\<close> states what the
    spool promises as an abstract queue of atomic actions (\<open>queue_act\<close>) and proves the refinement.
  \<^item> internal/auditlog/auditlog.go and cmd/gateway/sink.go: both append lines to day files with the
    same code, which is \<open>DayLog\<close>; \<open>AuditLog\<close> adds the record and the writability probe, \<open>Sink\<close>
    the local destination. The locale \<open>entry_log\<close> of DayLog states what such a log promises
    (an acknowledged entry is kept by everything that follows); it is interpreted on the append
    function, on the sink and on the audited log.
  \<^item> cmd/gateway/audit.go: \<open>EgressAudit\<close> (auditHealth, redeliveryGuard, auditingForward,
    auditingSyncForward); its failure count and the one of the spool are interpretations of the
    locale \<open>failure_counter\<close> of \<open>FailureCounter\<close>. It also proves, for the delivery loop over it, that a signal
    recorded as delivered was confirmed in its own turn (\<open>own_turn\<close>), and that no more is taken for delivered than
    was confirmed (\<open>delivers_first\<close>). \<open>SyncThreads\<close> interleaves the handlers of synchronous
    mode at the mutexes of auditingSyncForward, the second interpretation of \<open>interference_free\<close>.
  \<^item> internal/adapters: \<open>Outbound\<close> (outbound.go: signing, one attempt, the bounded retry loop),
    \<open>Inbound\<close> (inbound.go: request decoding, health and readiness), \<open>Metrics\<close> (metrics.go and the
    hooks main gives to the spool).
  \<^item> internal/config/config.go: \<open>Configuration\<close>. internal/middleware/middleware.go: \<open>Middleware\<close>.
  \<^item> cmd/gateway/main.go: \<open>Startup\<close> (validateStartup, the settings, the wiring of the parts, start and
    stop), \<open>Transaction\<close> (processTransaction, and the endpoint behind the middleware) and
    \<open>Serving\<close> (the arguments, the routes, the chain of middleware, the server settings, the end). \<open>Logging\<close>
    has the log lines of the start and of a transaction, and what they and the answers reveal.
  \<^item> The wire formats: \<open>Wire\<close> (the JSON of a request, of a signal and of the fields of an audit record).
  \<^item> Go and its standard library: \<open>Prelude\<close> (bytes, errors, decimals), \<open>GoUnicode\<close>, \<open>GoStrings\<close>,
    \<open>GoFloat\<close> (float64 as exact rationals with rounding), \<open>GoTime\<close>, \<open>GoDuration\<close>, \<open>GoCrypto\<close>
    (SHA-256 and HMAC; \<open>ShaEval\<close> computes them on concrete messages, the published digest of \<^verbatim>\<open>abc\<close> among
    them), \<open>GoJson\<close> and \<open>JsonText\<close> (encoding/json), \<open>GoConv\<close> (strconv).

  \<^bold>\<open>How the model is written.\<close> State is passed explicitly: an operation takes its state and returns a
  result with the new state; a Go error is a value of \<open>goerr\<close>, and a function that returns only an
  error returns \<open>goerr option\<close>. What a function reads from outside is an argument: the
  environment, files, the times of the clock, the bytes of crypto/rand, the list of coming disk
  faults. Callbacks are functions on a state of their own, so the spool is proved for any
  destination and any permanence test. Integers are exact except where the code can overflow: the
  sequence number of the spool, the counters, the backoff and the staleness setting are 64-bit words.

  \<^bold>\<open>Third-party behaviour.\<close> The HTTP client is \<open>send\<close> and the URL check of \<^verbatim>\<open>net/http\<close> is
  \<open>new_request\<close>; the hypothesis \<open>foreign_errors\<close> says that the client does not return this
  program's own permanent error. \<^verbatim>\<open>strconv.Quote\<close> is \<open>quote\<close>; the error \<^verbatim>\<open>encoding/json\<close> gives for a
  configuration file that does not parse is \<open>syntax\<close>. Statements about equal mosaics assume
  \<open>mac_separates\<close>, that HMAC-SHA-256 does not collide on the messages compared; the one about two concurrent lives
  assumes that SHA-256 tells the payloads of a life apart, as the redelivery guard does (\<open>inj_on hexDigest\<close>). Concurrent runs ask of
  the clock, when a name is formed (\<open>clock_ok\<close>), that the time is not before the epoch and the name not
  one left by a former run, and that the counter has not come round.

  \<^bold>\<open>What is shown.\<close> The path of a signal is proved from end to end below: after 202 it is on disk whatever
  crash follows, the queue and the answers agree on every branch, nothing leaves the queue unless it
  was confirmed or dead-lettered, and with an audit log nothing leaves it as delivered unless the destination itself
  confirmed it, in a turn of its own file, and its record is fsynced; 200 in synchronous mode implies delivery and record. Privacy: a signal is a function of a
  coarse disclosure of the record, and cells and time windows are exactly what is disclosed; nothing
  else a request leaves behind, its answer and its log lines included, depends on more; two starts that
  differ in secrets only log the same.
  Concurrency: under every interleaving an acknowledged signal is safe, also over a power loss and a second
  life of the process, the limit of the queue holds, no wake-up is lost and every call returns; in synchronous
  mode an answer is true of the handler's own signal, even while the log is being closed.
  Startup, readiness and configuration: a started gateway lacks no setting, and what the readiness
  check counts is what happened. Several theorems state what the code does where that differs from what it
  says; their names say so (\<open>Record_retry_can_vanish\<close>, \<open>removal_failure_redelivers\<close>,
  \<open>other_signal_ends_the_guard\<close>, \<open>nan_threshold_disables_flag\<close>, \<open>staleness_setting_overflows\<close>,
  \<open>local_mosaic_boundary_collision\<close>, \<open>gauge_can_go_stale\<close>,
  \<open>refused_type_is_logged\<close>).

  \<^bold>\<open>Bounds and fuel.\<close> The geohash loop runs with fuel 5 times the precision, one unit per bit, and the
  equivalence with the grid shows that it ends before the fuel does, up to precision 17. The JSON
  parser has twice the length of its text and two as fuel, of which every two calls use up a character;
  the round trip shows that it suffices. The retry loop
  has a termination proof. The delivery loop, which does not end, is \<open>Run\<close> over any finite list of turns.
  A call of Enqueue has at most fourteen steps and a delivery attempt ten, which the equivalence with the
  functions shows; a concurrent run is any finite sequence of steps.

  \<^bold>\<open>Not modelled.\<close> The HTTP server with its connections and timeouts, TLS, the delivery of signals and
  the 15 seconds of a graceful shutdown are the standard library. Of the log the lines of the start, of a
  transaction and of a request are kept, not those of the delivery loop, of the retries and of the end, which
  are made of spool file names and errors; nor the address of the client. Of a request's path the form without percent escapes is modelled. The JSON of
  \<^verbatim>\<open>/metrics\<close>, \<^verbatim>\<open>/health\<close> and \<^verbatim>\<open>/readyz\<close> is kept as
  a map and its rendering a parameter, because it contains floating-point numbers whose shortest decimal form is
  the library's; the error of \<^verbatim>\<open>encoding/json\<close> for a request body is one constant, whatever its text.
  Interleaved are the goroutines of the spool and the deliveries of synchronous mode; the delivery loop's call of
  the destination with its audit record is one step, as it alone makes it, and so is one handler's call of
  the destination, whose retries share nothing with the other handlers. A cancelled
  context is an argument of the retry loop; for the spool a shutdown during a delivery is an error of the
  destination, after which the loop stops where it would have slept. Go code under
  test files is not part of the model.
\<close>

section \<open>The whole path of a signal\<close>

text \<open>
  C1. From the request to the record: a request answered 202 is never lost. Whatever power loss
  follows, after the restart (the redelivery guard is then empty) and any run of the delivery loop, under any faults of
  the disks and any answers of the destination, vendor or local sink, its signal is still pending, or in the
  dead-letter directory, or delivered and recorded: the destination itself confirmed the payload of this very file in a
  turn in which the file was the head of the queue, and the record of it is fsynced in the audit log. No
  record stands for a delivery that was made for another signal.
\<close>

theorem accepted_request_is_accounted_for:
  assumes "process_endpoint quote cfg pep key forward x r st = (Some resp, st')" "code resp = 202"
    and "spool_queue st = Some (c, s)" "fsyncEnabled c" "wf_fs (disk s)" "0 \<le> depth s"
    and "spool_queue st' = Some (c, s')"
    and "crash (disk s') d" "wf_fs d" "New c now d = (Inr s2, d2)"
    and "audit_config env = Some lc" "logger_ok lc w" "digest w = []"
    and "Run c IsPermanent (spool_deliver cfg env (confirming (deliver cfg env new_request send)))
           (guard_on_dead env) nows (bo, s2, w) = (ps, bo', s3, w')"
  shows "\<exists>raw fb. ProcessInboundRequest quote (take 1048576 (Body r)) = Inr raw
    \<and> (let n = spool_name (at_time x) (seq s + 1); b = marshal_signal (anonymize cfg pep raw fb)
       in queue_of c (disk s3) n = Some b \<or> dead_of c (disk s3) n = Some b
          \<or> audited_in lc (destination_name cfg env) w' b
            \<and> own_turn c (spool_deliver cfg env (confirming (deliver cfg env new_request send)))
                (guard_on_dead env) nows (bo, s2, w) n b)"
proof -
  obtain raw fb where raw: "ProcessInboundRequest quote (take 1048576 (Body r)) = Inr raw"
    and q: "queue_of c d (spool_name (at_time x) (seq s + 1)) = Some (marshal_signal (anonymize cfg pep raw fb))"
    using accepted_survives [OF assms(1-8)] by blast
  note n = New_facts [OF assms(10,9)]
  note wiring = audited_wiring [OF assms(11)]
  from Run_accounts [OF assms(14) [unfolded wiring] _ assms(12,13)] n q raw show ?thesis
    unfolding wiring by (auto simp: Let_def)
qed

lemma spool1_restarts:
  "\<exists>s2 d2. New cfg1 6 (disk (snd (Enqueue cfg1 5 b spool1))) = (Inr s2, d2)"
proof -
  have "\<not> isl (fst (New cfg1 6 (disk (snd (Enqueue cfg1 5 b spool1)))))" by code_simp
  then show ?thesis by (metis isl_def prod.collapse sum.exhaust)
qed

definition destinations1 :: "nat destinations" where
  "destinations1 = \<lparr>hub = \<lparr>remote = 0, signals_forwarded = 0, waits = []\<rparr>, sink = fresh_log [], sink_clock = []\<rparr>"

definition hub_down_once :: "http_request \<Rightarrow> nat \<Rightarrow> (goerr + http_response) \<times> nat" where
  "hub_down_once q h = (Inr \<lparr>StatusCode = (if h = 0 then 503 else 200), resp_body = []\<rparr>, Suc h)"

theorem accepted_request_is_accounted_for_witness:
  "\<exists>resp st' s' s2 d2 ps bo s3 w' raw fb.
    process_endpoint id empty_config [] [] (\<lambda>a d. (None, d)) circ1 post1 server1 = (Some resp, st')
    \<and> spool_queue st' = Some (cfg1, s') \<and> New cfg1 6 (disk s') = (Inr s2, d2)
    \<and> Run cfg1 IsPermanent (spool_deliver empty_config env2 (confirming (deliver empty_config env2 (\<lambda>_. None) hub_down_once)))
        (guard_on_dead env2) [7, 8] (second, s2, audit_start (destinations1, [])) = (ps, bo, s3, w')
    \<and> (queue_of cfg1 (disk s3) (spool_name 5 (seq spool1 + 1)) = Some (marshal_signal (anonymize empty_config [] raw fb))
       \<or> dead_of cfg1 (disk s3) (spool_name 5 (seq spool1 + 1)) = Some (marshal_signal (anonymize empty_config [] raw fb))
       \<or> audited_in audit1 (destination_name empty_config env2) w' (marshal_signal (anonymize empty_config [] raw fb))
         \<and> own_turn cfg1 (spool_deliver empty_config env2 (confirming (deliver empty_config env2 (\<lambda>_. None) hub_down_once)))
             (guard_on_dead env2) [7, 8] (second, s2, audit_start (destinations1, [])) (spool_name 5 (seq spool1 + 1))
             (marshal_signal (anonymize empty_config [] raw fb)))"
proof -
  obtain a m resp s' m1 where c: "code resp = 202" and e: "Enqueue cfg1 5 (marshal_signal a) spool1 = (None, s')"
    and t: "processTransaction id empty_config [] (\<lambda>a d. (None, d)) circ1 post1 server1 = (Some resp, server1\<lparr>spool_queue := Some (cfg1, s'), store := m1\<rparr>)"
    by (rule server1_accepts)
  define st' where "st' = server1\<lparr>spool_queue := Some (cfg1, s'), store := m1\<rparr>"
  have q: "spool_queue server1 = Some (cfg1, spool1)" "spool_queue st' = Some (cfg1, s')" by (simp_all add: server1_def st'_def)
  have wf: "wf_fs (disk s')" using Enqueue_outcome [OF e spool1_ok(1,2)] by blast
  have p: "process_endpoint id empty_config [] [] (\<lambda>a d. (None, d)) circ1 post1 server1 = (Some resp, st')"
    using t by (simp add: post1_endpoint st'_def)
  obtain s2 d2 where n: "New cfg1 6 (disk s') = (Inr s2, d2)"
    using spool1_restarts [of "marshal_signal a"] e by auto
  obtain ps bo s3 w' where r: "Run cfg1 IsPermanent
      (spool_deliver empty_config env2 (confirming (deliver empty_config env2 (\<lambda>_. None) hub_down_once)))
      (guard_on_dead env2) [7, 8] (second, s2, audit_start (destinations1, [])) = (ps, bo, s3, w')" by (metis prod_cases4)
  have g: "digest (audit_start (destinations1, [])) = []" by (simp add: audit_start_def)
  from accepted_request_is_accounted_for [OF p c q(1) spool1_ok(3,1,2) q(2) crash_refl [OF wf] wf n env2_audit audit_start_ok g r]
  obtain raw fb where "let n = spool_name (at_time circ1) (seq spool1 + 1); b = marshal_signal (anonymize empty_config [] raw fb)
      in queue_of cfg1 (disk s3) n = Some b \<or> dead_of cfg1 (disk s3) n = Some b
        \<or> audited_in audit1 (destination_name empty_config env2) w' b
          \<and> own_turn cfg1 (spool_deliver empty_config env2 (confirming (deliver empty_config env2 (\<lambda>_. None) hub_down_once)))
              (guard_on_dead env2) [7, 8] (second, s2, audit_start (destinations1, [])) n b" by blast
  moreover have "at_time circ1 = 5" by (simp add: circ1_def)
  ultimately show ?thesis using p q(2) n r unfolding Let_def by metis
qed

section \<open>The whole path under concurrency\<close>

text \<open>
  C2. The same with all goroutines at work, over two lives of the process, each with an empty redelivery guard at
  its start: a signal acknowledged to any of any number of concurrent calls is, whenever the machine loses power and at
  every moment after the restart, still pending, or it is a dead letter (or was one when the power was lost), or in one of
  the lives the destination itself has confirmed its payload and the record of it is in the audit log of that
  life, whatever the interleavings, the faults of the disks and the answers of the destination. And in each life no payload is
  removed as delivered more often than the destination has confirmed it, so no record was written on the strength of a
  confirmation that was already used. The payloads of a life are told apart by their SHA-256 digests, as the guard does.
\<close>

theorem concurrent_ack_is_accounted_for:
  assumes "spool_run c IsPermanent (spool_deliver cfg env (confirming (deliver cfg env new_request send))) (guard_on_dead env) old w0 P \<sigma>"
    and "P i = Caller (At (Answered None) n b)" "fsyncEnabled c"
    and "audit_config env = Some lc" "logger_ok lc w0" "logger_ok lc w1" "digest w0 = []" "digest w1 = []"
    and "crash (disk (sp \<sigma>)) d"
    and "spool_run c IsPermanent (spool_deliver cfg env (confirming (deliver cfg env new_request send))) (guard_on_dead env)
           (queue_of c d) w1 P' \<sigma>'"
    and "inj_on hexDigest (set (snd (dest \<sigma>)) \<union> set (snd (destination (fst (dest \<sigma>)))))"
    and "inj_on hexDigest (set (snd (dest \<sigma>')) \<union> set (snd (destination (fst (dest \<sigma>')))))"
  shows "(queue_of c (disk (sp \<sigma>')) n = Some b
      \<or> dead_of c (disk (sp \<sigma>)) n = Some b \<or> dead_of c (disk (sp \<sigma>')) n = Some b
      \<or> (\<exists>life \<in> {\<sigma>, \<sigma>'}. b \<in> set (snd (destination (fst (dest life))))
            \<and> audited_in lc (destination_name cfg env) (fst (dest life)) b))
    \<and> (\<forall>life \<in> {\<sigma>, \<sigma>'}. \<forall>p. count_list (snd (dest life)) p \<le> count_list (snd (destination (fst (dest life)))) p)"
proof -
  let ?dst = "destination_name cfg env"
  note wiring = audited_wiring [OF assms(4)]
  have life: "sound_acks lc ?dst (dest \<tau>)"
    if "spool_run c IsPermanent (spool_deliver cfg env (confirming (deliver cfg env new_request send))) (guard_on_dead env) q w Q \<tau>"
      "logger_ok lc w" "digest w = []" for q w Q \<tau>
    by (rule reach_destination [where I = "sound_acks lc ?dst", OF that(1) [unfolded spool_run_def wiring] sound_acks_start [OF that(2,3)]])
      (fact sound_acks_forward sound_acks_clear)+
  note l1 = life [OF assms(1,5,7)] and l2 = life [OF assms(10,6,8)]
  have "count_list (snd (dest \<tau>)) p \<le> count_list (snd (destination (fst (dest \<tau>)))) p" if "\<tau> \<in> {\<sigma>, \<sigma>'}" for \<tau> p
    using that delivers_first_count assms(11,12) l1 l2 unfolding sound_acks_def by blast
  moreover have "queue_of c (disk (sp \<sigma>')) n = Some b \<or> dead_of c (disk (sp \<sigma>)) n = Some b \<or> dead_of c (disk (sp \<sigma>')) n = Some b
      \<or> b \<in> set (snd (dest \<sigma>)) \<or> b \<in> set (snd (dest \<sigma>'))"
    using answered_kept [OF assms(1-3,9)] pending_kept [OF assms(10), of n b] by blast
  ultimately show ?thesis using sound_ack [OF l1 assms(11)] sound_ack [OF l2 assms(12)] by blast
qed

lemma concurrent_ack_is_accounted_for_witness:
  "\<exists>P \<sigma> P' \<sigma>' w1. P 1 = Caller (At (Answered None) (spool_name 6 1) ''x'')
    \<and> spool_run cfg1 IsPermanent (spool_deliver empty_config env2 (confirming (deliver empty_config env2 (\<lambda>_. None) hub_down_once))) (guard_on_dead env2)
        Map.empty (audit_start (destinations1, [])) P \<sigma>
    \<and> spool_run cfg1 IsPermanent (spool_deliver empty_config env2 (confirming (deliver empty_config env2 (\<lambda>_. None) hub_down_once))) (guard_on_dead env2)
        (queue_of cfg1 (disk (sp \<sigma>))) w1 P' \<sigma>'
    \<and> (queue_of cfg1 (disk (sp \<sigma>')) (spool_name 6 1) = Some ''x''
       \<or> dead_of cfg1 (disk (sp \<sigma>)) (spool_name 6 1) = Some ''x'' \<or> dead_of cfg1 (disk (sp \<sigma>')) (spool_name 6 1) = Some ''x''
       \<or> (\<exists>life \<in> {\<sigma>, \<sigma>'}. ''x'' \<in> set (snd (destination (fst (dest life))))
            \<and> audited_in audit1 (destination_name empty_config env2) (fst (dest life)) ''x''))"
proof -
  let ?deliver = "spool_deliver empty_config env2 (confirming (deliver empty_config env2 (\<lambda>_. None) hub_down_once))"
  let ?w = "audit_start (destinations1, [])"
  let ?s = "snd ((enq_step cfg1 6 ^^ 14) (Reserving ''x'', fresh_spool [NoFault, NoFault]))"
  let ?P = "procs0(1 := Caller (At (Answered None) (spool_name 6 1) ''x''))"
  note r1 = one_call_run [where perm = IsPermanent and forward = ?deliver and onDead = "guard_on_dead env2" and w = ?w]
  have P: "?P 1 = Caller (At (Answered None) (spool_name 6 1) ''x'')" by simp
  have wf: "wf_fs (disk ?s)"
    using spool_threads.reach_shared [OF r1 [unfolded spool_run_def]] by (simp add: shared_ok_def)
  have "\<not> isl (fst (New cfg1 7 (disk ?s)))" by code_simp
  then obtain s2 d2 where n: "New cfg1 7 (disk ?s) = (Inr s2, d2)" by (metis isl_def prod.collapse sum.exhaust)
  have "spool_start cfg1 (queue_of cfg1 (disk ?s)) ?w procs0 \<lparr>sp = s2, dest = (?w, []), unremoved = 0\<rparr>"
    using n wf unfolding spool_start_def procs0_def by fastforce
  then have r2: "spool_run cfg1 IsPermanent ?deliver (guard_on_dead env2) (queue_of cfg1 (disk ?s)) ?w procs0
      \<lparr>sp = s2, dest = (?w, []), unremoved = 0\<rparr>" unfolding spool_run_def by (rule par_reach.start)
  have f: "fsyncEnabled cfg1" by (simp add: cfg1_def)
  have k: "crash (disk (sp \<lparr>sp = ?s, dest = (?w, []), unremoved = 0\<rparr>)) (disk ?s)" using crash_refl [OF wf] by simp
  have e: "digest ?w = []" "snd (destination ?w) = []" by (simp_all add: audit_start_def)
  have i: "inj_on hexDigest (set (snd (dest \<lparr>sp = t, dest = (?w, []), unremoved = 0 :: nat\<rparr>))
      \<union> set (snd (destination (fst (dest \<lparr>sp = t, dest = (?w, []), unremoved = 0 :: nat\<rparr>)))))" for t
    by (simp add: e(2))
  note g = concurrent_ack_is_accounted_for [OF r1 P f env2_audit audit_start_ok audit_start_ok e(1) e(1) k r2 i i, THEN conjunct1]
  have r3: "spool_run cfg1 IsPermanent ?deliver (guard_on_dead env2)
      (queue_of cfg1 (disk (sp \<lparr>sp = ?s, dest = (?w, []), unremoved = 0\<rparr>))) ?w procs0 \<lparr>sp = s2, dest = (?w, []), unremoved = 0\<rparr>"
    using r2 by simp
  from P r1 r3 g show ?thesis by (intro exI conjI)
qed

end
